(* ===== verification/Space.thy ===== *)
theory Space
  imports Prelude
begin

text \<open>
  The URI topology of \<^verbatim>\<open>src/space.rs\<close>: the URL types, their derivations (auxiliary,
  slash counterpart, parent, ancestors) and \<open>StorageSpace::resolve\<close>, which classifies
  every request path. \<open>NamedNode::new\<close> of oxigraph decides which strings are IRIs; it
  is the parameter \<open>valid_iri\<close>.

  The Rust fields are private, so a \<open>ResourceUrl\<close> is only ever built with an IRI that
  ends with its path. The three \<open>.expect("iri ends with path")\<close> are \<open>the\<close> of
  \<open>strip_suffix\<close>; \<open>wf_url\<close> below is that invariant, and every URL the module mints
  satisfies it, so the \<open>expect\<close> never fires.
\<close>

section \<open>Types\<close>

datatype space_error =
    NotAbsolute | NoTrailingSlash | InvalidBaseIri | InvalidResourceIri
  | Reserved | NotRooted | NotNormalized

definition AUX_SEGMENT :: string where "AUX_SEGMENT = ''.aux''"
definition WELL_KNOWN_SEGMENT :: string where "WELL_KNOWN_SEGMENT = ''.well-known''"
definition RESERVED_SEGMENTS :: "string list" where
  "RESERVED_SEGMENTS = [AUX_SEGMENT, WELL_KNOWN_SEGMENT]"

datatype aux_kind = Acl

definition aux_kind_all :: "aux_kind list" where "aux_kind_all = [Acl]"

fun aux_kind_name :: "aux_kind \<Rightarrow> string" where "aux_kind_name Acl = ''acl''"

fun link_rel :: "aux_kind \<Rightarrow> string" where "link_rel Acl = ''acl''"

definition kind_suffix :: "aux_kind \<Rightarrow> string" where
  "kind_suffix k = ''.'' @ aux_kind_name k"

fun find_map :: "('a \<Rightarrow> 'b option) \<Rightarrow> 'a list \<Rightarrow> 'b option" where
  "find_map f [] = None"
| "find_map f (x # xs) = (case f x of Some y \<Rightarrow> Some y | None \<Rightarrow> find_map f xs)"

definition split_suffix :: "string \<Rightarrow> (aux_kind \<times> string) option" where
  "split_suffix rest =
     find_map (\<lambda>k. map_option (Pair k) (strip_suffix (kind_suffix k) rest)) aux_kind_all"

record resource_url =
  r_path :: string
  r_iri :: string

datatype container_url = ContainerUrl (as_resource: resource_url)

record aux_url =
  a_kind :: aux_kind
  a_subject :: resource_url
  a_iri :: string

datatype target = Resource resource_url | Container container_url | Aux aux_url

definition container_iri :: "container_url \<Rightarrow> string" where
  "container_iri c = r_iri (as_resource c)"

definition container_path :: "container_url \<Rightarrow> string" where
  "container_path c = r_path (as_resource c)"

fun target_iri :: "target \<Rightarrow> string" where
  "target_iri (Resource r) = r_iri r"
| "target_iri (Container c) = container_iri c"
| "target_iri (Aux a) = a_iri a"

section \<open>Derivations on URLs\<close>

definition url_base :: "resource_url \<Rightarrow> string" where
  "url_base u = the (strip_suffix (r_path u) (r_iri u))"

definition url_aux :: "resource_url \<Rightarrow> aux_kind \<Rightarrow> aux_url" where
  "url_aux u k = \<lparr>a_kind = k, a_subject = u,
     a_iri = url_base u @ ''/'' @ AUX_SEGMENT @ r_path u @ kind_suffix k\<rparr>"

definition slash_counterpart :: "resource_url \<Rightarrow> resource_url option" where
  "slash_counterpart u =
     (case strip_suffix ''/'' (r_path u) of
        Some [] \<Rightarrow> None
      | Some (c # cs) \<Rightarrow> Some \<lparr>r_path = c # cs, r_iri = url_base u @ c # cs\<rparr>
      | None \<Rightarrow> Some \<lparr>r_path = r_path u @ ''/'', r_iri = url_base u @ r_path u @ ''/''\<rparr>)"

definition as_container :: "resource_url \<Rightarrow> container_url option" where
  "as_container u = (if ends_with ''/'' (r_path u) then Some (ContainerUrl u) else None)"

definition parent_path :: "string \<Rightarrow> string option" where
  "parent_path p =
     (if p = ''/'' then None
      else let trimmed = (case strip_suffix ''/'' p of Some t \<Rightarrow> t | None \<Rightarrow> p)
           in map_option (\<lambda>i. take (Suc i) trimmed) (rfind (CHR ''/'') trimmed))"

definition parent :: "resource_url \<Rightarrow> container_url option" where
  "parent u = map_option
     (\<lambda>pp. ContainerUrl \<lparr>r_path = pp, r_iri = url_base u @ pp\<rparr>) (parent_path (r_path u))"

lemma parent_path_shorter:
  assumes "parent_path p = Some q"
  shows "length q < length p"
proof (cases "strip_suffix ''/'' p")
  case (Some t)
  with assms obtain i where "rfind (CHR ''/'') t = Some i" and "q = take (Suc i) t"
    by (auto simp: parent_path_def split: if_splits)
  moreover from Some have "length p = Suc (length t)" by (simp add: str_simps)
  ultimately show ?thesis by simp
next
  case None
  with assms obtain i where i: "rfind (CHR ''/'') p = Some i" and q: "q = take (Suc i) p"
    by (auto simp: parent_path_def split: if_splits)
  from rfind_Some [OF i] have lt: "i < length p" and at: "p ! i = CHR ''/''" by auto
  have "Suc i \<noteq> length p"
  proof
    assume len: "Suc i = length p"
    then have "p = take i p @ [CHR ''/'']"
      using at by (metis lessI order_refl take_Suc_conv_app_nth take_all)
    then have "strip_suffix ''/'' p = Some (take i p)"
      by (metis strip_suffix_Some)
    with None show False by simp
  qed
  with lt q show ?thesis by simp
qed

function ancestors :: "resource_url \<Rightarrow> container_url list" where
  "ancestors u = (case parent u of None \<Rightarrow> [] | Some c \<Rightarrow> c # ancestors (as_resource c))"
  by pat_completeness auto
termination
  by (relation "measure (\<lambda>u. length (r_path u))")
     (auto simp: parent_def dest: parent_path_shorter)

declare ancestors.simps [simp del]

section \<open>The storage space\<close>

record storage_space =
  s_base :: string

definition new_space :: "(string \<Rightarrow> bool) \<Rightarrow> string \<Rightarrow> space_error + storage_space" where
  "new_space valid_iri base =
     (if \<not> (starts_with ''http://'' base \<or> starts_with ''https://'' base) then Inl NotAbsolute
      else if \<not> ends_with ''/'' base then Inl NoTrailingSlash
      else if \<not> valid_iri base then Inl InvalidBaseIri
      else Inr \<lparr>s_base = base\<rparr>)"

definition is_dot_segment :: "string \<Rightarrow> bool" where
  "is_dot_segment seg \<longleftrightarrow> seg = ''.'' \<or> seg = ''..''"

definition is_normalization_stable :: "string \<Rightarrow> bool" where
  "is_normalization_stable request_path =
     (if CHR ''#'' \<in> set request_path then False
      else let rest = drop 1 request_path
           in if rest = [] then True
              else let segments = split_on (CHR ''/'') rest
                   in list_all (\<lambda>seg. seg \<noteq> [] \<and> \<not> is_dot_segment seg) (butlast segments)
                      \<and> (last segments = [] \<or> \<not> is_dot_segment (last segments)))"

definition segment_remainder :: "string \<Rightarrow> string \<Rightarrow> string option" where
  "segment_remainder request_path segment =
     Option.bind (strip_prefix ''/'' request_path) (\<lambda>r.
     Option.bind (strip_prefix segment r) (\<lambda>rest.
       if rest = [] \<or> starts_with ''/'' rest then Some rest else None))"

definition reserved_segment :: "string \<Rightarrow> string option" where
  "reserved_segment request_path =
     find (\<lambda>seg. segment_remainder request_path seg \<noteq> None) RESERVED_SEGMENTS"

definition space_resource ::
  "(string \<Rightarrow> bool) \<Rightarrow> storage_space \<Rightarrow> string \<Rightarrow> space_error + resource_url" where
  "space_resource valid_iri sp request_path =
     (let trimmed = the (strip_prefix ''/'' request_path);
          iri = s_base sp @ trimmed
      in if valid_iri iri then Inr \<lparr>r_path = request_path, r_iri = iri\<rparr>
         else Inl InvalidResourceIri)"

definition resolve ::
  "(string \<Rightarrow> bool) \<Rightarrow> storage_space \<Rightarrow> string \<Rightarrow> space_error + target" where
  "resolve valid_iri sp request_path =
     (if \<not> starts_with ''/'' request_path then Inl NotRooted
      else if \<not> is_normalization_stable request_path then Inl NotNormalized
      else if segment_remainder request_path WELL_KNOWN_SEGMENT \<noteq> None then Inl Reserved
      else case segment_remainder request_path AUX_SEGMENT of
        Some rest \<Rightarrow>
          (case split_suffix rest of
             None \<Rightarrow> Inl Reserved
           | Some (kind, subject_path) \<Rightarrow>
               if reserved_segment subject_path \<noteq> None then Inl Reserved
               else if \<not> is_normalization_stable subject_path then Inl NotNormalized
               else res_bind (space_resource valid_iri sp subject_path) (\<lambda>subject.
                 let aux = url_aux subject kind
                 in if valid_iri (a_iri aux) then Inr (Aux aux) else Inl InvalidResourceIri))
      | None \<Rightarrow>
          res_bind (space_resource valid_iri sp request_path) (\<lambda>resource.
            Inr (case as_container resource of
                   Some container \<Rightarrow> Container container
                 | None \<Rightarrow> Resource resource)))"

text \<open>\<open>StorageSpace::root\<close>: \<open>resolve("/")\<close> with both panics excluded by \<open>resolve_root\<close>.\<close>

definition space_root :: "storage_space \<Rightarrow> container_url" where
  "space_root sp = ContainerUrl \<lparr>r_path = ''/'', r_iri = s_base sp\<rparr>"


section \<open>Well-formedness\<close>

definition wf_url :: "resource_url \<Rightarrow> bool" where
  "wf_url u \<longleftrightarrow> suffix (r_path u) (r_iri u)"

definition wf_space :: "storage_space \<Rightarrow> bool" where
  "wf_space sp \<longleftrightarrow> suffix ''/'' (s_base sp)"

definition in_space :: "storage_space \<Rightarrow> resource_url \<Rightarrow> bool" where
  "in_space sp u \<longleftrightarrow> prefix ''/'' (r_path u) \<and> r_iri u = s_base sp @ tl (r_path u)"

text \<open>The path a request has to name for \<open>resolve\<close> to answer with the target.\<close>

fun target_path :: "target \<Rightarrow> string" where
  "target_path (Resource r) = r_path r"
| "target_path (Container c) = container_path c"
| "target_path (Aux a) = ''/'' @ AUX_SEGMENT @ r_path (a_subject a) @ kind_suffix (a_kind a)"

fun target_subject :: "target \<Rightarrow> resource_url" where
  "target_subject (Resource r) = r"
| "target_subject (Container c) = as_resource c"
| "target_subject (Aux a) = a_subject a"

lemma wf_space_new: "new_space valid_iri base = Inr sp \<Longrightarrow> wf_space sp \<and> s_base sp = base \<and> valid_iri base"
  by (auto simp: new_space_def wf_space_def str_simps split: if_splits)

lemma wf_spaceE:
  assumes "wf_space sp"
  obtains b where "s_base sp = b @ ''/''"
  using assms by (auto simp: wf_space_def suffix_def)

lemma url_base_eq [url_simps]: "r_iri u = b @ r_path u \<Longrightarrow> url_base u = b"
  by (simp add: url_base_def)

lemma url_base_append: "wf_url u \<Longrightarrow> url_base u @ r_path u = r_iri u"
  by (auto simp: wf_url_def suffix_def url_base_def)

lemma in_space_base:
  assumes "in_space sp u" and "s_base sp = b @ ''/''"
  shows "r_iri u = b @ r_path u"
  using assms by (auto simp: in_space_def prefix_def)

lemma in_space_url_base:
  assumes "in_space sp u" and "wf_space sp"
  shows "url_base u @ ''/'' = s_base sp"
proof -
  obtain b where b: "s_base sp = b @ ''/''" using assms(2) by (rule wf_spaceE)
  from url_base_eq [OF in_space_base [OF assms(1) b]] b show ?thesis by simp
qed

lemma in_space_wf_url: "in_space sp u \<Longrightarrow> wf_space sp \<Longrightarrow> wf_url u"
  by (metis in_space_base suffix_def wf_spaceE wf_url_def)

text \<open>Minting a sibling in the same space: what \<open>slash_counterpart\<close> and \<open>parent\<close> do.\<close>

lemma in_space_mint:
  assumes "in_space sp u" and "wf_space sp" and "prefix ''/'' p"
  shows "in_space sp \<lparr>r_path = p, r_iri = url_base u @ p\<rparr>"
proof -
  obtain t where "p = ''/'' @ t" using assms(3) by (auto simp: prefix_def)
  then show ?thesis
    using in_space_url_base [OF assms(1,2)] by (simp add: in_space_def)
qed

lemma space_resource_Inr:
  "prefix ''/'' p \<Longrightarrow> space_resource valid_iri sp p = Inr u \<longleftrightarrow>
     u = \<lparr>r_path = p, r_iri = s_base sp @ tl p\<rparr> \<and> valid_iri (r_iri u)"
  by (auto simp: space_resource_def prefix_def Let_def split: if_splits)

lemma space_resource_in_space:
  "prefix ''/'' p \<Longrightarrow> space_resource valid_iri sp p = Inr u \<Longrightarrow> in_space sp u"
  by (auto simp: space_resource_Inr in_space_def)

section \<open>What resolve answers\<close>

lemma split_suffix_Acl: "split_suffix rest = Some (k, s) \<longleftrightarrow> k = Acl \<and> rest = s @ ''.acl''"
  by (auto simp: split_suffix_def aux_kind_all_def kind_suffix_def str_simps split: option.splits)

lemma split_suffix_kind: "split_suffix rest = Some (k, s) \<longleftrightarrow> rest = s @ kind_suffix k"
  by (cases k) (simp add: split_suffix_Acl kind_suffix_def)

lemma segment_remainder_Some:
  "segment_remainder p seg = Some rest \<longleftrightarrow>
     p = ''/'' @ seg @ rest \<and> (rest = [] \<or> prefix ''/'' rest)"
proof -
  have "segment_remainder p seg = Some rest \<longleftrightarrow>
    (\<exists>r. strip_prefix ''/'' p = Some r \<and> strip_prefix seg r = Some rest
       \<and> (rest = [] \<or> starts_with ''/'' rest))"
    unfolding segment_remainder_def bind_eq_Some_conv by (auto split: if_splits)
  then show ?thesis by (auto simp: str_simps)
qed

lemma reserved_segment_None:
  "reserved_segment p = None \<longleftrightarrow>
     segment_remainder p AUX_SEGMENT = None \<and> segment_remainder p WELL_KNOWN_SEGMENT = None"
  by (auto simp: reserved_segment_def RESERVED_SEGMENTS_def)

lemma as_container_conv:
  "as_container u = Some c \<longleftrightarrow> suffix ''/'' (r_path u) \<and> c = ContainerUrl u"
  "as_container u = None \<longleftrightarrow> \<not> suffix ''/'' (r_path u)"
  by (auto simp: as_container_def str_simps)

text \<open>The plain branch: a path outside the reserved segments.\<close>

lemma resolve_plain:
  assumes "prefix ''/'' p" and "is_normalization_stable p" and "reserved_segment p = None"
    and "valid_iri (s_base sp @ tl p)"
  shows "resolve valid_iri sp p =
    (let u = \<lparr>r_path = p, r_iri = s_base sp @ tl p\<rparr>
     in Inr (if suffix ''/'' p then Container (ContainerUrl u) else Resource u))"
proof -
  have "space_resource valid_iri sp p = Inr \<lparr>r_path = p, r_iri = s_base sp @ tl p\<rparr>"
    using assms by (simp add: space_resource_Inr)
  then show ?thesis
    using assms by (simp add: resolve_def str_simps reserved_segment_None as_container_def)
qed

text \<open>The auxiliary branch: a subject path under \<open>/.aux\<close> with a kind's suffix.\<close>

lemma resolve_Inr_cases [consumes 1, case_names plain aux]:
  assumes "resolve valid_iri sp p = Inr t"
  obtains
    (plain) u where "prefix ''/'' p" "is_normalization_stable p" "reserved_segment p = None"
      "u = \<lparr>r_path = p, r_iri = s_base sp @ tl p\<rparr>" "valid_iri (r_iri u)"
      "t = (if suffix ''/'' p then Container (ContainerUrl u) else Resource u)"
  | (aux) sub k u where "p = ''/'' @ AUX_SEGMENT @ sub @ kind_suffix k" "prefix ''/'' sub"
      "is_normalization_stable p" "is_normalization_stable sub" "reserved_segment sub = None"
      "u = \<lparr>r_path = sub, r_iri = s_base sp @ tl sub\<rparr>" "valid_iri (r_iri u)"
      "valid_iri (a_iri (url_aux u k))" "t = Aux (url_aux u k)"
proof -
  from assms have p: "prefix ''/'' p" "is_normalization_stable p"
    and wk: "segment_remainder p WELL_KNOWN_SEGMENT = None"
    by (auto simp: resolve_def str_simps split: if_splits)
  show thesis
  proof (cases "segment_remainder p AUX_SEGMENT")
    case None
    obtain u where u: "space_resource valid_iri sp p = Inr u"
      and t: "t = (case as_container u of Some c \<Rightarrow> Container c | None \<Rightarrow> Resource u)"
      using assms p wk None by (auto simp: resolve_def str_simps elim!: res_bind_InrE)
    have ru: "u = \<lparr>r_path = p, r_iri = s_base sp @ tl p\<rparr>" "valid_iri (r_iri u)"
      using u p(1) by (auto simp: space_resource_Inr)
    have "t = (if suffix ''/'' p then Container (ContainerUrl u) else Resource u)"
      using t ru by (simp add: as_container_def str_simps)
    with p wk None ru show thesis by (intro plain [of u]) (simp_all add: reserved_segment_None)
  next
    case (Some rest)
    have p': "p = ''/'' @ AUX_SEGMENT @ rest" "rest = [] \<or> prefix ''/'' rest"
      using Some by (simp_all add: segment_remainder_Some)
    obtain k sub where sp: "split_suffix rest = Some (k, sub)"
      using assms p wk Some by (auto simp: resolve_def str_simps split: option.splits)
    then have rest: "rest = sub @ kind_suffix k" by (simp add: split_suffix_kind)
    then have sub: "prefix ''/'' sub"
      using p'(2) by (cases sub) (auto simp: kind_suffix_def)
    have conds: "reserved_segment sub = None" "is_normalization_stable sub"
      using assms p wk Some sp by (auto simp: resolve_def str_simps split: if_splits)
    obtain u where u: "space_resource valid_iri sp sub = Inr u"
      and t: "valid_iri (a_iri (url_aux u k))" "t = Aux (url_aux u k)"
      using assms p wk Some sp conds
      by (auto simp: resolve_def str_simps Let_def elim!: res_bind_InrE split: if_splits)
    from u sub have "u = \<lparr>r_path = sub, r_iri = s_base sp @ tl sub\<rparr>" "valid_iri (r_iri u)"
      by (auto simp: space_resource_Inr)
    with p p'(1) rest sub conds t show thesis by (intro aux [of sub k u]) simp_all
  qed
qed

lemma resolve_in_space:
  assumes "resolve valid_iri sp p = Inr t"
  shows "in_space sp (target_subject t)"
  using assms by (cases rule: resolve_Inr_cases) (auto simp: in_space_def url_aux_def)

lemma resolve_target_path:
  assumes "resolve valid_iri sp p = Inr t"
  shows "target_path t = p"
  using assms by (cases rule: resolve_Inr_cases) (auto simp: url_aux_def container_path_def)

lemma target_iri_path:
  assumes "wf_space sp" and "resolve valid_iri sp p = Inr t"
  shows "target_iri t = s_base sp @ tl (target_path t)"
  using assms(2)
proof (cases rule: resolve_Inr_cases)
  case (plain u)
  then show ?thesis by (simp add: container_iri_def container_path_def)
next
  case (aux sub k u)
  then have "in_space sp u" by (simp add: in_space_def)
  from in_space_url_base [OF this assms(1)] aux show ?thesis
    by (simp add: url_aux_def)
qed


section \<open>Parents and ancestors\<close>

lemma parent_path_split:
  assumes "parent_path p = Some q"
  obtains seg ys where "suffix ''/'' q" "CHR ''/'' \<notin> set seg" "ys = [] \<or> ys = ''/''"
    "seg @ ys \<noteq> []" "p = q @ seg @ ys"
proof -
  define t where "t = (case strip_suffix ''/'' p of Some t \<Rightarrow> t | None \<Rightarrow> p)"
  from assms obtain i where i: "rfind (CHR ''/'') t = Some i" and q: "q = take (Suc i) t"
    by (auto simp: parent_path_def t_def Let_def split: if_splits)
  note at = rfind_Some [OF i]
  have sfx: "suffix ''/'' q"
    using at q by (auto simp: suffix_def take_Suc_conv_app_nth)
  have t: "t = q @ drop (Suc i) t" using q by simp
  consider "p = t @ ''/''" | "p = t" "\<not> suffix ''/'' p"
    by (cases "strip_suffix ''/'' p") (auto simp: t_def strip_suffix_None str_simps)
  then show thesis
  proof cases
    case 1
    then have "p = q @ drop (Suc i) t @ ''/''" using t by (metis append.assoc)
    then show thesis using sfx at by (intro that [of "drop (Suc i) t" "''/''"]) auto
  next
    case 2
    then have "drop (Suc i) t \<noteq> []" using t sfx by (metis append_Nil2)
    then show thesis using 2(1) sfx at t by (intro that [of "drop (Suc i) t" "[]"]) auto
  qed
qed

lemma parent_path_None:
  assumes "parent_path p = None"
  shows "p = ''/'' \<or> CHR ''/'' \<notin> set (butlast p)"
proof (cases "strip_suffix ''/'' p")
  case (Some t)
  with assms show ?thesis
    by (auto simp: parent_path_def str_simps split: if_splits)
next
  case None
  with assms show ?thesis
    by (auto simp: parent_path_def str_simps split: if_splits dest: in_set_butlastD)
qed

text \<open>The proper prefixes of a path that end in a slash, longest first.\<close>

definition slash_prefixes :: "string \<Rightarrow> string list" where
  "slash_prefixes p =
     filter (\<lambda>q. q \<noteq> [] \<and> last q = CHR ''/'') (map (\<lambda>i. take i p) (rev [0..<length p]))"

lemma slash_prefixes_step:
  assumes "q \<noteq> []" "last q = CHR ''/''" "CHR ''/'' \<notin> set seg" "ys = [] \<or> ys = ''/''"
    and "seg @ ys \<noteq> []"
  shows "slash_prefixes (q @ seg @ ys) = q # slash_prefixes q"
proof -
  let ?p = "q @ seg @ ys"
  let ?n = "length q" and ?m = "length (seg @ ys)"
  have split: "[0..<length ?p] = [0..<?n] @ ?n # [Suc ?n..<?n + ?m]"
  proof -
    have "0 < ?m" using assms(5) by (metis length_greater_0_conv)
    then have "[?n..<?n + ?m] = ?n # [Suc ?n..<?n + ?m]" by (intro upt_conv_Cons) simp
    moreover have "[0..<?n + ?m] = [0..<?n] @ [?n..<?n + ?m]" by (rule upt_add_eq_append) simp
    ultimately show ?thesis by (metis length_append)
  qed
  have last: "last (take i ?p) \<noteq> CHR ''/''" if "i \<in> set [Suc ?n..<?n + ?m]" for i
  proof -
    define j where "j = i - ?n"
    have j: "i = ?n + j" "0 < j" "j < ?m" using that by (auto simp: j_def)
    then have "take i ?p = q @ take j seg" using assms(4) by auto
    moreover have "take j seg \<noteq> []" using j assms(4) by auto
    ultimately show ?thesis
      using assms(3) by (metis in_set_takeD last_appendR last_in_set)
  qed
  have none: "filter (\<lambda>q. q \<noteq> [] \<and> last q = CHR ''/'')
      (map (\<lambda>i. take i ?p) (rev [Suc ?n..<?n + ?m])) = []"
    using last by (auto simp: filter_empty_conv)
  have low: "map (\<lambda>i. take i ?p) (rev [0..<?n]) = map (\<lambda>i. take i q) (rev [0..<?n])"
    by auto
  have mid: "take ?n ?p = q" by simp
  show ?thesis
    unfolding slash_prefixes_def split
    using none assms(1,2) low mid
    by (simp del: take_append map_eq_conv)
qed

lemma slash_prefixes_parent:
  "slash_prefixes p = (case parent_path p of None \<Rightarrow> [] | Some q \<Rightarrow> q # slash_prefixes q)"
proof (cases "parent_path p")
  case None
  have "last (take i p) \<noteq> CHR ''/''" if "i < length p" "take i p \<noteq> []" for i
  proof -
    have "take i p = take i (butlast p)" using that(1) by (simp add: take_butlast)
    then have "last (take i p) \<in> set (butlast p)" using that(2) by (metis in_set_takeD last_in_set)
    then show ?thesis using parent_path_None [OF None] that by auto
  qed
  with None show ?thesis by (auto simp: slash_prefixes_def filter_empty_conv)
next
  case (Some q)
  from parent_path_split [OF this] obtain seg ys where
    seg: "suffix ''/'' q" "CHR ''/'' \<notin> set seg" "ys = [] \<or> ys = ''/''"
    "seg @ ys \<noteq> []" "p = q @ seg @ ys" .
  then have "q \<noteq> []" "last q = CHR ''/''" by (auto simp: suffix_def)
  with seg Some show ?thesis by (simp add: slash_prefixes_step)
qed

lemma ancestors_paths:
  "map container_path (ancestors u) = slash_prefixes (r_path u)"
proof (induction u rule: ancestors.induct)
  case (1 u)
  show ?case
  proof (cases "parent u")
    case None
    then have "parent_path (r_path u) = None" by (simp add: parent_def)
    with None show ?thesis
      by (simp add: ancestors.simps [of u] slash_prefixes_parent [of "r_path u"])
  next
    case (Some c)
    then have "parent_path (r_path u) = Some (container_path c)"
      by (auto simp: parent_def container_path_def)
    with Some 1 [OF Some] show ?thesis
      by (simp add: ancestors.simps [of u] slash_prefixes_parent [of "r_path u"] container_path_def)
  qed
qed


lemma parent_in_space:
  assumes "in_space sp u" and "wf_space sp" and "parent u = Some c"
  shows "in_space sp (as_resource c) \<and> parent_path (r_path u) = Some (container_path c)"
proof -
  from assms(3) obtain q where q: "parent_path (r_path u) = Some q"
    and c: "c = ContainerUrl \<lparr>r_path = q, r_iri = url_base u @ q\<rparr>"
    by (auto simp: parent_def)
  from q obtain seg ys where sfx: "suffix ''/'' q" and ru: "r_path u = q @ seg @ ys"
    by (rule parent_path_split)
  from sfx have "q \<noteq> []" by auto
  with ru assms(1) have "prefix ''/'' q" by (cases q) (auto simp: in_space_def)
  with in_space_mint [OF assms(1,2)] q c show ?thesis by (simp add: container_path_def)
qed

lemma ancestors_in_space:
  assumes "in_space sp u" and "wf_space sp" and "c \<in> set (ancestors u)"
  shows "in_space sp (as_resource c)"
  using assms
proof (induction u rule: ancestors.induct)
  case (1 u)
  show ?case
  proof (cases "parent u")
    case None
    with 1 show ?thesis by (simp add: ancestors.simps [of u])
  next
    case (Some d)
    then have "c = d \<or> c \<in> set (ancestors (as_resource d))"
      using "1.prems"(3) by (simp add: ancestors.simps [of u])
    with Some 1 show ?thesis by (auto dest: parent_in_space)
  qed
qed

lemma slash_prefix_stable:
  assumes "q \<in> set (slash_prefixes p)" and "prefix ''/'' p" and "is_normalization_stable p"
  shows "prefix ''/'' q \<and> suffix ''/'' q \<and> is_normalization_stable q"
proof -
  from assms(1) obtain i where i: "i < length p" "q = take i p" "q \<noteq> []" "last q = CHR ''/''"
    by (auto simp: slash_prefixes_def)
  then obtain q' where q': "q = q' @ ''/''" by (metis append_butlast_last_id)
  obtain r where p: "p = q @ r" "r \<noteq> []" using i by (metis append_take_drop_id drop_eq_Nil leD)
  have sl: "prefix ''/'' q" using i assms(2) by (cases p; cases i) auto
  have hash: "CHR ''#'' \<notin> set q" using p assms(3) by (auto simp: is_normalization_stable_def)
  show ?thesis
  proof (cases q')
    case Nil
    then show ?thesis using q' sl by (simp add: is_normalization_stable_def)
  next
    case (Cons a x)
    then have q: "q = ''/'' @ x @ ''/''" using q' sl by simp
    then have "drop 1 p = x @ CHR ''/'' # r" using p by simp
    then have sp: "split_on (CHR ''/'') (drop 1 p) = split_on (CHR ''/'') x @ split_on (CHR ''/'') r"
      by (simp add: split_on_append_delim)
    have "split_on (CHR ''/'') (drop 1 q) = split_on (CHR ''/'') x @ [[]]"
      using q by (simp add: split_on_append_delim)
    moreover have "list_all (\<lambda>seg. seg \<noteq> [] \<and> \<not> is_dot_segment seg) (split_on (CHR ''/'') x)"
      using assms(3) sp p q
      by (auto simp: is_normalization_stable_def Let_def butlast_append split: if_splits)
    ultimately show ?thesis
      using q hash sl by (auto simp: is_normalization_stable_def Let_def suffix_def)
  qed
qed

lemma slash_prefix_not_reserved:
  assumes "q \<in> set (slash_prefixes p)" and "reserved_segment p = None"
  shows "reserved_segment q = None"
proof -
  from assms(1) obtain i where i: "q = take i p" "last q = CHR ''/''"
    by (auto simp: slash_prefixes_def)
  have "segment_remainder q seg = None" if "segment_remainder p seg = None" "CHR ''/'' \<notin> set seg" "seg \<noteq> []" for seg
  proof (rule ccontr)
    assume "segment_remainder q seg \<noteq> None"
    then obtain rest where q: "q = ''/'' @ seg @ rest" "rest = [] \<or> prefix ''/'' rest"
      by (auto simp: segment_remainder_Some)
    have p: "p = ''/'' @ seg @ (rest @ drop i p)"
      using q i(1) by (metis append.assoc append_take_drop_id)
    show False
    proof (cases rest)
      case Nil
      then show False using q i(2) that(2,3) by (cases seg rule: rev_cases) auto
    next
      case (Cons a x)
      then have "segment_remainder p seg = Some (rest @ drop i p)"
        using p q(2) by (subst segment_remainder_Some) auto
      with that show False by simp
    qed
  qed
  then show ?thesis using assms(2)
    by (simp add: reserved_segment_None AUX_SEGMENT_def WELL_KNOWN_SEGMENT_def)
qed


section \<open>Slash pairs\<close>

lemma stable_no_double_slash:
  assumes "is_normalization_stable p" and "prefix ''/'' p"
  shows "\<not> suffix ''//'' p"
proof
  assume "suffix ''//'' p"
  then obtain z where z: "p = z @ ''//''" by (auto simp: suffix_def)
  show False
  proof (cases z)
    case Nil
    then show False using assms(1) z by (simp add: is_normalization_stable_def)
  next
    case (Cons a y)
    then have d: "drop 1 p = y @ CHR ''/'' # ''/''" using z by simp
    then have "split_on (CHR ''/'') (drop 1 p) = split_on (CHR ''/'') y @ [[], []]"
      by (simp add: split_on_append_delim)
    then show False
      using assms(1) d by (auto simp: is_normalization_stable_def Let_def butlast_append split: if_splits)
  qed
qed

lemma slash_counterpart_involution:
  assumes "in_space sp u" and "wf_space sp" and "is_normalization_stable (r_path u)"
    and "slash_counterpart u = Some v"
  shows "slash_counterpart v = Some u \<and> in_space sp v \<and> r_path v \<noteq> r_path u"
proof -
  have base: "url_base u @ r_path u = r_iri u"
    using assms by (simp add: in_space_wf_url url_base_append)
  have sl: "prefix ''/'' (r_path u)" using assms(1) by (simp add: in_space_def)
  show ?thesis
  proof (cases "strip_suffix ''/'' (r_path u)")
    case None
    then have v: "v = \<lparr>r_path = r_path u @ ''/'', r_iri = url_base u @ r_path u @ ''/''\<rparr>"
      using assms(4) by (simp add: slash_counterpart_def)
    have vb: "url_base v = url_base u" using v by (simp add: url_base_def)
    have pos: "r_path u \<noteq> []" using sl by auto
    then obtain c cs where c: "r_path u = c # cs" by (cases "r_path u") auto
    have "slash_counterpart v = Some \<lparr>r_path = r_path u, r_iri = url_base u @ r_path u\<rparr>"
    proof -
      have "r_path v = r_path u @ ''/''" using v by simp
      then have "strip_suffix ''/'' (r_path v) = Some (c # cs)" using c by (simp add: str_simps)
      with c vb show ?thesis by (simp add: slash_counterpart_def)
    qed
    moreover have "prefix ''/'' (r_path u @ ''/'')" using sl by (auto simp: prefix_def)
    ultimately show ?thesis using base v in_space_mint [OF assms(1,2)] by simp
  next
    case (Some w)
    then have ru: "r_path u = w @ ''/''" by (simp add: str_simps)
    then have w: "w \<noteq> []" "v = \<lparr>r_path = w, r_iri = url_base u @ w\<rparr>"
      using assms(4) by (auto simp: slash_counterpart_def split: list.splits)
    have vb: "url_base v = url_base u" using w by (simp add: url_base_def)
    have "\<not> suffix ''/'' w"
      using stable_no_double_slash [OF assms(3) sl] ru by (auto simp: suffix_def)
    then have "slash_counterpart v = Some \<lparr>r_path = w @ ''/'', r_iri = url_base u @ w @ ''/''\<rparr>"
      using w(2) vb by (simp add: slash_counterpart_def strip_suffix_None [THEN iffD2])
    moreover have "prefix ''/'' w" using sl ru w(1) by (cases w) auto
    ultimately show ?thesis using base ru w in_space_mint [OF assms(1,2), of w] by simp
  qed
qed


lemma stable_hash: "is_normalization_stable p \<Longrightarrow> CHR ''#'' \<notin> set p"
  by (auto simp: is_normalization_stable_def split: if_splits)

lemma stable_Cons:
  "is_normalization_stable (CHR ''/'' # r) \<longleftrightarrow> CHR ''#'' \<notin> set r \<and>
     (let segs = split_on (CHR ''/'') r in
        list_all (\<lambda>seg. seg \<noteq> [] \<and> \<not> is_dot_segment seg) (butlast segs)
        \<and> \<not> is_dot_segment (last segs))"
  by (auto simp: is_normalization_stable_def Let_def is_dot_segment_def)

lemma stable_slash_pair:
  assumes "r \<noteq> []" "last r \<noteq> CHR ''/''"
  shows "is_normalization_stable (CHR ''/'' # r @ ''/'') \<longleftrightarrow> is_normalization_stable (CHR ''/'' # r)"
proof -
  have sp: "split_on (CHR ''/'') (r @ ''/'') = split_on (CHR ''/'') r @ [[]]"
    by (simp add: split_on_append_delim)
  have ne: "last (split_on (CHR ''/'') r) \<noteq> []"
    using assms
  proof (induction r)
    case (Cons x xs)
    obtain y ys where y: "split_on (CHR ''/'') xs = y # ys" by (meson neq_Nil_conv split_on_not_Nil)
    with Cons show ?case by (cases "xs = []") (auto split: if_splits)
  qed simp
  have "list_all P (xs :: string list) \<longleftrightarrow> list_all P (butlast xs) \<and> P (last xs)" if "xs \<noteq> []" for P xs
    using that by (cases xs rule: rev_cases) auto
  then show ?thesis
    using ne by (auto simp: stable_Cons sp Let_def is_dot_segment_def)
qed

text \<open>Appending text to the last segment, as an auxiliary URL does.\<close>

lemma split_on_append_seg:
  assumes "CHR ''/'' \<notin> set t"
  shows "split_on (CHR ''/'') (r @ t) = butlast (split_on (CHR ''/'') r) @ [last (split_on (CHR ''/'') r) @ t]"
proof (induction r)
  case Nil
  with assms show ?case by (simp add: split_on_single)
next
  case (Cons x xs)
  obtain y ys where y: "split_on (CHR ''/'') xs = y # ys" by (meson neq_Nil_conv split_on_not_Nil)
  with Cons show ?case by (cases ys) auto
qed

lemma stable_aux:
  assumes "is_normalization_stable (CHR ''/'' # r)"
  shows "is_normalization_stable (''/.aux/'' @ r @ ''.acl'')"
proof -
  have sp: "split_on (CHR ''/'') (''.aux/'' @ r @ ''.acl'') =
    ''.aux'' # butlast (split_on (CHR ''/'') r) @ [last (split_on (CHR ''/'') r) @ ''.acl'']"
    using split_on_append_delim [of "CHR ''/''" "''.aux''" "r @ ''.acl''"]
    by (simp add: split_on_append_seg)
  have "\<not> is_dot_segment (x @ ''.acl'')" for x by (auto simp: is_dot_segment_def append_eq_Cons_conv)
  moreover have "CHR ''#'' \<notin> set r" using stable_hash [OF assms] by simp
  ultimately show ?thesis using assms stable_Cons [of "''.aux/'' @ r @ ''.acl''"] sp
    by (simp add: stable_Cons Let_def is_dot_segment_def)
qed


lemma not_suffix_slash: "\<not> suffix ''/'' (CHR ''/'' # r) \<Longrightarrow> r \<noteq> [] \<and> last r \<noteq> CHR ''/''"
  by (cases r rule: rev_cases) (auto simp: suffix_def)

lemma reserved_slash_pair:
  assumes "prefix ''/'' w" and "\<not> suffix ''/'' w"
  shows "reserved_segment (w @ ''/'') = None \<longleftrightarrow> reserved_segment w = None"
proof -
  have "segment_remainder (w @ ''/'') seg = None \<longleftrightarrow> segment_remainder w seg = None"
    if "CHR ''/'' \<notin> set seg" for seg
  proof -
    have "(\<exists>rest. segment_remainder (w @ ''/'') seg = Some rest) \<longleftrightarrow>
      (\<exists>rest. segment_remainder w seg = Some rest)" (is "?L \<longleftrightarrow> ?R")
    proof
      assume ?L
      then obtain rest where r: "w @ ''/'' = ''/'' @ seg @ rest" "rest = [] \<or> prefix ''/'' rest"
        by (auto simp: segment_remainder_Some)
      from r that assms obtain rest' where rest': "rest = rest' @ ''/''"
        by (cases rest rule: rev_cases) (auto simp: append_eq_append_conv2 Cons_eq_append_conv
            append_eq_Cons_conv split: if_splits)
      then have "w = ''/'' @ seg @ rest'" using r(1) by simp
      moreover have "rest' = [] \<or> prefix ''/'' rest'" using r(2) rest' by (cases rest') auto
      ultimately show ?R by (auto simp: segment_remainder_Some)
    next
      assume ?R
      then show ?L by (auto simp: segment_remainder_Some prefix_def)
    qed
    then show ?thesis by (metis not_Some_eq)
  qed
  then show ?thesis
    by (simp add: reserved_segment_None AUX_SEGMENT_def WELL_KNOWN_SEGMENT_def)
qed

text \<open>Both halves of a pair are ordinary URLs, and exactly one of them ends in a slash.\<close>

lemma slash_counterpart_plain:
  assumes "in_space sp u" and "wf_space sp" and "is_normalization_stable (r_path u)"
    and "reserved_segment (r_path u) = None" and "slash_counterpart u = Some v"
  shows "is_normalization_stable (r_path v) \<and> reserved_segment (r_path v) = None \<and>
    (suffix ''/'' (r_path v) \<longleftrightarrow> \<not> suffix ''/'' (r_path u))"
proof -
  have pre: "prefix ''/'' (r_path u)" "prefix ''/'' (r_path v)"
    using assms(1) slash_counterpart_involution [OF assms(1-3,5)] by (auto simp: in_space_def)
  show ?thesis
  proof (cases "suffix ''/'' (r_path u)")
    case True
    then have p: "r_path u = r_path v @ ''/''"
      using assms(5) by (auto simp: slash_counterpart_def str_simps strip_suffix_None split: option.splits list.splits)
    then have no: "\<not> suffix ''/'' (r_path v)"
      using stable_no_double_slash [OF assms(3) pre(1)] by (auto simp: suffix_def)
    obtain r where r: "r_path v = CHR ''/'' # r" using pre(2) by (auto simp: prefix_def)
    then have "r \<noteq> []" "last r \<noteq> CHR ''/''" using not_suffix_slash [of r] no by auto
    then show ?thesis using stable_slash_pair [of r] assms(3,4) p r reserved_slash_pair [OF pre(2) no] True no by simp
  next
    case False
    then have p: "r_path v = r_path u @ ''/''"
      using assms(5) by (auto simp: slash_counterpart_def str_simps strip_suffix_None split: option.splits list.splits)
    obtain r where r: "r_path u = CHR ''/'' # r" using pre(1) by (auto simp: prefix_def)
    then have "r \<noteq> []" "last r \<noteq> CHR ''/''" using not_suffix_slash [of r] False by auto
    then show ?thesis using stable_slash_pair [of r] assms(3,4) p r reserved_slash_pair [OF pre(1) False] False
      by (simp add: suffix_def)
  qed
qed

section \<open>Properties of the topology\<close>



text \<open>C20: The auxiliary URL derived from any resource or container is read back by
  \<open>resolve\<close> as exactly that auxiliary of exactly that subject: \<open>AuxUrl::subject\<close>
  inverts \<open>ResourceUrl::aux\<close>.\<close>

theorem aux_roundtrip:
  assumes "wf_space sp"
    and "resolve valid_iri sp p = Inr t" and "reserved_segment p = None"
    and "valid_iri (a_iri (url_aux (target_subject t) k))"
  shows "resolve valid_iri sp (target_path (Aux (url_aux (target_subject t) k))) =
    Inr (Aux (url_aux (target_subject t) k))"
  using assms(2)
proof (cases rule: resolve_Inr_cases)
  case (plain u)
  have u: "target_subject t = u" "r_path u = p" using plain by auto
  obtain r where r: "p = CHR ''/'' # r" using plain(1) by (auto simp: prefix_def)
  let ?p = "''/.aux'' @ p @ ''.acl''"
  have path: "target_path (Aux (url_aux u k)) = ?p"
    by (cases k) (simp add: url_aux_def AUX_SEGMENT_def kind_suffix_def u)
  have st: "is_normalization_stable ?p" using stable_aux plain(2) r by simp
  have aux: "segment_remainder ?p AUX_SEGMENT = Some (p @ ''.acl'')"
    using r by (simp add: segment_remainder_Some AUX_SEGMENT_def)
  have wk: "segment_remainder ?p WELL_KNOWN_SEGMENT = None"
    by (simp add: segment_remainder_def WELL_KNOWN_SEGMENT_def)
  have "split_suffix (p @ ''.acl'') = Some (Acl, p)" by (simp add: split_suffix_Acl)
  moreover have "space_resource valid_iri sp p = Inr u"
    using plain by (simp add: space_resource_Inr)
  moreover have "k = Acl" by (cases k) simp
  ultimately show ?thesis
    using st aux wk plain(2,3) assms(4) unfolding u path
    by (simp add: resolve_def str_simps)
next
  case (aux sub k u)
  then have "segment_remainder p AUX_SEGMENT = Some (sub @ kind_suffix k)"
    by (auto simp: segment_remainder_Some prefix_def)
  with assms(3) show ?thesis by (simp add: reserved_segment_None)
qed

theorem aux_roundtrip_witness:
  "resolve (\<lambda>_. True) \<lparr>s_base = ''http://h/''\<rparr> ''/.aux/a/.acl'' =
     Inr (Aux (url_aux \<lparr>r_path = ''/a/'', r_iri = ''http://h/a/''\<rparr> Acl))"
proof -
  have "resolve (\<lambda>_. True) \<lparr>s_base = ''http://h/''\<rparr> ''/a/'' =
     Inr (Container (ContainerUrl \<lparr>r_path = ''/a/'', r_iri = ''http://h/a/''\<rparr>))" by code_simp
  moreover have "reserved_segment ''/a/'' = None" by code_simp
  moreover have "wf_space \<lparr>s_base = ''http://h/''\<rparr>" by (simp add: wf_space_def suffix_def)
  ultimately show ?thesis
    using aux_roundtrip [of "\<lparr>s_base = ''http://h/''\<rparr>" "\<lambda>_. True" "''/a/''" _ Acl]
    by (simp add: url_aux_def AUX_SEGMENT_def kind_suffix_def)
qed


text \<open>C21: Whatever \<open>resolve\<close> accepts, the subject authorization is derived from lies
  outside every reserved segment and is a resource or container that \<open>resolve\<close> itself
  accepts under its own path, with the same IRI. So no auxiliary of an auxiliary and no
  subject under \<^verbatim>\<open>/.well-known\<close> is ever addressable.\<close>

theorem resolve_subject_is_storage:
  assumes "resolve valid_iri sp p = Inr t"
  shows "reserved_segment (r_path (target_subject t)) = None \<and>
    resolve valid_iri sp (r_path (target_subject t)) =
      Inr (case as_container (target_subject t) of
             Some c \<Rightarrow> Container c | None \<Rightarrow> Resource (target_subject t))"
  using assms
proof (cases rule: resolve_Inr_cases)
  case (plain u)
  then have "target_subject t = u" by simp
  with plain assms show ?thesis by (simp add: as_container_def str_simps)
next
  case (aux sub k u)
  then have "target_subject t = u" by (simp add: url_aux_def)
  with aux resolve_plain [of sub valid_iri sp] show ?thesis
    by (simp add: as_container_def str_simps Let_def)
qed

theorem resolve_subject_is_storage_witness:
  "reserved_segment ''/a'' = None \<and>
   resolve (\<lambda>_. True) \<lparr>s_base = ''http://h/''\<rparr> ''/a'' =
     Inr (Resource \<lparr>r_path = ''/a'', r_iri = ''http://h/a''\<rparr>)"
proof -
  have "resolve (\<lambda>_. True) \<lparr>s_base = ''http://h/''\<rparr> ''/.aux/a.acl'' =
     Inr (Aux \<lparr>a_kind = Acl, a_subject = \<lparr>r_path = ''/a'', r_iri = ''http://h/a''\<rparr>,
               a_iri = ''http://h/.aux/a.acl''\<rparr>)" by code_simp
  from resolve_subject_is_storage [OF this] show ?thesis
    by (simp add: as_container_def str_simps suffix_def)
qed

text \<open>The chain \<open>ancestors\<close> of an accepted URL lists exactly the proper prefixes of its path that
  end in a slash, longest first, down to the root, each of which is the container
  \<open>resolve\<close> gives for that prefix. The chain a create materializes and the guard
  authorizes is therefore complete, ordered and free of reserved or unstable URLs.\<close>

theorem ancestors_resolve:
  assumes "wf_space sp" and "resolve valid_iri sp p = Inr t"
    and valid: "\<And>c. c \<in> set (ancestors (target_subject t)) \<Longrightarrow> valid_iri (container_iri c)"
  shows "map container_path (ancestors (target_subject t)) =
           slash_prefixes (r_path (target_subject t)) \<and>
    (\<forall>c \<in> set (ancestors (target_subject t)).
       resolve valid_iri sp (container_path c) = Inr (Container c))"
proof
  let ?u = "target_subject t"
  show paths: "map container_path (ancestors ?u) = slash_prefixes (r_path ?u)"
    by (rule ancestors_paths)
  have u: "in_space sp ?u" "prefix ''/'' (r_path ?u)" "is_normalization_stable (r_path ?u)"
    "reserved_segment (r_path ?u) = None"
    using assms(2) by (cases rule: resolve_Inr_cases; simp add: in_space_def url_aux_def)+
  show "\<forall>c \<in> set (ancestors ?u). resolve valid_iri sp (container_path c) = Inr (Container c)"
  proof
    fix c assume c: "c \<in> set (ancestors ?u)"
    then have q: "container_path c \<in> set (slash_prefixes (r_path ?u))"
      unfolding paths [symmetric] by simp
    have isp: "in_space sp (as_resource c)" by (rule ancestors_in_space [OF u(1) assms(1) c])
    then have eq: "as_resource c = \<lparr>r_path = container_path c, r_iri = s_base sp @ tl (container_path c)\<rparr>"
      unfolding in_space_def container_path_def by simp
    have "valid_iri (s_base sp @ tl (container_path c))"
      using valid [OF c] isp by (simp add: container_iri_def container_path_def in_space_def)
    then have "resolve valid_iri sp (container_path c) = Inr (Container (ContainerUrl (as_resource c)))"
      using slash_prefix_stable [OF q u(2,3)] slash_prefix_not_reserved [OF q u(4)]
      unfolding eq by (simp add: resolve_plain)
    then show "resolve valid_iri sp (container_path c) = Inr (Container c)" by simp
  qed
qed

theorem ancestors_resolve_witness:
  "map container_path (ancestors \<lparr>r_path = ''/a/b'', r_iri = ''http://h/a/b''\<rparr>) = [''/a/'', ''/'']"
proof -
  have "resolve (\<lambda>_. True) \<lparr>s_base = ''http://h/''\<rparr> ''/a/b'' =
     Inr (Resource \<lparr>r_path = ''/a/b'', r_iri = ''http://h/a/b''\<rparr>)" by code_simp
  moreover have "wf_space \<lparr>s_base = ''http://h/''\<rparr>" by (simp add: wf_space_def suffix_def)
  moreover have "slash_prefixes ''/a/b'' = [''/a/'', ''/'']" by code_simp
  ultimately show ?thesis
    using ancestors_resolve [of "\<lparr>s_base = ''http://h/''\<rparr>" "\<lambda>_. True" "''/a/b''"
      "Resource \<lparr>r_path = ''/a/b'', r_iri = ''http://h/a/b''\<rparr>"] by simp
qed

text \<open>The two halves of a trailing-slash pair find each other: for every accepted
  resource or container but the root, \<open>slash_counterpart\<close> is the other accepted URL of
  the pair, of the other kind, and the counterpart's counterpart is the URL itself.\<close>

theorem slash_pair:
  assumes "wf_space sp" and "resolve valid_iri sp p = Inr t" and "reserved_segment p = None"
    and "slash_counterpart (target_subject t) = Some v" and "valid_iri (r_iri v)"
  shows "slash_counterpart v = Some (target_subject t) \<and>
    resolve valid_iri sp (r_path v) =
      Inr (case t of Resource _ \<Rightarrow> Container (ContainerUrl v) | _ \<Rightarrow> Resource v)"
  using assms(2)
proof (cases rule: resolve_Inr_cases)
  case (aux sub k u)
  then have "segment_remainder p AUX_SEGMENT = Some (sub @ kind_suffix k)"
    by (auto simp: segment_remainder_Some prefix_def)
  with assms(3) show ?thesis by (simp add: reserved_segment_None)
next
  case (plain u)
  have u: "target_subject t = u" "r_path u = p" "in_space sp u"
    using plain by (auto simp: in_space_def)
  have inv: "slash_counterpart v = Some u" "in_space sp v"
    using slash_counterpart_involution [OF u(3) assms(1)] plain(2) assms(4) u by auto
  then have v: "v = \<lparr>r_path = r_path v, r_iri = s_base sp @ tl (r_path v)\<rparr>" "prefix ''/'' (r_path v)"
    by (auto simp: in_space_def)
  have pv: "is_normalization_stable (r_path v)" "reserved_segment (r_path v) = None"
    and half: "suffix ''/'' (r_path v) \<longleftrightarrow> \<not> suffix ''/'' p"
    using slash_counterpart_plain [OF u(3) assms(1)] plain(2,3) assms(4) u by auto
  have "resolve valid_iri sp (r_path v) =
    Inr (if suffix ''/'' (r_path v) then Container (ContainerUrl v) else Resource v)"
    using resolve_plain [OF v(2), of valid_iri sp] pv assms(5) v(1) by (metis resource_url.select_convs(2))
  with half show ?thesis using inv u plain(6) by simp
qed

theorem slash_pair_witness:
  "resolve (\<lambda>_. True) \<lparr>s_base = ''http://h/''\<rparr> ''/a/'' =
     Inr (Container (ContainerUrl \<lparr>r_path = ''/a/'', r_iri = ''http://h/a/''\<rparr>))"
proof -
  have "resolve (\<lambda>_. True) \<lparr>s_base = ''http://h/''\<rparr> ''/a'' =
     Inr (Resource \<lparr>r_path = ''/a'', r_iri = ''http://h/a''\<rparr>)" by code_simp
  moreover have "slash_counterpart \<lparr>r_path = ''/a'', r_iri = ''http://h/a''\<rparr> =
     Some \<lparr>r_path = ''/a/'', r_iri = ''http://h/a/''\<rparr>" by code_simp
  moreover have "reserved_segment ''/a'' = None" by code_simp
  moreover have "wf_space \<lparr>s_base = ''http://h/''\<rparr>" by (simp add: wf_space_def suffix_def)
  ultimately show ?thesis
    using slash_pair [of "\<lparr>s_base = ''http://h/''\<rparr>" "\<lambda>_. True" "''/a''"
      "Resource \<lparr>r_path = ''/a'', r_iri = ''http://h/a''\<rparr>"
      "\<lparr>r_path = ''/a/'', r_iri = ''http://h/a/''\<rparr>"] by simp
qed

text \<open>The two panics of \<open>StorageSpace::root\<close> never fire.\<close>

lemma resolve_root:
  assumes "new_space valid_iri base = Inr sp"
  shows "resolve valid_iri sp ''/'' = Inr (Container (space_root sp))"
proof -
  have "valid_iri (s_base sp)" using wf_space_new [OF assms] by auto
  moreover have "is_normalization_stable ''/''" "reserved_segment ''/'' = None" by code_simp+
  ultimately show ?thesis
    using resolve_plain [of "''/''" valid_iri sp] by (simp add: space_root_def)
qed

end
