(* ===== verification/Rdf.thy ===== *)
theory Rdf
  imports Prelude
begin

text \<open>
  The RDF 1.2 data model of oxigraph's \<open>oxrdf\<close> crate, as far as the sources use it:
  terms, triples, quads and graph names. IRIs and blank-node labels are strings; a
  triple term nests a whole triple in object position.
\<close>

type_synonym iri = string

datatype base_direction = Ltr | Rtl

record literal =
  l_value :: string
  l_datatype :: iri
  l_language :: "string option"
  l_direction :: "base_direction option"

datatype node = NamedNode iri | BlankNode string

datatype rdf_term =
    TermNamed iri
  | TermBlank string
  | TermLiteral literal
  | TermTriple node iri rdf_term

record triple =
  t_subject :: node
  t_predicate :: iri
  t_object :: rdf_term

datatype graph_name = DefaultGraph | GraphNamed iri | GraphBlank string

record quad =
  q_subject :: node
  q_predicate :: iri
  q_object :: rdf_term
  q_graph :: graph_name

definition mk_triple :: "node \<Rightarrow> iri \<Rightarrow> rdf_term \<Rightarrow> triple" where
  "mk_triple s p o' = \<lparr>t_subject = s, t_predicate = p, t_object = o'\<rparr>"

lemma mk_triple_sel [simp]:
  "t_subject (mk_triple s p x) = s" "t_predicate (mk_triple s p x) = p" "t_object (mk_triple s p x) = x"
  by (simp_all add: mk_triple_def)

lemma mk_triple_collapse [simp]: "mk_triple (t_subject t) (t_predicate t) (t_object t) = (t :: triple)"
  by (simp add: mk_triple_def)

definition RDF_TYPE :: iri where
  "RDF_TYPE = ''http://www.w3.org/1999/02/22-rdf-syntax-ns#type''"

definition RDF_LANG_STRING :: iri where
  "RDF_LANG_STRING = ''http://www.w3.org/1999/02/22-rdf-syntax-ns#langString''"

definition XSD_STRING :: iri where
  "XSD_STRING = ''http://www.w3.org/2001/XMLSchema#string''"

text \<open>\<open>Literal::new_simple_literal\<close> and \<open>Literal::new_language_tagged_literal\<close>.\<close>

definition simple_literal :: "string \<Rightarrow> literal" where
  "simple_literal v = \<lparr>l_value = v, l_datatype = XSD_STRING, l_language = None, l_direction = None\<rparr>"

definition language_literal :: "string \<Rightarrow> string \<Rightarrow> literal" where
  "language_literal v lang =
     \<lparr>l_value = v, l_datatype = RDF_LANG_STRING, l_language = Some lang, l_direction = None\<rparr>"

end
