(* ===== verification/Media.thy ===== *)
theory Media
  imports Prelude Complex_Main
begin

text \<open>
  Media types, RDF versions and content negotiation of \<^verbatim>\<open>src/rdf.rs\<close>.

  Quality values are \<open>f32\<close> in the source. HOL has no IEEE arithmetic here and the code
  only parses, compares with zero and orders them, so a parsed value is a rational or
  not-a-number, and the text-to-float parser is the parameter \<open>parse_f32\<close>. The
  \<open>HeaderValue::from_str\<close> of the \<open>http\<close> crate is the parameter \<open>header_ok\<close>.
\<close>

section \<open>RDF versions\<close>

datatype rdf_version = Rdf11 | Rdf12Basic | Rdf12

fun version_rank :: "rdf_version \<Rightarrow> nat" where
  "version_rank Rdf11 = 0"
| "version_rank Rdf12Basic = 1"
| "version_rank Rdf12 = 2"

lemma version_rank_inject [simp]: "version_rank a = version_rank b \<longleftrightarrow> a = b"
  by (cases a; cases b) auto

text \<open>\<open>#[derive(PartialOrd, Ord)]\<close>: the order of the variants.\<close>

instantiation rdf_version :: linorder
begin

definition less_eq_rdf_version :: "rdf_version \<Rightarrow> rdf_version \<Rightarrow> bool" where
  "less_eq_rdf_version a b \<longleftrightarrow> version_rank a \<le> version_rank b"

definition less_rdf_version :: "rdf_version \<Rightarrow> rdf_version \<Rightarrow> bool" where
  "less_rdf_version a b \<longleftrightarrow> version_rank a < version_rank b"

instance
  by standard (auto simp: less_eq_rdf_version_def less_rdf_version_def)

end

fun version_label :: "rdf_version \<Rightarrow> string" where
  "version_label Rdf11 = ''1.1''"
| "version_label Rdf12Basic = ''1.2-basic''"
| "version_label Rdf12 = ''1.2''"

definition version_of_label :: "string \<Rightarrow> rdf_version option" where
  "version_of_label v =
     (if v = ''1.1'' then Some Rdf11
      else if v = ''1.2-basic'' then Some Rdf12Basic
      else if v = ''1.2'' then Some Rdf12
      else None)"

text \<open>The loop over the parameters: \<open>None\<close> is the early return.\<close>

fun version_params :: "string list \<Rightarrow> rdf_version option \<Rightarrow> rdf_version option option" where
  "version_params [] found = Some found"
| "version_params (p # ps) found =
     (case split_once (CHR ''='') (trim p) of
        None \<Rightarrow> None
      | Some (name, v) \<Rightarrow>
          if \<not> eq_ignore_ascii_case (trim name) ''version'' then version_params ps found
          else case version_of_label (trim v) of
            None \<Rightarrow> None
          | Some ver \<Rightarrow> version_params ps (Some ver))"

definition from_media_type :: "string \<Rightarrow> rdf_version option" where
  "from_media_type mt =
     map_option (\<lambda>found. case found of None \<Rightarrow> Rdf11 | Some v \<Rightarrow> v)
       (version_params (drop 1 (split_on (CHR '';'') mt)) None)"

section \<open>Media types\<close>

definition media_type :: "string \<Rightarrow> string" where
  "media_type ct = trim (case split_on (CHR '';'') ct of [] \<Rightarrow> [] | x # _ \<Rightarrow> x)"

definition TCHAR_PUNCTUATION :: string where
  "TCHAR_PUNCTUATION = map char_of [33::nat, 35, 36, 37, 38, 39, 42, 43, 45, 46, 94, 95, 96, 124, 126]"

definition is_tchar :: "char \<Rightarrow> bool" where
  "is_tchar b \<longleftrightarrow> is_ascii_alphanumeric b \<or> b \<in> set TCHAR_PUNCTUATION"

definition is_token :: "string \<Rightarrow> bool" where
  "is_token t \<longleftrightarrow> t \<noteq> [] \<and> list_all is_tchar t"

definition is_media_type_byte :: "char \<Rightarrow> bool" where
  "is_media_type_byte b \<longleftrightarrow> is_tchar b \<or> b \<in> set ''/;= ''"

record media_type_rec =
  mt_raw :: string

fun params_ok :: "string list \<Rightarrow> bool" where
  "params_ok [] = True"
| "params_ok (p # ps) =
     (case split_once (CHR ''='') (trim p) of
        None \<Rightarrow> False
      | Some (name, v) \<Rightarrow> if \<not> is_token name \<or> \<not> is_token v then False else params_ok ps)"

definition media_type_parse :: "(string \<Rightarrow> bool) \<Rightarrow> string \<Rightarrow> media_type_rec option" where
  "media_type_parse header_ok s0 =
     (let s = trim s0 in
      if \<not> list_all is_media_type_byte s then None
      else case split_on (CHR '';'') s of
        [] \<Rightarrow> None
      | first # parts \<Rightarrow>
          (case split_once (CHR ''/'') (trim first) of
             None \<Rightarrow> None
           | Some (ty, sub) \<Rightarrow>
               if \<not> is_token ty \<or> \<not> is_token sub then None
               else if \<not> params_ok parts then None
               else if header_ok s then Some \<lparr>mt_raw = s\<rparr> else None))"

definition essence :: "media_type_rec \<Rightarrow> string" where
  "essence mt = to_ascii_lowercase (media_type (mt_raw mt))"

section \<open>Formats\<close>

datatype format = Turtle | NTriples | JsonLd | TriG | NQuads

datatype shape = Graph | Dataset_shape

definition format_all :: "format list" where
  "format_all = [Turtle, NTriples, JsonLd, TriG, NQuads]"

fun format_media_type :: "format \<Rightarrow> string" where
  "format_media_type Turtle = ''text/turtle''"
| "format_media_type NTriples = ''application/n-triples''"
| "format_media_type JsonLd = ''application/ld+json''"
| "format_media_type TriG = ''application/trig''"
| "format_media_type NQuads = ''application/n-quads''"

definition from_content_type :: "string \<Rightarrow> format option" where
  "from_content_type ct =
     (let mt = to_ascii_lowercase (media_type ct)
      in find (\<lambda>f. format_media_type f = mt) format_all)"

fun carries_dataset :: "format \<Rightarrow> bool" where
  "carries_dataset Turtle = False"
| "carries_dataset NTriples = False"
| "carries_dataset JsonLd = True"
| "carries_dataset TriG = True"
| "carries_dataset NQuads = True"

section \<open>Negotiation\<close>

datatype f32 = NaN | Num rat

fun f32_gt :: "f32 \<Rightarrow> f32 \<Rightarrow> bool" where
  "f32_gt (Num a) (Num b) = (a > b)"
| "f32_gt _ _ = False"

fun f32_eq :: "f32 \<Rightarrow> f32 \<Rightarrow> bool" where
  "f32_eq (Num a) (Num b) = (a = b)"
| "f32_eq _ _ = False"

type_synonym ranked = "f32 \<times> nat \<times> string \<times> string"

text \<open>The comparator of \<open>sort_by\<close>: higher quality first, then the earlier position. An
  incomparable pair (a not-a-number) falls through to the position.\<close>

definition rank_before :: "ranked \<Rightarrow> ranked \<Rightarrow> bool" where
  "rank_before a b =
     (if f32_gt (fst a) (fst b) then True
      else if f32_gt (fst b) (fst a) then False
      else fst (snd a) \<le> fst (snd b))"

fun rank_insert :: "ranked \<Rightarrow> ranked list \<Rightarrow> ranked list" where
  "rank_insert x [] = [x]"
| "rank_insert x (y # ys) = (if rank_before x y then x # y # ys else y # rank_insert x ys)"

definition rank_sort :: "ranked list \<Rightarrow> ranked list" where
  "rank_sort xs = foldr rank_insert xs []"

fun first_q :: "(string \<Rightarrow> f32 option) \<Rightarrow> string list \<Rightarrow> f32" where
  "first_q parse_f32 [] = Num 1"
| "first_q parse_f32 (p # ps) =
     (case Option.bind (strip_prefix ''q='' (trim p)) parse_f32 of
        Some q \<Rightarrow> q
      | None \<Rightarrow> first_q parse_f32 ps)"

definition rank_entry :: "(string \<Rightarrow> f32 option) \<Rightarrow> nat \<Rightarrow> string \<Rightarrow> ranked" where
  "rank_entry parse_f32 i part =
     (let bits = split_on (CHR '';'') part
      in (first_q parse_f32 (tl bits), i, trim (hd bits), trim part))"

definition ranked_accept :: "(string \<Rightarrow> f32 option) \<Rightarrow> string \<Rightarrow> ranked list" where
  "ranked_accept parse_f32 accept =
     rank_sort (map (\<lambda>(i, part). rank_entry parse_f32 i part)
       (enumerate 0 (split_on (CHR '','') accept)))"

fun best_range :: "string \<Rightarrow> string \<Rightarrow> ranked list \<Rightarrow> (nat \<times> f32) option \<Rightarrow> (nat \<times> f32) option" where
  "best_range ess wild [] best = best"
| "best_range ess wild ((q, i, range0, w) # rest) best =
     (let range = to_ascii_lowercase range0;
          spec = (if range = ess then Some 3
                  else if range = wild then Some 2
                  else if range = ''*/*'' then Some (1::nat)
                  else None)
      in case spec of
           None \<Rightarrow> best_range ess wild rest best
         | Some s \<Rightarrow> best_range ess wild rest
             (case best of
                None \<Rightarrow> Some (s, q)
              | Some (s0, q0) \<Rightarrow> if s > s0 then Some (s, q) else best))"

definition accept_allows :: "(string \<Rightarrow> f32 option) \<Rightarrow> string \<Rightarrow> media_type_rec \<Rightarrow> bool" where
  "accept_allows parse_f32 accept0 mt =
     (let accept = trim accept0 in
      if accept = [] then True
      else let ess = essence mt;
               ty = hd (split_on (CHR ''/'') ess)
           in case best_range ess (ty @ ''/*'') (ranked_accept parse_f32 accept) None of
                Some (_, q) \<Rightarrow> f32_gt q (Num 0)
              | None \<Rightarrow> False)"

definition usable :: "shape \<Rightarrow> format \<Rightarrow> bool" where
  "usable sh f \<longleftrightarrow> sh = Graph \<or> carries_dataset f"

definition filter_opt :: "('a \<Rightarrow> bool) \<Rightarrow> 'a option \<Rightarrow> 'a option" where
  "filter_opt P x = (case x of Some v \<Rightarrow> if P v then Some v else None | None \<Rightarrow> None)"

definition or_else :: "'a option \<Rightarrow> 'a option \<Rightarrow> 'a option" where
  "or_else x y = (case x of Some v \<Rightarrow> Some v | None \<Rightarrow> y)"

definition fallback_formats :: "format list" where
  "fallback_formats = List.map_filter from_content_type [''text/turtle'', ''application/ld+json'']"

definition rejected_types :: "ranked list \<Rightarrow> string list" where
  "rejected_types ranked =
     map (\<lambda>(q, i, mt, w). to_ascii_lowercase mt)
       (filter (\<lambda>(q, i, mt, w). f32_eq q (Num 0) \<and> \<not> ends_with ''/*'' mt) ranked)"

text \<open>One pass over the ranked ranges: \<open>ok\<close> filters what a wildcard may resolve to and
  \<open>ok_named\<close> what a named type may; the source runs it twice with different filters.\<close>

fun negotiate_pass ::
  "(format \<Rightarrow> bool) \<Rightarrow> (format \<Rightarrow> bool) \<Rightarrow> format option \<Rightarrow> ranked list \<Rightarrow> (format \<times> rdf_version) option" where
  "negotiate_pass ok ok_named stored [] = None"
| "negotiate_pass ok ok_named stored ((q, i, mt, whole) # rest) =
     (if f32_eq q (Num 0) then negotiate_pass ok ok_named stored rest
      else case from_media_type whole of
        None \<Rightarrow> negotiate_pass ok ok_named stored rest
      | Some version \<Rightarrow>
          (let low = to_ascii_lowercase mt;
               fb = find ok fallback_formats;
               candidate =
                 (if low = ''*/*'' then or_else (filter_opt ok stored) fb
                  else if low = ''text/*'' then filter_opt ok (from_content_type ''text/turtle'')
                  else if low = ''application/*'' then fb
                  else filter_opt ok_named (from_content_type low))
           in case candidate of
                Some f \<Rightarrow> Some (f, version)
              | None \<Rightarrow> negotiate_pass ok ok_named stored rest))"

definition negotiate ::
  "(string \<Rightarrow> f32 option) \<Rightarrow> string \<Rightarrow> shape \<Rightarrow> format option \<Rightarrow> (format \<times> rdf_version) option" where
  "negotiate parse_f32 accept0 sh stored =
     (let accept = trim accept0 in
      if accept = [] then
        map_option (\<lambda>f. (f, Rdf11))
          (or_else (filter_opt (usable sh) stored) (find (usable sh) fallback_formats))
      else
        let ranked = ranked_accept parse_f32 accept;
            rejected = rejected_types ranked;
            not_rejected = (\<lambda>f. format_media_type f \<notin> set rejected)
        in or_else
             (negotiate_pass (\<lambda>f. usable sh f \<and> not_rejected f) (usable sh) stored ranked)
             (negotiate_pass not_rejected not_rejected stored ranked))"


section \<open>Lemmas\<close>

lemma version_of_label_label [simp]: "version_of_label (version_label v) = Some v"
  by (cases v) (simp_all add: version_of_label_def)

lemma trim_version_label [simp]: "trim (version_label v) = version_label v"
  by (cases v) (simp_all add: trim_def is_ascii_space_def)

lemma filter_opt_Some: "filter_opt P x = Some v \<longleftrightarrow> x = Some v \<and> P v"
  by (auto simp: filter_opt_def split: option.splits)

lemma or_else_Some: "or_else x y = Some v \<longleftrightarrow> x = Some v \<or> x = None \<and> y = Some v"
  by (auto simp: or_else_def split: option.splits)

lemma or_else_None: "or_else x y = None \<longleftrightarrow> x = None \<and> y = None"
  by (auto simp: or_else_def split: option.splits)

lemma find_Some_P: "find P xs = Some x \<Longrightarrow> x \<in> set xs \<and> P x"
  by (induction xs) (auto split: if_splits)

lemma fallback_formats_eq [simp]: "fallback_formats = [Turtle, JsonLd]"
  by code_simp

lemma from_content_type_turtle [simp]: "from_content_type ''text/turtle'' = Some Turtle"
  by code_simp

lemma rank_insert_set [simp]: "set (rank_insert x xs) = insert x (set xs)"
  by (induction xs) auto

lemma rank_sort_set [simp]: "set (rank_sort xs) = set xs"
  by (induction xs) (auto simp: rank_sort_def)

text \<open>A range the candidate search takes: what each form of media range may yield.\<close>

definition range_yields :: "format option \<Rightarrow> string \<Rightarrow> format \<Rightarrow> bool" where
  "range_yields stored low f \<longleftrightarrow>
     low = ''*/*'' \<and> (stored = Some f \<or> f \<in> set fallback_formats)
     \<or> low = ''text/*'' \<and> f = Turtle
     \<or> low = ''application/*'' \<and> f \<in> set fallback_formats
     \<or> from_content_type low = Some f"

lemma negotiate_pass_Some:
  assumes "negotiate_pass ok ok_named stored rs = Some (f, v)"
  shows "\<exists>(q, i, mt, whole) \<in> set rs. \<not> f32_eq q (Num 0) \<and> from_media_type whole = Some v
    \<and> range_yields stored (to_ascii_lowercase mt) f \<and> (ok f \<or> ok_named f)"
  using assms
proof (induction rs)
  case (Cons r rs)
  obtain q i mt whole where r: "r = (q, i, mt, whole)" by (cases r)
  show ?case
  proof (cases "f32_eq q (Num 0) \<or> from_media_type whole = None")
    case True
    then have "negotiate_pass ok ok_named stored rs = Some (f, v)"
      using Cons.prems r by (auto split: if_splits)
    from Cons.IH [OF this] show ?thesis by auto
  next
    case False
    then obtain ver where ver: "from_media_type whole = Some ver" by blast
    let ?low = "to_ascii_lowercase mt"
    let ?c = "if ?low = ''*/*'' then or_else (filter_opt ok stored) (find ok fallback_formats)
      else if ?low = ''text/*'' then filter_opt ok (from_content_type ''text/turtle'')
      else if ?low = ''application/*'' then find ok fallback_formats
      else filter_opt ok_named (from_content_type ?low)"
    have step: "negotiate_pass ok ok_named stored (r # rs) =
        (case ?c of Some g \<Rightarrow> Some (g, ver) | None \<Rightarrow> negotiate_pass ok ok_named stored rs)"
      using False ver r by (simp add: Let_def)
    show ?thesis
    proof (cases ?c)
      case None
      then have "negotiate_pass ok ok_named stored rs = Some (f, v)" using Cons.prems step by simp
      from Cons.IH [OF this] show ?thesis by auto
    next
      case (Some g)
      then have g: "g = f" "ver = v" using Cons.prems step by simp_all
      have "range_yields stored ?low f \<and> (ok f \<or> ok_named f)"
        using Some g(1) unfolding range_yields_def
        by (auto simp: filter_opt_Some or_else_Some simp del: fallback_formats_eq
            dest!: find_Some_P split: if_splits)
      then show ?thesis using False ver g r by auto
    qed
  qed
qed simp

text \<open>A pass gives up only if no acceptable range names a format it admits.\<close>

lemma negotiate_pass_None:
  assumes "negotiate_pass ok ok_named stored rs = None" and "(q, i, mt, whole) \<in> set rs"
    and "\<not> f32_eq q (Num 0)" and "from_media_type whole = Some v"
    and "from_content_type (to_ascii_lowercase mt) = Some f"
  shows "\<not> ok_named f"
  using assms(1,2)
proof (induction rs)
  case (Cons r rs)
  have wild: "to_ascii_lowercase mt \<noteq> ''*/*''" "to_ascii_lowercase mt \<noteq> ''text/*''"
    "to_ascii_lowercase mt \<noteq> ''application/*''"
  proof -
    have "from_content_type ''*/*'' = None" "from_content_type ''text/*'' = None"
      "from_content_type ''application/*'' = None" by code_simp+
    then show "to_ascii_lowercase mt \<noteq> ''*/*''" "to_ascii_lowercase mt \<noteq> ''text/*''"
      "to_ascii_lowercase mt \<noteq> ''application/*''" using assms(5) by auto
  qed
  have rest: "negotiate_pass ok ok_named stored rs = None"
    using Cons.prems(1) by (cases r) (auto simp: Let_def split: if_splits option.splits)
  show ?case
  proof (cases "r = (q, i, mt, whole)")
    case True
    with Cons.prems(1) assms(3-5) wild show ?thesis
      by (auto simp: Let_def filter_opt_def split: if_splits)
  next
    case False
    with Cons.prems(2) rest Cons.IH show ?thesis by simp
  qed
qed simp


section \<open>Properties\<close>

text \<open>C22: A stored media type can never leave the SPARQL literal or the header line it is
  interpolated into: every byte \<open>MediaType::parse\<close> lets through is a token character or one
  of slash, semicolon, equals and space, so no quote, backslash, angle bracket, control
  byte or non-ASCII byte survives.\<close>

theorem media_type_alphabet:
  assumes "media_type_parse header_ok s = Some mt"
  shows "list_all is_media_type_byte (mt_raw mt) \<and>
    (\<forall>n \<in> {10, 13, 34, 60, 62, 92} \<union> {128..<256}. char_of (n::nat) \<notin> set (mt_raw mt))"
proof -
  have raw: "list_all is_media_type_byte (mt_raw mt)"
    using assms by (auto simp: media_type_parse_def Let_def split: if_splits list.splits option.splits)
  have "\<not> is_media_type_byte (char_of (n::nat))" if "n \<in> {10, 13, 34, 60, 62, 92} \<union> {128..<256}" for n
  proof -
    have n: "n < 256" using that by auto
    have code: "of_char (char_of n :: char) = n" using n by simp
    have "char_of n \<notin> set TCHAR_PUNCTUATION"
    proof
      assume "char_of n \<in> set TCHAR_PUNCTUATION"
      then have "of_char (char_of n :: char) \<in> (of_char :: char \<Rightarrow> nat) ` set TCHAR_PUNCTUATION" by (rule imageI)
      then show False using that unfolding code TCHAR_PUNCTUATION_def by auto
    qed
    moreover have "char_of n \<notin> set ''/;= ''"
    proof
      assume "char_of n \<in> set ''/;= ''"
      then have "of_char (char_of n :: char) \<in> (of_char :: char \<Rightarrow> nat) ` set ''/;= ''" by (rule imageI)
      then show False using that unfolding code by auto
    qed
    moreover have "\<not> is_ascii_alphanumeric (char_of n)"
      using that unfolding is_ascii_alphanumeric_def code by auto
    ultimately show ?thesis by (simp add: is_media_type_byte_def is_tchar_def)
  qed
  with raw show ?thesis by (meson list_all_iff)
qed

theorem media_type_alphabet_witness:
  "list_all is_media_type_byte ''image/png; q=x''"
proof -
  have "media_type_parse (\<lambda>_. True) '' image/png; q=x'' = Some \<lparr>mt_raw = ''image/png; q=x''\<rparr>"
    by code_simp
  from media_type_alphabet [OF this] show ?thesis by simp
qed

text \<open>The \<open>version\<close> media-type parameter is read back as the label that was written, and
  a media type without parameters is RDF 1.1.\<close>

theorem version_parameter_roundtrip:
  assumes "CHR '';'' \<notin> set mt"
  shows "from_media_type (mt @ '';version='' @ version_label v) = Some v
    \<and> from_media_type mt = Some Rdf11"
proof
  have "split_on (CHR '';'') (''version='' @ version_label v) = [''version='' @ version_label v]"
    by (cases v) (simp_all add: split_on_single)
  then have "split_on (CHR '';'') (mt @ '';version='' @ version_label v) = [mt, ''version='' @ version_label v]"
    using split_on_append_delim [of "CHR '';''" mt "''version='' @ version_label v"]
    by (simp add: split_on_single [OF assms])
  moreover have "version_params [''version='' @ version_label v] None = Some (Some v)"
    by (cases v) (simp_all, code_simp+)
  ultimately show "from_media_type (mt @ '';version='' @ version_label v) = Some v"
    by (simp add: from_media_type_def)
  show "from_media_type mt = Some Rdf11"
    by (simp add: from_media_type_def split_on_single [OF assms])
qed

theorem version_parameter_roundtrip_witness:
  "from_media_type ''text/turtle;version=1.2-basic'' = Some Rdf12Basic"
  using version_parameter_roundtrip [of "''text/turtle''" Rdf12Basic] by simp



text \<open>An \<open>application/*\<close> range is answered with Turtle for a graph-shaped resource, a media
  type the range does not admit.\<close>

lemma negotiate_application_wildcard:
  "negotiate (\<lambda>_. None) ''application/*'' Graph None = Some (Turtle, Rdf11)"
  by code_simp

end
