(* ===== verification/Datasets.thy ===== *)
theory Datasets
  imports Rdf Media "HOL-Library.Char_ord" "HOL-Library.List_Lexorder" "HOL-Library.Multiset"
begin

text \<open>
  Datasets and blank nodes, \<^verbatim>\<open>src/dataset.rs\<close>: client datasets, their stored skolemized
  form, the conversions between the two, RDF version classification and projection, and
  the entity tag.

  Code outside the repository is a parameter: \<open>mint n\<close> is the \<open>n\<close>-th UUID
  (\<open>Uuid::new_v4\<close>), \<open>valid_blank\<close> is what \<open>BlankNode::new\<close> accepts, \<open>show_quad\<close> is the
  N-Quads \<open>Display\<close> of oxigraph, and \<open>sha256_hex\<close> is the hex digest.
\<close>

section \<open>Types\<close>

type_synonym dataset = "quad list"

datatype ground_term =
    GroundNamed iri
  | GroundLiteral literal
  | GroundTriple iri iri ground_term

datatype ground_graph = GroundDefault | GroundGraph iri

record ground_quad =
  g_subject :: iri
  g_predicate :: iri
  g_object :: ground_term
  g_graph :: ground_graph

type_synonym skolemized = "ground_quad list"

definition RESERVED_PREFIX :: string where "RESERVED_PREFIX = ''urn:quadpod:''"

definition is_reserved_iri :: "iri \<Rightarrow> bool" where
  "is_reserved_iri i =
     (length RESERVED_PREFIX \<le> length i
      \<and> eq_ignore_ascii_case (take (length RESERVED_PREFIX) i) RESERVED_PREFIX)"

definition SKOLEM_PREFIX :: string where "SKOLEM_PREFIX = ''urn:quadpod:bnode:''"

text \<open>The widening conversions \<open>From<&GroundTerm> for Term\<close> and \<open>From<&GroundQuad> for Quad\<close>.\<close>

fun term_of_ground :: "ground_term \<Rightarrow> rdf_term" where
  "term_of_ground (GroundNamed n) = TermNamed n"
| "term_of_ground (GroundLiteral l) = TermLiteral l"
| "term_of_ground (GroundTriple s p x) = TermTriple (NamedNode s) p (term_of_ground x)"

fun graph_of_ground :: "ground_graph \<Rightarrow> graph_name" where
  "graph_of_ground GroundDefault = DefaultGraph"
| "graph_of_ground (GroundGraph n) = GraphNamed n"

definition quad_of_ground :: "ground_quad \<Rightarrow> quad" where
  "quad_of_ground q = \<lparr>q_subject = NamedNode (g_subject q), q_predicate = g_predicate q,
     q_object = term_of_ground (g_object q), q_graph = graph_of_ground (g_graph q)\<rparr>"

section \<open>Client datasets\<close>

definition object_version :: "rdf_term \<Rightarrow> rdf_version option" where
  "object_version x =
     (case x of
        TermTriple _ _ _ \<Rightarrow> Some Rdf12
      | TermLiteral l \<Rightarrow> if l_direction l \<noteq> None then Some Rdf12Basic else None
      | _ \<Rightarrow> None)"

fun rdf_version_from :: "rdf_version \<Rightarrow> quad list \<Rightarrow> rdf_version" where
  "rdf_version_from found [] = found"
| "rdf_version_from found (q # qs) =
     (case object_version (q_object q) of
        None \<Rightarrow> rdf_version_from found qs
      | Some here \<Rightarrow>
          (let found' = max found here
           in if found' = Rdf12 then found' else rdf_version_from found' qs))"

definition dataset_version :: "dataset \<Rightarrow> rdf_version" where
  "dataset_version d = rdf_version_from Rdf11 d"

definition project_object :: "rdf_version \<Rightarrow> rdf_term \<Rightarrow> rdf_term" where
  "project_object tgt x =
     (case x of
        TermLiteral l \<Rightarrow>
          if tgt < Rdf12Basic \<and> l_direction l \<noteq> None
          then TermLiteral (language_literal (l_value l) (the (l_language l)))
          else x
      | _ \<Rightarrow> x)"

definition is_triple_term :: "rdf_term \<Rightarrow> bool" where
  "is_triple_term x = (case x of TermTriple _ _ _ \<Rightarrow> True | _ \<Rightarrow> False)"

definition project_to :: "dataset \<Rightarrow> rdf_version \<Rightarrow> dataset" where
  "project_to d tgt =
     (if dataset_version d \<le> tgt then d
      else List.map_filter (\<lambda>q.
        if tgt < Rdf12 \<and> is_triple_term (q_object q) then None
        else Some (q\<lparr>q_object := project_object tgt (q_object q)\<rparr>)) d)"

text \<open>The \<open>seen\<close> loop both \<open>named_graphs\<close> share.\<close>

fun push_unseen :: "'a list \<Rightarrow> 'a list \<Rightarrow> 'a list" where
  "push_unseen seen [] = seen"
| "push_unseen seen (x # xs) =
     (if x \<in> set seen then push_unseen seen xs else push_unseen (seen @ [x]) xs)"

definition graph_iri_opt :: "graph_name \<Rightarrow> iri option" where
  "graph_iri_opt g = (case g of GraphNamed n \<Rightarrow> Some n | _ \<Rightarrow> None)"

definition named_graphs :: "dataset \<Rightarrow> iri list" where
  "named_graphs d = push_unseen [] (List.map_filter (\<lambda>q. graph_iri_opt (q_graph q)) d)"

definition has_named_graphs :: "dataset \<Rightarrow> bool" where
  "has_named_graphs d = list_ex (\<lambda>q. q_graph q \<noteq> DefaultGraph) d"

definition uses_reserved_namespace :: "dataset \<Rightarrow> bool" where
  "uses_reserved_namespace d =
     list_ex (\<lambda>q.
       (case q_subject q of NamedNode n \<Rightarrow> is_reserved_iri n | _ \<Rightarrow> False)
       \<or> (case q_object q of TermNamed n \<Rightarrow> is_reserved_iri n | _ \<Rightarrow> False)
       \<or> (case q_graph q of GraphNamed n \<Rightarrow> is_reserved_iri n | _ \<Rightarrow> False)
       \<or> is_reserved_iri (q_predicate q)) d"

definition default_graph_only :: "dataset \<Rightarrow> dataset" where
  "default_graph_only d = filter (\<lambda>q. q_graph q = DefaultGraph) d"

definition triples_of :: "dataset \<Rightarrow> triple list" where
  "triples_of d = map (\<lambda>q. mk_triple (q_subject q) (q_predicate q) (q_object q)) d"

section \<open>Skolemization\<close>

text \<open>The \<open>minted\<close> hash map and the number of UUIDs drawn so far.\<close>

record skolem_state =
  sk_minted :: "(string \<times> iri) list"
  sk_next :: nat

definition iri_for :: "(nat \<Rightarrow> string) \<Rightarrow> string \<Rightarrow> skolem_state \<Rightarrow> iri \<times> skolem_state" where
  "iri_for mint b st =
     (case map_of (sk_minted st) b of
        Some i \<Rightarrow> (i, st)
      | None \<Rightarrow>
          (let i = SKOLEM_PREFIX @ mint (sk_next st)
           in (i, st\<lparr>sk_minted := (b, i) # sk_minted st, sk_next := Suc (sk_next st)\<rparr>)))"

fun skolem_node :: "(nat \<Rightarrow> string) \<Rightarrow> node \<Rightarrow> skolem_state \<Rightarrow> iri \<times> skolem_state" where
  "skolem_node mint (NamedNode n) st = (n, st)"
| "skolem_node mint (BlankNode b) st = iri_for mint b st"

fun skolem_term :: "(nat \<Rightarrow> string) \<Rightarrow> rdf_term \<Rightarrow> skolem_state \<Rightarrow> ground_term \<times> skolem_state" where
  "skolem_term mint (TermNamed n) st = (GroundNamed n, st)"
| "skolem_term mint (TermBlank b) st = (let (i, st') = iri_for mint b st in (GroundNamed i, st'))"
| "skolem_term mint (TermLiteral l) st = (GroundLiteral l, st)"
| "skolem_term mint (TermTriple s p x) st =
     (let (s', st1) = skolem_node mint s st;
          (x', st2) = skolem_term mint x st1
      in (GroundTriple s' p x', st2))"

fun skolem_graph :: "(nat \<Rightarrow> string) \<Rightarrow> graph_name \<Rightarrow> skolem_state \<Rightarrow> ground_graph \<times> skolem_state" where
  "skolem_graph mint DefaultGraph st = (GroundDefault, st)"
| "skolem_graph mint (GraphNamed n) st = (GroundGraph n, st)"
| "skolem_graph mint (GraphBlank b) st =
     (let (i, st') = iri_for mint b st in (GroundGraph i, st'))"

definition skolem_quad :: "(nat \<Rightarrow> string) \<Rightarrow> quad \<Rightarrow> skolem_state \<Rightarrow> ground_quad \<times> skolem_state" where
  "skolem_quad mint q st =
     (let (s, st1) = skolem_node mint (q_subject q) st;
          (x, st2) = skolem_term mint (q_object q) st1;
          (g, st3) = skolem_graph mint (q_graph q) st2
      in (\<lparr>g_subject = s, g_predicate = q_predicate q, g_object = x, g_graph = g\<rparr>, st3))"

fun skolem_quads :: "(nat \<Rightarrow> string) \<Rightarrow> quad list \<Rightarrow> skolem_state \<Rightarrow> ground_quad list \<times> skolem_state" where
  "skolem_quads mint [] st = ([], st)"
| "skolem_quads mint (q # qs) st =
     (let (g, st1) = skolem_quad mint q st;
          (gs, st2) = skolem_quads mint qs st1
      in (g # gs, st2))"

definition skolemize :: "(nat \<Rightarrow> string) \<Rightarrow> dataset \<Rightarrow> skolemized" where
  "skolemize mint d = fst (skolem_quads mint d \<lparr>sk_minted = [], sk_next = 0\<rparr>)"

section \<open>Reading back\<close>

fun node_ground :: "node \<Rightarrow> iri option" where
  "node_ground (NamedNode n) = Some n"
| "node_ground (BlankNode b) = None"

fun term_ground :: "rdf_term \<Rightarrow> ground_term option" where
  "term_ground (TermNamed n) = Some (GroundNamed n)"
| "term_ground (TermLiteral l) = Some (GroundLiteral l)"
| "term_ground (TermBlank b) = None"
| "term_ground (TermTriple s p x) =
     Option.bind (node_ground s) (\<lambda>s'. map_option (GroundTriple s' p) (term_ground x))"

fun graph_ground :: "graph_name \<Rightarrow> ground_graph option" where
  "graph_ground DefaultGraph = Some GroundDefault"
| "graph_ground (GraphNamed n) = Some (GroundGraph n)"
| "graph_ground (GraphBlank b) = None"

definition quad_ground :: "quad \<Rightarrow> ground_quad option" where
  "quad_ground q =
     Option.bind (node_ground (q_subject q)) (\<lambda>s.
     Option.bind (term_ground (q_object q)) (\<lambda>x.
     map_option (\<lambda>g. \<lparr>g_subject = s, g_predicate = q_predicate q, g_object = x, g_graph = g\<rparr>)
       (graph_ground (q_graph q))))"

fun collect_opt :: "('a \<Rightarrow> 'b option) \<Rightarrow> 'a list \<Rightarrow> 'b list option" where
  "collect_opt f [] = Some []"
| "collect_opt f (x # xs) = Option.bind (f x) (\<lambda>y. map_option ((#) y) (collect_opt f xs))"

definition from_store :: "quad list \<Rightarrow> skolemized option" where
  "from_store quads = collect_opt quad_ground quads"

definition ground_iri_opt :: "ground_graph \<Rightarrow> iri option" where
  "ground_iri_opt g = (case g of GroundGraph n \<Rightarrow> Some n | GroundDefault \<Rightarrow> None)"

definition sk_named_graphs :: "skolemized \<Rightarrow> iri list" where
  "sk_named_graphs sk = push_unseen [] (List.map_filter (\<lambda>q. ground_iri_opt (g_graph q)) sk)"

definition sk_has_named_graphs :: "skolemized \<Rightarrow> bool" where
  "sk_has_named_graphs sk = list_ex (\<lambda>q. g_graph q \<noteq> GroundDefault) sk"

definition blank_for :: "(string \<Rightarrow> bool) \<Rightarrow> iri \<Rightarrow> string option" where
  "blank_for valid_blank n =
     Option.bind (strip_prefix SKOLEM_PREFIX n) (\<lambda>suf.
       let label = ''b'' @ filter is_ascii_alphanumeric suf
       in if valid_blank label then Some label else None)"

definition node_for :: "(string \<Rightarrow> bool) \<Rightarrow> iri \<Rightarrow> node" where
  "node_for valid_blank n =
     (case blank_for valid_blank n of Some b \<Rightarrow> BlankNode b | None \<Rightarrow> NamedNode n)"

fun term_for :: "(string \<Rightarrow> bool) \<Rightarrow> ground_term \<Rightarrow> rdf_term" where
  "term_for valid_blank (GroundNamed n) =
     (case blank_for valid_blank n of Some b \<Rightarrow> TermBlank b | None \<Rightarrow> TermNamed n)"
| "term_for valid_blank (GroundLiteral l) = TermLiteral l"
| "term_for valid_blank (GroundTriple s p x) =
     TermTriple (node_for valid_blank s) p (term_for valid_blank x)"

fun graph_for :: "(string \<Rightarrow> bool) \<Rightarrow> ground_graph \<Rightarrow> graph_name" where
  "graph_for valid_blank (GroundGraph n) =
     (case blank_for valid_blank n of Some b \<Rightarrow> GraphBlank b | None \<Rightarrow> GraphNamed n)"
| "graph_for valid_blank GroundDefault = DefaultGraph"

definition deskolemize :: "(string \<Rightarrow> bool) \<Rightarrow> skolemized \<Rightarrow> dataset" where
  "deskolemize valid_blank sk =
     map (\<lambda>q. \<lparr>q_subject = node_for valid_blank (g_subject q), q_predicate = g_predicate q,
       q_object = term_for valid_blank (g_object q),
       q_graph = graph_for valid_blank (g_graph q)\<rparr>) sk"

section \<open>Entity tags\<close>

definition etag_input :: "(quad \<Rightarrow> string) \<Rightarrow> skolemized \<Rightarrow> format \<Rightarrow> rdf_version \<Rightarrow> string" where
  "etag_input show_quad sk fmt served =
     (let ls = sort (map (\<lambda>q. show_quad (quad_of_ground q)) sk)
      in format_media_type fmt @ [CHR 0x0A] @ version_label served @ [CHR 0x0A]
         @ concat (map (\<lambda>l. l @ [CHR 0x0A]) ls))"

definition etag ::
  "(string \<Rightarrow> string) \<Rightarrow> (quad \<Rightarrow> string) \<Rightarrow> skolemized \<Rightarrow> format \<Rightarrow> rdf_version \<Rightarrow> string" where
  "etag sha256_hex show_quad sk fmt served =
     [CHR 0x22] @ sha256_hex (etag_input show_quad sk fmt served) @ [CHR 0x22]"


section \<open>Skolemization as a substitution\<close>

text \<open>The reference: one substitution of the blank-node labels, applied everywhere.\<close>

fun node_blanks :: "node \<Rightarrow> string set" where
  "node_blanks (NamedNode n) = {}"
| "node_blanks (BlankNode b) = {b}"

fun term_blanks :: "rdf_term \<Rightarrow> string set" where
  "term_blanks (TermNamed n) = {}"
| "term_blanks (TermBlank b) = {b}"
| "term_blanks (TermLiteral l) = {}"
| "term_blanks (TermTriple s p x) = node_blanks s \<union> term_blanks x"

fun graph_blanks :: "graph_name \<Rightarrow> string set" where
  "graph_blanks (GraphBlank b) = {b}"
| "graph_blanks _ = {}"

definition quad_blanks :: "quad \<Rightarrow> string set" where
  "quad_blanks q = node_blanks (q_subject q) \<union> term_blanks (q_object q) \<union> graph_blanks (q_graph q)"

fun sub_node :: "(string \<Rightarrow> iri) \<Rightarrow> node \<Rightarrow> iri" where
  "sub_node \<sigma> (NamedNode n) = n"
| "sub_node \<sigma> (BlankNode b) = \<sigma> b"

fun sub_term :: "(string \<Rightarrow> iri) \<Rightarrow> rdf_term \<Rightarrow> ground_term" where
  "sub_term \<sigma> (TermNamed n) = GroundNamed n"
| "sub_term \<sigma> (TermBlank b) = GroundNamed (\<sigma> b)"
| "sub_term \<sigma> (TermLiteral l) = GroundLiteral l"
| "sub_term \<sigma> (TermTriple s p x) = GroundTriple (sub_node \<sigma> s) p (sub_term \<sigma> x)"

fun sub_graph :: "(string \<Rightarrow> iri) \<Rightarrow> graph_name \<Rightarrow> ground_graph" where
  "sub_graph \<sigma> DefaultGraph = GroundDefault"
| "sub_graph \<sigma> (GraphNamed n) = GroundGraph n"
| "sub_graph \<sigma> (GraphBlank b) = GroundGraph (\<sigma> b)"

definition sub_quad :: "(string \<Rightarrow> iri) \<Rightarrow> quad \<Rightarrow> ground_quad" where
  "sub_quad \<sigma> q = \<lparr>g_subject = sub_node \<sigma> (q_subject q), g_predicate = q_predicate q,
     g_object = sub_term \<sigma> (q_object q), g_graph = sub_graph \<sigma> (q_graph q)\<rparr>"

definition sk_dom :: "skolem_state \<Rightarrow> string set" where
  "sk_dom st = fst ` set (sk_minted st)"

definition sk_agrees :: "(string \<Rightarrow> iri) \<Rightarrow> skolem_state \<Rightarrow> bool" where
  "sk_agrees \<sigma> st \<longleftrightarrow> (\<forall>(b, i) \<in> set (sk_minted st). \<sigma> b = i)"

definition sk_inv :: "(nat \<Rightarrow> string) \<Rightarrow> skolem_state \<Rightarrow> bool" where
  "sk_inv mint st \<longleftrightarrow> distinct (map fst (sk_minted st)) \<and>
     map snd (sk_minted st) = map (\<lambda>k. SKOLEM_PREFIX @ mint k) (rev [0..<sk_next st])"

text \<open>What one step of the traversal establishes: the state only grows, keeps its
  invariant and covers the labels seen, and the result is the substitution by any
  assignment the final state agrees with.\<close>

definition sk_step ::
  "(nat \<Rightarrow> string) \<Rightarrow> string set \<Rightarrow> skolem_state \<Rightarrow> skolem_state \<Rightarrow> bool" where
  "sk_step mint bs st st' \<longleftrightarrow> set (sk_minted st) \<subseteq> set (sk_minted st') \<and>
     (sk_inv mint st \<longrightarrow> sk_inv mint st') \<and> bs \<subseteq> sk_dom st'"

lemma sk_step_refl: "sk_step mint {} st st"
  by (simp add: sk_step_def)

lemma sk_step_trans: "sk_step mint A st st1 \<Longrightarrow> sk_step mint B st1 st2 \<Longrightarrow> sk_step mint (A \<union> B) st st2"
proof -
  assume a: "sk_step mint A st st1" and b: "sk_step mint B st1 st2"
  then have "sk_dom st1 \<subseteq> sk_dom st2" by (simp add: sk_step_def sk_dom_def image_mono)
  with a b show ?thesis by (auto simp: sk_step_def)
qed

lemma sk_step_agrees: "sk_step mint A st st' \<Longrightarrow> sk_agrees \<sigma> st' \<Longrightarrow> sk_agrees \<sigma> st"
  by (auto simp: sk_step_def sk_agrees_def)

lemma iri_for_step:
  assumes "iri_for mint b st = (i, st')"
  shows "sk_step mint {b} st st' \<and> (sk_agrees \<sigma> st' \<longrightarrow> i = \<sigma> b)"
proof (cases "map_of (sk_minted st) b")
  case None
  then have "st' = st\<lparr>sk_minted := (b, i) # sk_minted st, sk_next := Suc (sk_next st)\<rparr>"
    "i = SKOLEM_PREFIX @ mint (sk_next st)"
    using assms by (auto simp: iri_for_def Let_def)
  with None show ?thesis
    by (auto simp: sk_step_def sk_agrees_def sk_dom_def sk_inv_def map_of_eq_None_iff)
next
  case (Some j)
  then have "(b, j) \<in> set (sk_minted st)" by (rule map_of_SomeD)
  with Some assms show ?thesis
    by (force simp: iri_for_def sk_step_def sk_agrees_def sk_dom_def)
qed

lemma skolem_node_step:
  "skolem_node mint n st = (i, st') \<Longrightarrow>
     sk_step mint (node_blanks n) st st' \<and> (sk_agrees \<sigma> st' \<longrightarrow> i = sub_node \<sigma> n)"
  by (cases n) (auto simp: sk_step_refl dest: iri_for_step)

lemma skolem_term_step:
  "skolem_term mint x st = (y, st') \<Longrightarrow>
     sk_step mint (term_blanks x) st st' \<and> (sk_agrees \<sigma> st' \<longrightarrow> y = sub_term \<sigma> x)"
proof (induction x arbitrary: st y st')
  case (TermBlank b)
  obtain i st1 where i: "iri_for mint b st = (i, st1)" by (cases "iri_for mint b st")
  from iri_for_step [OF this] TermBlank i show ?case by auto
next
  case (TermTriple s p x)
  obtain s' st1 where s: "skolem_node mint s st = (s', st1)" by (cases "skolem_node mint s st")
  obtain x' st2 where x: "skolem_term mint x st1 = (x', st2)" by (cases "skolem_term mint x st1")
  have eq: "y = GroundTriple s' p x'" "st' = st2" using TermTriple.prems s x by simp_all
  note x_step = TermTriple.IH [OF x] and s_step = skolem_node_step [OF s]
  then have "sk_step mint (term_blanks (TermTriple s p x)) st st2"
    by (auto intro: sk_step_trans)
  with eq s_step x_step show ?case by (auto dest: sk_step_agrees)
qed (simp_all add: sk_step_refl)

lemma skolem_graph_step:
  "skolem_graph mint g st = (h, st') \<Longrightarrow>
     sk_step mint (graph_blanks g) st st' \<and> (sk_agrees \<sigma> st' \<longrightarrow> h = sub_graph \<sigma> g)"
proof (cases g)
  case (GraphBlank b)
  obtain i st1 where i: "iri_for mint b st = (i, st1)" by (cases "iri_for mint b st")
  assume "skolem_graph mint g st = (h, st')"
  with iri_for_step [OF i] GraphBlank i show ?thesis by auto
qed (auto simp: sk_step_refl)

lemma skolem_quad_step:
  assumes "skolem_quad mint q st = (r, st')"
  shows "sk_step mint (quad_blanks q) st st' \<and> (sk_agrees \<sigma> st' \<longrightarrow> r = sub_quad \<sigma> q)"
proof -
  obtain s st1 where s: "skolem_node mint (q_subject q) st = (s, st1)"
    by (cases "skolem_node mint (q_subject q) st")
  obtain x st2 where x: "skolem_term mint (q_object q) st1 = (x, st2)"
    by (cases "skolem_term mint (q_object q) st1")
  obtain g st3 where g: "skolem_graph mint (q_graph q) st2 = (g, st3)"
    by (cases "skolem_graph mint (q_graph q) st2")
  have eq: "r = \<lparr>g_subject = s, g_predicate = q_predicate q, g_object = x, g_graph = g\<rparr>" "st' = st3"
    using assms s x g by (simp_all add: skolem_quad_def)
  note steps = skolem_node_step [OF s] skolem_term_step [OF x] skolem_graph_step [OF g]
  have "sk_step mint (quad_blanks q) st st3"
    unfolding quad_blanks_def using steps by (blast intro: sk_step_trans)
  moreover have "sk_agrees \<sigma> st3 \<Longrightarrow> sk_agrees \<sigma> st2" "sk_agrees \<sigma> st2 \<Longrightarrow> sk_agrees \<sigma> st1"
    using steps by (blast dest: sk_step_agrees)+
  ultimately show ?thesis
    using eq steps [of \<sigma>] by (simp add: sub_quad_def)
qed

lemma skolem_quads_step:
  "skolem_quads mint d st = (rs, st') \<Longrightarrow>
     sk_step mint (\<Union> (quad_blanks ` set d)) st st' \<and> (sk_agrees \<sigma> st' \<longrightarrow> rs = map (sub_quad \<sigma>) d)"
proof (induction d arbitrary: st rs st')
  case Nil
  then show ?case by (simp add: sk_step_refl)
next
  case (Cons q d)
  obtain r st1 where r: "skolem_quad mint q st = (r, st1)" by (cases "skolem_quad mint q st")
  obtain rs2 st2 where rs: "skolem_quads mint d st1 = (rs2, st2)" by (cases "skolem_quads mint d st1")
  have eq: "rs = r # rs2" "st' = st2" using Cons.prems r rs by simp_all
  note steps = skolem_quad_step [OF r] Cons.IH [OF rs]
  have "sk_step mint (\<Union> (quad_blanks ` set (q # d))) st st2"
    using steps by (auto intro: sk_step_trans)
  with eq steps show ?case by (auto dest: sk_step_agrees)
qed

lemma skolemize_substitution:
  obtains \<sigma> k where "skolemize mint d = map (sub_quad \<sigma>) d"
    and "\<forall>b \<in> \<Union> (quad_blanks ` set d). \<sigma> b = SKOLEM_PREFIX @ mint (k b)"
    and "inj_on k (\<Union> (quad_blanks ` set d))"
proof -
  let ?st0 = "\<lparr>sk_minted = [], sk_next = 0\<rparr>" and ?B = "\<Union> (quad_blanks ` set d)"
  obtain rs st where st: "skolem_quads mint d ?st0 = (rs, st)" by (cases "skolem_quads mint d ?st0")
  define \<sigma> where "\<sigma> = (\<lambda>b. the (map_of (sk_minted st) b))"
  have "sk_inv mint ?st0" by (simp add: sk_inv_def)
  with skolem_quads_step [OF st, of \<sigma>] have inv: "sk_inv mint st" and dom: "?B \<subseteq> sk_dom st"
    by (auto simp: sk_step_def)
  have dist: "distinct (map fst (sk_minted st))" using inv by (simp add: sk_inv_def)
  then have "sk_agrees \<sigma> st" by (auto simp: sk_agrees_def \<sigma>_def)
  then have eq: "skolemize mint d = map (sub_quad \<sigma>) d"
    using skolem_quads_step [OF st, of \<sigma>] st by (simp add: skolemize_def)
  let ?n = "sk_next st"
  have len: "length (sk_minted st) = ?n"
    using inv by (metis diff_zero length_map length_rev length_upt sk_inv_def)
  define pos where "pos = (\<lambda>b. SOME i. i < ?n \<and> fst (sk_minted st ! i) = b)"
  have pos: "pos b < ?n \<and> fst (sk_minted st ! pos b) = b" if b: "b \<in> sk_dom st" for b
  proof -
    obtain e where "e \<in> set (sk_minted st)" "fst e = b" using b unfolding sk_dom_def by blast
    then have "\<exists>i. i < ?n \<and> fst (sk_minted st ! i) = b" using len by (metis in_set_conv_nth)
    then show ?thesis unfolding pos_def by (rule someI_ex)
  qed
  define k where "k = (\<lambda>b. ?n - Suc (pos b))"
  have "\<sigma> b = SKOLEM_PREFIX @ mint (k b)" if "b \<in> sk_dom st" for b
  proof -
    have "sk_minted st ! pos b = (b, snd (sk_minted st ! pos b))"
      using pos [OF that] by (metis prod.collapse)
    then have "\<sigma> b = snd (sk_minted st ! pos b)"
      unfolding \<sigma>_def using pos [OF that] dist len by (metis map_of_eq_Some_iff nth_mem option.sel)
    also have "\<dots> = map snd (sk_minted st) ! pos b" using pos [OF that] len by simp
    also have "\<dots> = SKOLEM_PREFIX @ mint (k b)"
      using inv pos [OF that] by (simp add: sk_inv_def rev_nth k_def)
    finally show ?thesis .
  qed
  moreover have "inj_on k (sk_dom st)"
  proof (rule inj_onI)
    fix x y assume "x \<in> sk_dom st" "y \<in> sk_dom st" "k x = k y"
    with pos [of x] pos [of y] have "pos x = pos y" by (auto simp: k_def)
    with pos [of x] pos [of y] \<open>x \<in> sk_dom st\<close> \<open>y \<in> sk_dom st\<close> show "x = y" by metis
  qed
  ultimately show thesis using dom eq by (intro that [of \<sigma> k]) (auto intro: inj_on_subset)
qed


section \<open>The round trip\<close>

fun ren_node :: "(string \<Rightarrow> string) \<Rightarrow> node \<Rightarrow> node" where
  "ren_node \<rho> (NamedNode n) = NamedNode n"
| "ren_node \<rho> (BlankNode b) = BlankNode (\<rho> b)"

fun ren_term :: "(string \<Rightarrow> string) \<Rightarrow> rdf_term \<Rightarrow> rdf_term" where
  "ren_term \<rho> (TermNamed n) = TermNamed n"
| "ren_term \<rho> (TermBlank b) = TermBlank (\<rho> b)"
| "ren_term \<rho> (TermLiteral l) = TermLiteral l"
| "ren_term \<rho> (TermTriple s p x) = TermTriple (ren_node \<rho> s) p (ren_term \<rho> x)"

fun ren_graph :: "(string \<Rightarrow> string) \<Rightarrow> graph_name \<Rightarrow> graph_name" where
  "ren_graph \<rho> (GraphBlank b) = GraphBlank (\<rho> b)"
| "ren_graph \<rho> DefaultGraph = DefaultGraph"
| "ren_graph \<rho> (GraphNamed n) = GraphNamed n"

definition ren_quad :: "(string \<Rightarrow> string) \<Rightarrow> quad \<Rightarrow> quad" where
  "ren_quad \<rho> q = \<lparr>q_subject = ren_node \<rho> (q_subject q), q_predicate = q_predicate q,
     q_object = ren_term \<rho> (q_object q), q_graph = ren_graph \<rho> (q_graph q)\<rparr>"

text \<open>The IRIs of a dataset that \<open>deskolemize\<close> looks at: subjects, objects and graph names,
  at every depth of a triple term.\<close>

fun node_iris :: "node \<Rightarrow> iri set" where
  "node_iris (NamedNode n) = {n}"
| "node_iris (BlankNode b) = {}"

fun term_iris :: "rdf_term \<Rightarrow> iri set" where
  "term_iris (TermNamed n) = {n}"
| "term_iris (TermTriple s p x) = node_iris s \<union> term_iris x"
| "term_iris _ = {}"

fun graph_iris :: "graph_name \<Rightarrow> iri set" where
  "graph_iris (GraphNamed n) = {n}"
| "graph_iris _ = {}"

definition quad_iris :: "quad \<Rightarrow> iri set" where
  "quad_iris q = node_iris (q_subject q) \<union> term_iris (q_object q) \<union> graph_iris (q_graph q)"

definition skolem_free :: "dataset \<Rightarrow> bool" where
  "skolem_free d \<longleftrightarrow> (\<forall>q \<in> set d. \<forall>i \<in> quad_iris q. \<not> prefix SKOLEM_PREFIX i)"

lemma blank_for_None: "\<not> prefix SKOLEM_PREFIX i \<Longrightarrow> blank_for vb i = None"
  using starts_with_prefix [of SKOLEM_PREFIX i] by (simp add: blank_for_def starts_with_def)

lemma blank_for_skolem:
  "vb (''b'' @ filter is_ascii_alphanumeric u) \<Longrightarrow>
     blank_for vb (SKOLEM_PREFIX @ u) = Some (''b'' @ filter is_ascii_alphanumeric u)"
  by (simp add: blank_for_def)

lemma node_for_sub:
  "\<forall>b \<in> node_blanks n. blank_for vb (\<sigma> b) = Some (\<rho> b) \<Longrightarrow>
   \<forall>i \<in> node_iris n. blank_for vb i = None \<Longrightarrow> node_for vb (sub_node \<sigma> n) = ren_node \<rho> n"
  by (cases n) (auto simp: node_for_def)

lemma term_for_sub:
  "\<forall>b \<in> term_blanks x. blank_for vb (\<sigma> b) = Some (\<rho> b) \<Longrightarrow>
   \<forall>i \<in> term_iris x. blank_for vb i = None \<Longrightarrow> term_for vb (sub_term \<sigma> x) = ren_term \<rho> x"
  by (induction x) (auto simp: node_for_sub)

lemma graph_for_sub:
  "\<forall>b \<in> graph_blanks g. blank_for vb (\<sigma> b) = Some (\<rho> b) \<Longrightarrow>
   \<forall>i \<in> graph_iris g. blank_for vb i = None \<Longrightarrow> graph_for vb (sub_graph \<sigma> g) = ren_graph \<rho> g"
  by (cases g) auto

lemma deskolemize_sub:
  assumes "\<And>b. b \<in> \<Union> (quad_blanks ` set d) \<Longrightarrow> blank_for vb (\<sigma> b) = Some (\<rho> b)"
    and "skolem_free d"
  shows "deskolemize vb (map (sub_quad \<sigma>) d) = map (ren_quad \<rho>) d"
proof -
  have "node_for vb (sub_node \<sigma> (q_subject q)) = ren_node \<rho> (q_subject q)"
    "term_for vb (sub_term \<sigma> (q_object q)) = ren_term \<rho> (q_object q)"
    "graph_for vb (sub_graph \<sigma> (q_graph q)) = ren_graph \<rho> (q_graph q)" if q: "q \<in> set d" for q
  proof -
    have bl: "\<forall>b \<in> quad_blanks q. blank_for vb (\<sigma> b) = Some (\<rho> b)" using assms(1) q by blast
    have fr: "\<forall>i \<in> quad_iris q. blank_for vb i = None"
      using assms(2) q by (auto simp: skolem_free_def intro: blank_for_None)
    show "node_for vb (sub_node \<sigma> (q_subject q)) = ren_node \<rho> (q_subject q)"
      "term_for vb (sub_term \<sigma> (q_object q)) = ren_term \<rho> (q_object q)"
      "graph_for vb (sub_graph \<sigma> (q_graph q)) = ren_graph \<rho> (q_graph q)"
      using bl fr unfolding quad_blanks_def quad_iris_def
      by (blast intro: node_for_sub term_for_sub graph_for_sub)+
  qed
  then show ?thesis by (simp add: deskolemize_def sub_quad_def ren_quad_def)
qed

text \<open>The write path's check covers the dataset if it carries no triple term.\<close>

lemma skolem_prefix_reserved: "prefix SKOLEM_PREFIX i \<Longrightarrow> is_reserved_iri i"
  by (auto simp: prefix_def is_reserved_iri_def SKOLEM_PREFIX_def RESERVED_PREFIX_def
      eq_ignore_ascii_case_def)

lemma skolem_free_checked:
  assumes "\<not> uses_reserved_namespace d" and "\<forall>q \<in> set d. \<not> is_triple_term (q_object q)"
  shows "skolem_free d"
  unfolding skolem_free_def
proof (intro ballI notI)
  fix q i assume q: "q \<in> set d" and i: "i \<in> quad_iris q" and "prefix SKOLEM_PREFIX i"
  then have res: "is_reserved_iri i" by (simp add: skolem_prefix_reserved)
  have "q_subject q = NamedNode i \<or> q_object q = TermNamed i \<or> q_graph q = GraphNamed i"
    using i assms(2) q unfolding quad_iris_def
    by (cases "q_subject q"; cases "q_object q"; cases "q_graph q") (auto simp: is_triple_term_def)
  then show False using assms(1) q res
    by (auto simp: uses_reserved_namespace_def list_ex_iff)
qed

section \<open>Properties of datasets\<close>

lemma skolemize_deskolemize:
  assumes "skolem_free d"
    and "inj (\<lambda>n. filter is_ascii_alphanumeric (mint n))"
    and "\<And>n. valid_blank (''b'' @ filter is_ascii_alphanumeric (mint n))"
  shows "\<exists>\<rho>. inj_on \<rho> (\<Union> (quad_blanks ` set d)) \<and>
    deskolemize valid_blank (skolemize mint d) = map (ren_quad \<rho>) d"
proof -
  let ?B = "\<Union> (quad_blanks ` set d)"
  obtain \<sigma> k where sk: "skolemize mint d = map (sub_quad \<sigma>) d"
    and \<sigma>: "\<forall>b \<in> ?B. \<sigma> b = SKOLEM_PREFIX @ mint (k b)" and k: "inj_on k ?B"
    using skolemize_substitution by metis
  let ?\<rho> = "\<lambda>b. ''b'' @ filter is_ascii_alphanumeric (mint (k b))"
  have "deskolemize valid_blank (skolemize mint d) = map (ren_quad ?\<rho>) d"
    unfolding sk using assms(1,3) \<sigma> by (intro deskolemize_sub) (auto simp: blank_for_skolem)
  moreover have "inj_on ?\<rho> ?B"
    using k assms(2) by (auto simp: inj_on_def)
  ultimately show ?thesis by blast
qed

text \<open>A concrete mint for the witnesses: unary labels.\<close>

definition unary_mint :: "nat \<Rightarrow> string" where "unary_mint n = replicate n (CHR ''a'')"

lemma unary_mint_alnum [simp]: "filter is_ascii_alphanumeric (unary_mint n) = unary_mint n"
  by (simp add: unary_mint_def is_ascii_alphanumeric_def filter_replicate)

lemma unary_mint_inj: "inj (\<lambda>n. filter is_ascii_alphanumeric (unary_mint n))"
  by (simp add: inj_def unary_mint_def is_ascii_alphanumeric_def filter_replicate replicate_eq_replicate)



text \<open>The check of the write path does not look inside triple terms: a document that nests a
  skolem IRI there passes it and comes back with a blank node where its IRI was.\<close>

lemma reserved_iri_in_triple_term_passes:
  "\<exists>d. \<not> uses_reserved_namespace d \<and> \<Union> (quad_blanks ` set d) = {} \<and>
     \<Union> (quad_blanks ` set (deskolemize (\<lambda>_. True) (skolemize unary_mint d))) \<noteq> {}"
proof -
  let ?d = "[\<lparr>q_subject = NamedNode ''s'', q_predicate = ''p'',
    q_object = TermTriple (NamedNode (SKOLEM_PREFIX @ ''u'')) ''p'' (TermNamed ''o''), q_graph = DefaultGraph\<rparr>]"
  have "\<not> uses_reserved_namespace ?d" by code_simp
  moreover have "\<Union> (quad_blanks ` set ?d) = {}" by (simp add: quad_blanks_def)
  moreover have "deskolemize (\<lambda>_. True) (skolemize unary_mint ?d) =
    [\<lparr>q_subject = NamedNode ''s'', q_predicate = ''p'',
      q_object = TermTriple (BlankNode ''bu'') ''p'' (TermNamed ''o''), q_graph = DefaultGraph\<rparr>]" by code_simp
  ultimately show ?thesis by (intro exI [of _ ?d]) (simp add: quad_blanks_def)
qed


lemma le_Rdf12 [simp]: "v \<le> Rdf12"
  by (cases v) (simp_all add: less_eq_rdf_version_def)

lemma rdf_version_from_le:
  "rdf_version_from f qs \<le> t \<longleftrightarrow> f \<le> t \<and> (\<forall>q \<in> set qs. \<forall>v. object_version (q_object q) = Some v \<longrightarrow> v \<le> t)"
proof (induction qs arbitrary: f)
  case Nil
  show ?case by simp
next
  case (Cons q qs)
  have top: "Rdf12 \<le> t \<Longrightarrow> v \<le> t" for v using le_Rdf12 order.trans by blast
  show ?case
  proof (cases "object_version (q_object q)")
    case None
    with Cons show ?thesis by simp
  next
    case (Some v)
    show ?thesis
    proof (cases "max f v = Rdf12")
      case True
      then have eq: "rdf_version_from f (q # qs) = Rdf12" using Some by (simp add: Let_def)
      have "f = Rdf12 \<or> v = Rdf12" using True by (auto simp: max_def split: if_splits)
      then show ?thesis unfolding eq using Some top by auto
    next
      case False
      with Some show ?thesis by (auto simp: Let_def Cons)
    qed
  qed
qed

lemma dataset_version_le:
  "dataset_version d \<le> t \<longleftrightarrow> (\<forall>q \<in> set d. \<forall>v. object_version (q_object q) = Some v \<longrightarrow> v \<le> t)"
proof -
  have "Rdf11 \<le> t" by (cases t) (simp_all add: less_eq_rdf_version_def)
  then show ?thesis by (simp add: dataset_version_def rdf_version_from_le)
qed

lemma set_map_filter_iff: "y \<in> set (List.map_filter f xs) \<longleftrightarrow> (\<exists>x \<in> set xs. f x = Some y)"
  by (force simp: List.map_filter_def)

lemma object_version_project:
  assumes "object_version (project_object t x) = Some v" and "\<not> (t < Rdf12 \<and> is_triple_term x)"
  shows "v \<le> t"
proof (cases x)
  case (TermLiteral l)
  with assms show ?thesis
    by (cases t) (auto simp: object_version_def project_object_def language_literal_def
        less_rdf_version_def less_eq_rdf_version_def split: if_splits)
next
  case (TermTriple s p y)
  with assms(2) have "\<not> t < Rdf12" by (simp add: is_triple_term_def)
  then have "t = Rdf12" by (cases t) (simp_all add: less_rdf_version_def)
  then show ?thesis by simp
qed (use assms in \<open>simp_all add: object_version_def project_object_def\<close>)

lemma project_object_same:
  assumes "\<And>v. object_version x = Some v \<Longrightarrow> v \<le> t"
  shows "project_object t x = x \<and> \<not> (t < Rdf12 \<and> is_triple_term x)"
  using assms by (cases x) (auto simp: object_version_def project_object_def is_triple_term_def
      less_rdf_version_def less_eq_rdf_version_def not_less)

text \<open>\<open>project_to\<close> answers at the requested RDF version and never above it, keeps every
  quad already expressible there, and invents nothing: each quad served is one that was
  written, possibly with the base direction of its literal stripped.\<close>

theorem project_to_spec:
  "dataset_version (project_to d t) \<le> t \<and>
   (\<forall>q \<in> set d. (\<forall>v. object_version (q_object q) = Some v \<longrightarrow> v \<le> t) \<longrightarrow> q \<in> set (project_to d t)) \<and>
   (\<forall>r \<in> set (project_to d t). \<exists>q \<in> set d. r = q \<or>
      (\<exists>l. q_object q = TermLiteral l \<and> l_direction l \<noteq> None \<and>
         r = q\<lparr>q_object := TermLiteral (language_literal (l_value l) (the (l_language l)))\<rparr>))"
proof (cases "dataset_version d \<le> t")
  case True
  then have "project_to d t = d" by (simp add: project_to_def)
  with True show ?thesis by auto
next
  case False
  let ?f = "\<lambda>q. if t < Rdf12 \<and> is_triple_term (q_object q) then None
        else Some (q\<lparr>q_object := project_object t (q_object q)\<rparr>)"
  have eq: "project_to d t = List.map_filter ?f d" using False by (simp add: project_to_def)
  have "dataset_version (project_to d t) \<le> t"
    unfolding dataset_version_le eq
    by (auto simp: set_map_filter_iff split: if_splits) (metis object_version_project)+
  moreover have "q \<in> set (project_to d t)"
    if "q \<in> set d" "\<And>v. object_version (q_object q) = Some v \<Longrightarrow> v \<le> t" for q
  proof -
    have "?f q = Some q" using project_object_same [OF that(2)] by auto
    with that(1) show ?thesis unfolding eq set_map_filter_iff by blast
  qed
  moreover have "\<exists>q \<in> set d. r = q \<or> (\<exists>l. q_object q = TermLiteral l \<and> l_direction l \<noteq> None \<and>
         r = q\<lparr>q_object := TermLiteral (language_literal (l_value l) (the (l_language l)))\<rparr>)"
    if r: "r \<in> set (project_to d t)" for r
  proof -
    obtain q where q: "q \<in> set d" "r = q\<lparr>q_object := project_object t (q_object q)\<rparr>"
      using r unfolding eq set_map_filter_iff by (auto split: if_splits)
    have "project_object t (q_object q) = q_object q \<or> (\<exists>l. q_object q = TermLiteral l \<and> l_direction l \<noteq> None \<and>
         project_object t (q_object q) = TermLiteral (language_literal (l_value l) (the (l_language l))))"
      by (cases "q_object q") (auto simp: project_object_def)
    with q show ?thesis by (intro bexI [of _ q]) auto
  qed
  ultimately show ?thesis by blast
qed

theorem project_to_spec_witness:
  "dataset_version (project_to
     [\<lparr>q_subject = NamedNode ''s'', q_predicate = ''p'',
       q_object = TermTriple (NamedNode ''a'') ''b'' (TermNamed ''c''), q_graph = DefaultGraph\<rparr>] Rdf11) \<le> Rdf11"
  using project_to_spec by blast


lemma node_ground_iff: "node_ground n = Some i \<longleftrightarrow> n = NamedNode i"
  by (cases n) auto

lemma term_ground_iff: "term_ground x = Some y \<longleftrightarrow> x = term_of_ground y"
proof (induction x arbitrary: y)
  case (TermTriple s p x)
  show ?case by (cases y) (auto simp: bind_eq_Some_conv node_ground_iff TermTriple)
qed (case_tac y; auto)+

lemma graph_ground_iff: "graph_ground g = Some h \<longleftrightarrow> g = graph_of_ground h"
  by (cases g; cases h) auto

lemma quad_ground_iff: "quad_ground q = Some r \<longleftrightarrow> q = quad_of_ground r"
proof
  assume "quad_ground q = Some r"
  then show "q = quad_of_ground r"
    by (cases q) (auto simp: quad_ground_def quad_of_ground_def bind_eq_Some_conv node_ground_iff
        term_ground_iff graph_ground_iff)
next
  have "term_ground (term_of_ground y) = Some y" "graph_ground (graph_of_ground h) = Some h" for y h
    by (simp_all add: term_ground_iff graph_ground_iff)
  then show "q = quad_of_ground r \<Longrightarrow> quad_ground q = Some r"
    by (simp add: quad_ground_def quad_of_ground_def)
qed

lemma collect_opt_iff:
  "(\<And>x y. f x = Some y \<longleftrightarrow> x = g y) \<Longrightarrow> collect_opt f xs = Some ys \<longleftrightarrow> xs = map g ys"
proof (induction xs arbitrary: ys)
  case Nil
  then show ?case by (cases ys) auto
next
  case (Cons x xs)
  then show ?case by (cases ys) (auto simp: bind_eq_Some_conv)
qed

lemma from_store_iff: "from_store qs = Some sk \<longleftrightarrow> qs = map quad_of_ground sk"
  unfolding from_store_def by (rule collect_opt_iff) (rule quad_ground_iff)

lemma inj_quad_of_ground: "inj quad_of_ground"
  by (rule injI) (metis option.inject quad_ground_iff)

section \<open>Entity tags identify\<close>

lemma inj_on_image_mset_eq:
  assumes "inj_on f (set_mset (A + B))" and "image_mset f A = image_mset f B"
  shows "A = B"
proof -
  have inv: "image_mset (the_inv_into (set_mset (A + B)) f) (image_mset f C) = C"
    if "set_mset C \<subseteq> set_mset (A + B)" for C
  proof -
    have "image_mset (the_inv_into (set_mset (A + B)) f \<circ> f) C = image_mset id C"
      using that assms(1) by (intro image_mset_cong) (auto simp: the_inv_into_f_f)
    then show ?thesis by (simp add: image_mset.compositionality)
  qed
  from inv [of A] inv [of B] assms(2) show ?thesis by simp
qed

lemma append_delim_inj:
  assumes "c \<notin> set a" "c \<notin> set b"
  shows "a @ c # x = b @ c # y \<longleftrightarrow> a = b \<and> x = y"
  using assms
proof (induction a arbitrary: b)
  case Nil
  then show ?case by (cases b) auto
next
  case (Cons d a)
  then show ?case by (cases b) auto
qed

lemma terminated_inj:
  assumes "\<forall>l \<in> set ls. c \<notin> set l" "\<forall>l \<in> set ms. c \<notin> set l"
    and "concat (map (\<lambda>l. l @ [c]) ls) = concat (map (\<lambda>l. l @ [c]) ms)"
  shows "ls = ms"
  using assms
proof (induction ls arbitrary: ms)
  case Nil
  then show ?case by (cases ms) auto
next
  case (Cons l ls)
  show ?case
  proof (cases ms)
    case Nil
    with Cons.prems(3) show ?thesis by simp
  next
    case ms: (Cons m ms')
    have eq: "l @ c # concat (map (\<lambda>l. l @ [c]) ls) = m @ c # concat (map (\<lambda>l. l @ [c]) ms')"
      using Cons.prems(3) ms by simp
    have "c \<notin> set l" "c \<notin> set m" using Cons.prems(1,2) ms by simp_all
    note * = append_delim_inj [OF this, THEN iffD1, OF eq]
    then have "ls = ms'" using Cons.IH [of ms'] Cons.prems(1,2) ms by simp
    with * ms show ?thesis by simp
  qed
qed

lemma format_media_type_no_newline: "CHR 0x0A \<notin> set (format_media_type f)"
  by (cases f) auto

lemma version_label_no_newline: "CHR 0x0A \<notin> set (version_label v)"
  by (cases v) auto

lemma format_media_type_inject: "format_media_type f = format_media_type f' \<longleftrightarrow> f = f'"
  by (cases f; cases f') auto

lemma version_label_inject: "version_label v = version_label v' \<longleftrightarrow> v = v'"
  by (cases v; cases v') auto

lemma sort_eq_iff: "sort xs = sort ys \<longleftrightarrow> mset xs = mset ys"
proof
  assume "sort xs = sort ys"
  then have "mset (sort xs) = mset (sort ys)" by (rule arg_cong)
  then show "mset xs = mset ys" by simp
next
  assume "mset xs = mset ys"
  then show "sort xs = sort ys" by (intro properties_for_sort) simp_all
qed

lemma etag_injective:
  assumes "inj sha256_hex" and "inj_on show_quad (quad_of_ground ` (set sk \<union> set sk'))"
    and "\<And>q. q \<in> set sk \<union> set sk' \<Longrightarrow> CHR 0x0A \<notin> set (show_quad (quad_of_ground q))"
  shows "etag sha256_hex show_quad sk fmt v = etag sha256_hex show_quad sk' fmt' v' \<longleftrightarrow>
    fmt = fmt' \<and> v = v' \<and> mset sk = mset sk'"
proof -
  let ?f = "\<lambda>q. show_quad (quad_of_ground q)"
  let ?ls = "sort (map ?f sk)" and ?ms = "sort (map ?f sk')"
  let ?c = "\<lambda>ls. concat (map (\<lambda>l. l @ [CHR 0x0A]) ls)"
  have inj: "inj_on ?f (set_mset (mset sk + mset sk'))"
    using assms(2) inj_quad_of_ground by (auto simp: inj_on_def inj_def)
  have no_nl: "\<forall>l \<in> set ?ls. CHR 0x0A \<notin> set l" "\<forall>l \<in> set ?ms. CHR 0x0A \<notin> set l"
    using assms(3) by auto
  have "etag sha256_hex show_quad sk fmt v = etag sha256_hex show_quad sk' fmt' v' \<longleftrightarrow>
    etag_input show_quad sk fmt v = etag_input show_quad sk' fmt' v'"
    using assms(1) by (auto simp: etag_def inj_eq)
  also have "\<dots> \<longleftrightarrow> fmt = fmt' \<and> v = v' \<and> ?c ?ls = ?c ?ms"
    unfolding etag_input_def Let_def append_Cons append_Nil
    by (simp only: append_delim_inj [OF format_media_type_no_newline format_media_type_no_newline]
        append_delim_inj [OF version_label_no_newline version_label_no_newline]
        format_media_type_inject version_label_inject)
  also have "?c ?ls = ?c ?ms \<longleftrightarrow> ?ls = ?ms" using terminated_inj [OF no_nl] by (rule iffI) simp_all
  also have "?ls = ?ms \<longleftrightarrow> image_mset ?f (mset sk) = image_mset ?f (mset sk')"
    by (simp add: sort_eq_iff)
  also have "\<dots> \<longleftrightarrow> mset sk = mset sk'"
    using inj_on_image_mset_eq [OF inj] by (rule iffI) simp_all
  finally show ?thesis .
qed

text \<open>C25: The entity tag identifies the representation: two stored states share a validator
  exactly when they are the same multiset of quads served in the same format at the same
  RDF version, so the order in which the store returns them never matters. SHA-256 is
  taken as injective, and the N-Quads text of a quad as injective and free of newlines.\<close>

theorem etag_iff:
  assumes "inj sha256_hex" and "inj_on show_quad (quad_of_ground ` (set sk \<union> set sk'))"
    and "\<And>q. q \<in> set sk \<union> set sk' \<Longrightarrow> CHR 0x0A \<notin> set (show_quad (quad_of_ground q))"
  shows "etag sha256_hex show_quad sk fmt v = etag sha256_hex show_quad sk' fmt' v' \<longleftrightarrow>
    fmt = fmt' \<and> v = v' \<and> mset sk = mset sk'"
  using assms by (rule etag_injective)

theorem etag_iff_witness:
  "etag id (\<lambda>q. case q_subject q of NamedNode s \<Rightarrow> s | BlankNode b \<Rightarrow> [])
     [\<lparr>g_subject = ''a'', g_predicate = ''p'', g_object = GroundNamed ''o'', g_graph = GroundDefault\<rparr>,
      \<lparr>g_subject = ''b'', g_predicate = ''p'', g_object = GroundNamed ''o'', g_graph = GroundDefault\<rparr>] Turtle Rdf11 =
   etag id (\<lambda>q. case q_subject q of NamedNode s \<Rightarrow> s | BlankNode b \<Rightarrow> [])
     [\<lparr>g_subject = ''b'', g_predicate = ''p'', g_object = GroundNamed ''o'', g_graph = GroundDefault\<rparr>,
      \<lparr>g_subject = ''a'', g_predicate = ''p'', g_object = GroundNamed ''o'', g_graph = GroundDefault\<rparr>] Turtle Rdf11"
  by (subst etag_iff) (auto simp: inj_on_def quad_of_ground_def)

end
