(* ===== verification/Pdp.thy ===== *)
theory Pdp
  imports Rdf "HOL-Library.Multiset"
begin

text \<open>
  The WAC policy decision point, \<^verbatim>\<open>src/wac/pdp.rs\<close> and the mode types of
  \<^verbatim>\<open>src/wac/mod.rs\<close>: which modes an ACL document grants an agent on a governed IRI, and
  whether it grants anything to anyone. \<open>HashMap::values\<close> iterates in an unspecified
  order; the model takes the order of first insertion, and \<open>decide_over_perm\<close> shows
  that no order changes the answer.
\<close>

section \<open>Types\<close>

datatype agent = Public | WebId string

datatype mode = Read | Write | Append | Control

record access_modes =
  m_read :: bool
  m_write :: bool
  m_append :: bool
  m_control :: bool

definition no_modes :: access_modes where
  "no_modes = \<lparr>m_read = False, m_write = False, m_append = False, m_control = False\<rparr>"

fun allows :: "access_modes \<Rightarrow> mode \<Rightarrow> bool" where
  "allows a Read = m_read a"
| "allows a Write = m_write a"
| "allows a Append = (m_append a \<or> m_write a)"
| "allows a Control = m_control a"

record decision =
  d_user :: access_modes
  d_public :: access_modes

definition ACL_AGENT :: iri where "ACL_AGENT = ''http://www.w3.org/ns/auth/acl#agent''"
definition ACL_AGENT_CLASS :: iri where "ACL_AGENT_CLASS = ''http://www.w3.org/ns/auth/acl#agentClass''"
definition ACL_ACCESS_TO :: iri where "ACL_ACCESS_TO = ''http://www.w3.org/ns/auth/acl#accessTo''"
definition ACL_DEFAULT :: iri where "ACL_DEFAULT = ''http://www.w3.org/ns/auth/acl#default''"
definition ACL_MODE :: iri where "ACL_MODE = ''http://www.w3.org/ns/auth/acl#mode''"
definition ACL_READ :: iri where "ACL_READ = ''http://www.w3.org/ns/auth/acl#Read''"
definition ACL_WRITE :: iri where "ACL_WRITE = ''http://www.w3.org/ns/auth/acl#Write''"
definition ACL_APPEND :: iri where "ACL_APPEND = ''http://www.w3.org/ns/auth/acl#Append''"
definition ACL_CONTROL :: iri where "ACL_CONTROL = ''http://www.w3.org/ns/auth/acl#Control''"
definition ACL_AUTHENTICATED_AGENT :: iri where
  "ACL_AUTHENTICATED_AGENT = ''http://www.w3.org/ns/auth/acl#AuthenticatedAgent''"
definition ACL_AUTHORIZATION :: iri where
  "ACL_AUTHORIZATION = ''http://www.w3.org/ns/auth/acl#Authorization''"
definition FOAF_AGENT :: iri where "FOAF_AGENT = ''http://xmlns.com/foaf/0.1/Agent''"

section \<open>Decisions\<close>

definition recognized_mode :: "iri \<Rightarrow> mode option" where
  "recognized_mode mode_iri =
     (if mode_iri = ACL_READ then Some Read
      else if mode_iri = ACL_WRITE then Some Write
      else if mode_iri = ACL_APPEND then Some Append
      else if mode_iri = ACL_CONTROL then Some Control
      else None)"

fun index_push :: "(node \<times> triple list) list \<Rightarrow> triple \<Rightarrow> (node \<times> triple list) list" where
  "index_push [] t = [(t_subject t, [t])]"
| "index_push ((s, ts) # rest) t =
     (if s = t_subject t then (s, ts @ [t]) # rest else (s, ts) # index_push rest t)"

definition by_subject :: "triple list \<Rightarrow> (node \<times> triple list) list" where
  "by_subject acl = foldl index_push [] acl"

definition has_object :: "triple list \<Rightarrow> iri \<Rightarrow> iri \<Rightarrow> bool" where
  "has_object authorization predicate object_iri =
     list_ex (\<lambda>t. t_predicate t = predicate \<and>
       (case t_object t of TermNamed n \<Rightarrow> n = object_iri | _ \<Rightarrow> False)) authorization"

definition matches_agent :: "triple list \<Rightarrow> agent \<Rightarrow> bool" where
  "matches_agent authorization agent =
     (if has_object authorization ACL_AGENT_CLASS FOAF_AGENT then True
      else case agent of
        Public \<Rightarrow> False
      | WebId webid \<Rightarrow>
          has_object authorization ACL_AGENT_CLASS ACL_AUTHENTICATED_AGENT
          \<or> has_object authorization ACL_AGENT webid)"

definition names_someone :: "triple list \<Rightarrow> bool" where
  "names_someone authorization =
     (has_object authorization ACL_AGENT_CLASS FOAF_AGENT
      \<or> has_object authorization ACL_AGENT_CLASS ACL_AUTHENTICATED_AGENT
      \<or> list_ex (\<lambda>t. t_predicate t = ACL_AGENT \<and>
          (case t_object t of TermNamed _ \<Rightarrow> True | _ \<Rightarrow> False)) authorization)"

definition has_recognized_mode :: "triple list \<Rightarrow> bool" where
  "has_recognized_mode authorization =
     list_ex (\<lambda>t. t_predicate t = ACL_MODE \<and>
       (case t_object t of TermNamed m \<Rightarrow> recognized_mode m \<noteq> None | _ \<Rightarrow> False)) authorization"

definition grant_mode :: "access_modes \<Rightarrow> triple \<Rightarrow> access_modes" where
  "grant_mode granted t =
     (case t_object t of
        TermNamed m \<Rightarrow>
          (case recognized_mode m of
             Some Read \<Rightarrow> granted\<lparr>m_read := True\<rparr>
           | Some Write \<Rightarrow> granted\<lparr>m_write := True\<rparr>
           | Some Append \<Rightarrow> granted\<lparr>m_append := True\<rparr>
           | Some Control \<Rightarrow> granted\<lparr>m_control := True\<rparr>
           | None \<Rightarrow> granted)
      | _ \<Rightarrow> granted)"

text \<open>The loop of \<open>decide\<close> over the authorizations, in the order they are visited.\<close>

fun decide_over ::
  "agent \<Rightarrow> iri \<Rightarrow> iri \<Rightarrow> triple list list \<Rightarrow> access_modes \<Rightarrow> access_modes" where
  "decide_over agent scope_predicate governed_iri [] granted = granted"
| "decide_over agent scope_predicate governed_iri (authorization # rest) granted =
     (if \<not> has_object authorization scope_predicate governed_iri
      then decide_over agent scope_predicate governed_iri rest granted
      else if \<not> matches_agent authorization agent
      then decide_over agent scope_predicate governed_iri rest granted
      else decide_over agent scope_predicate governed_iri rest
        (foldl grant_mode granted (filter (\<lambda>t. t_predicate t = ACL_MODE) authorization)))"

definition decide :: "triple list \<Rightarrow> agent \<Rightarrow> iri \<Rightarrow> bool \<Rightarrow> access_modes" where
  "decide acl agent governed_iri inherited =
     decide_over agent (if inherited then ACL_DEFAULT else ACL_ACCESS_TO) governed_iri
       (map snd (by_subject acl)) no_modes"

definition grants_anything :: "triple list \<Rightarrow> iri \<Rightarrow> bool" where
  "grants_anything acl governed_iri =
     list_ex (\<lambda>authorization.
       (has_object authorization ACL_ACCESS_TO governed_iri
        \<or> has_object authorization ACL_DEFAULT governed_iri)
       \<and> names_someone authorization
       \<and> has_recognized_mode authorization) (map snd (by_subject acl))"

section \<open>The index\<close>

lemma index_push_keys:
  "distinct (map fst ix) \<Longrightarrow> distinct (map fst (index_push ix t)) \<and>
     set (map fst (index_push ix t)) = insert (t_subject t) (set (map fst ix))"
  by (induction ix t rule: index_push.induct) auto

lemma index_push_map_of:
  "map_of (index_push ix t) =
     (map_of ix)(t_subject t \<mapsto> (case map_of ix (t_subject t) of None \<Rightarrow> [] | Some ts \<Rightarrow> ts) @ [t])"
  by (induction ix t rule: index_push.induct) (auto simp: fun_eq_iff)

lemma by_subject_snoc: "by_subject (acl @ [t]) = index_push (by_subject acl) t"
  by (simp add: by_subject_def)

lemma by_subject_distinct: "distinct (map fst (by_subject acl))"
proof (induction acl rule: rev_induct)
  case Nil
  show ?case by (simp add: by_subject_def)
next
  case (snoc t acl)
  then show ?case by (simp add: by_subject_snoc index_push_keys)
qed

lemma by_subject_map_of:
  "map_of (by_subject acl) s =
     (if filter (\<lambda>t. t_subject t = s) acl = [] then None
      else Some (filter (\<lambda>t. t_subject t = s) acl))"
proof (induction acl arbitrary: s rule: rev_induct)
  case Nil
  show ?case by (simp add: by_subject_def)
next
  case (snoc t acl)
  show ?case by (simp add: by_subject_snoc index_push_map_of snoc)
qed

text \<open>The authorizations visited are the non-empty classes of equal subject.\<close>

lemma by_subject_groups:
  "set (map snd (by_subject acl)) = {filter (\<lambda>t. t_subject t = s) acl | s. s \<in> t_subject ` set acl}"
proof -
  have mem: "(s, ts) \<in> set (by_subject acl) \<longleftrightarrow>
      s \<in> t_subject ` set acl \<and> ts = filter (\<lambda>t. t_subject t = s) acl" for s ts
  proof -
    have "(s, ts) \<in> set (by_subject acl) \<longleftrightarrow> map_of (by_subject acl) s = Some ts"
      using by_subject_distinct [of acl] by simp
    then show ?thesis by (auto simp: by_subject_map_of filter_empty_conv)
  qed
  show ?thesis
  proof (intro set_eqI iffI)
    fix ts assume "ts \<in> set (map snd (by_subject acl))"
    then obtain s where "(s, ts) \<in> set (by_subject acl)" by auto
    then show "ts \<in> {filter (\<lambda>t. t_subject t = s) acl | s. s \<in> t_subject ` set acl}"
      unfolding mem by blast
  next
    fix ts assume "ts \<in> {filter (\<lambda>t. t_subject t = s) acl | s. s \<in> t_subject ` set acl}"
    then obtain s where "(s, ts) \<in> set (by_subject acl)" unfolding mem by blast
    then show "ts \<in> set (map snd (by_subject acl))" by force
  qed
qed

section \<open>Specification\<close>

text \<open>What an ACL says, triple by triple, with no grouping and no order.\<close>

definition acl_says :: "triple list \<Rightarrow> node \<Rightarrow> iri \<Rightarrow> iri \<Rightarrow> bool" where
  "acl_says acl s p x \<longleftrightarrow> mk_triple s p (TermNamed x) \<in> set acl"

fun agent_clause :: "triple list \<Rightarrow> node \<Rightarrow> agent \<Rightarrow> bool" where
  "agent_clause acl s Public \<longleftrightarrow> acl_says acl s ACL_AGENT_CLASS FOAF_AGENT"
| "agent_clause acl s (WebId w) \<longleftrightarrow> acl_says acl s ACL_AGENT_CLASS FOAF_AGENT
     \<or> acl_says acl s ACL_AGENT_CLASS ACL_AUTHENTICATED_AGENT \<or> acl_says acl s ACL_AGENT w"

fun mode_iri :: "mode \<Rightarrow> iri" where
  "mode_iri Read = ACL_READ"
| "mode_iri Write = ACL_WRITE"
| "mode_iri Append = ACL_APPEND"
| "mode_iri Control = ACL_CONTROL"

fun mode_bit :: "access_modes \<Rightarrow> mode \<Rightarrow> bool" where
  "mode_bit a Read = m_read a"
| "mode_bit a Write = m_write a"
| "mode_bit a Append = m_append a"
| "mode_bit a Control = m_control a"

definition grants :: "triple list \<Rightarrow> agent \<Rightarrow> iri \<Rightarrow> bool \<Rightarrow> mode \<Rightarrow> bool" where
  "grants acl a g inherited m \<longleftrightarrow>
     (\<exists>s. acl_says acl s (if inherited then ACL_DEFAULT else ACL_ACCESS_TO) g
        \<and> agent_clause acl s a \<and> acl_says acl s ACL_MODE (mode_iri m))"

lemmas acl_consts = ACL_READ_def ACL_WRITE_def ACL_APPEND_def ACL_CONTROL_def

lemma recognized_mode_conv: "recognized_mode x = Some m \<longleftrightarrow> x = mode_iri m"
  by (cases m) (auto simp: recognized_mode_def acl_consts)

lemma mode_bit_no_modes [simp]: "\<not> mode_bit no_modes m"
  by (cases m) (simp_all add: no_modes_def)

lemma allows_mode_bit: "allows a m \<longleftrightarrow> mode_bit a m \<or> m = Append \<and> mode_bit a Write"
  by (cases m) auto

lemma has_object_iff:
  "has_object au p x \<longleftrightarrow> (\<exists>t \<in> set au. t_predicate t = p \<and> t_object t = TermNamed x)"
proof -
  have "(case y of TermNamed n \<Rightarrow> n = x | _ \<Rightarrow> False) \<longleftrightarrow> y = TermNamed x" for y
    by (cases y) auto
  then show ?thesis by (simp add: has_object_def list_ex_iff)
qed

lemma has_object_group:
  "has_object (filter (\<lambda>t. t_subject t = s) acl) p x \<longleftrightarrow> acl_says acl s p x"
proof -
  have "has_object (filter (\<lambda>t. t_subject t = s) acl) p x \<longleftrightarrow>
    (\<exists>t \<in> set acl. t_subject t = s \<and> t_predicate t = p \<and> t_object t = TermNamed x)"
    by (auto simp: has_object_iff)
  also have "\<dots> \<longleftrightarrow> acl_says acl s p x"
    unfolding acl_says_def by (metis mk_triple_collapse mk_triple_sel)
  finally show ?thesis .
qed

lemma matches_agent_group:
  "matches_agent (filter (\<lambda>t. t_subject t = s) acl) a \<longleftrightarrow> agent_clause acl s a"
  by (cases a) (auto simp: matches_agent_def has_object_group)

lemma mode_bit_grant:
  "mode_bit (grant_mode a t) m \<longleftrightarrow> mode_bit a m \<or> t_object t = TermNamed (mode_iri m)"
proof (cases "\<exists>x. t_object t = TermNamed x")
  case True
  then obtain x where x: "t_object t = TermNamed x" by blast
  show ?thesis
  proof (cases "recognized_mode x")
    case None
    then have "x \<noteq> mode_iri m" using recognized_mode_conv by (metis option.distinct(1))
    with None x show ?thesis by (simp add: grant_mode_def)
  next
    case (Some k)
    then have "x = mode_iri k" by (simp add: recognized_mode_conv)
    with Some x show ?thesis
      by (cases k; cases m) (simp_all add: grant_mode_def acl_consts)
  qed
next
  case False
  then show ?thesis by (cases "t_object t") (auto simp: grant_mode_def)
qed

lemma mode_bit_foldl_grant:
  "mode_bit (foldl grant_mode a ts) m \<longleftrightarrow> mode_bit a m \<or> (\<exists>t \<in> set ts. t_object t = TermNamed (mode_iri m))"
  by (induction ts arbitrary: a) (auto simp: mode_bit_grant)

lemma mode_bit_decide_over:
  "mode_bit (decide_over ag sc g gs a) m \<longleftrightarrow> mode_bit a m \<or>
     (\<exists>au \<in> set gs. has_object au sc g \<and> matches_agent au ag \<and> has_object au ACL_MODE (mode_iri m))"
proof (induction gs arbitrary: a)
  case Nil
  show ?case by simp
next
  case (Cons au gs)
  have "(\<exists>t \<in> set (filter (\<lambda>t. t_predicate t = ACL_MODE) au). t_object t = TermNamed (mode_iri m)) \<longleftrightarrow>
    has_object au ACL_MODE (mode_iri m)"
    by (auto simp: has_object_iff)
  then show ?case by (auto simp: Cons mode_bit_foldl_grant)
qed

lemma access_modes_eqI: "(\<And>m. mode_bit a m = mode_bit b m) \<Longrightarrow> a = (b :: access_modes)"
  by (metis (full_types) access_modes.equality mode_bit.simps old.unit.exhaust)

lemma decide_over_perm:
  "set gs = set hs \<Longrightarrow> decide_over ag sc g gs a = decide_over ag sc g hs a"
  by (rule access_modes_eqI) (simp add: mode_bit_decide_over)

lemma group_ex: "(\<exists>x \<in> {f s | s. s \<in> S}. P x) \<longleftrightarrow> (\<exists>s \<in> S. P (f s))"
  by blast

lemma mode_bit_decide: "mode_bit (decide acl ag g inh) m \<longleftrightarrow> grants acl ag g inh m"
proof -
  let ?sc = "if inh then ACL_DEFAULT else ACL_ACCESS_TO"
  have "mode_bit (decide acl ag g inh) m \<longleftrightarrow>
    (\<exists>s \<in> t_subject ` set acl. acl_says acl s ?sc g \<and> agent_clause acl s ag
       \<and> acl_says acl s ACL_MODE (mode_iri m))"
    unfolding decide_def mode_bit_decide_over by_subject_groups group_ex
    by (simp add: has_object_group matches_agent_group)
  also have "\<dots> \<longleftrightarrow> grants acl ag g inh m"
    by (force simp: grants_def acl_says_def mk_triple_def)
  finally show ?thesis .
qed


lemma names_someone_group:
  "names_someone (filter (\<lambda>t. t_subject t = s) acl) \<longleftrightarrow> (\<exists>a. agent_clause acl s a)"
proof -
  have obj: "(case y of TermNamed _ \<Rightarrow> True | _ \<Rightarrow> False) \<longleftrightarrow> (\<exists>n. y = TermNamed n)" for y
    by (cases y) auto
  have "list_ex (\<lambda>t. t_predicate t = ACL_AGENT \<and> (case t_object t of TermNamed _ \<Rightarrow> True | _ \<Rightarrow> False))
      (filter (\<lambda>t. t_subject t = s) acl) \<longleftrightarrow> (\<exists>w. acl_says acl s ACL_AGENT w)"
    unfolding obj has_object_group [symmetric] by (auto simp: list_ex_iff has_object_iff)
  then have "names_someone (filter (\<lambda>t. t_subject t = s) acl) \<longleftrightarrow> (\<exists>w. agent_clause acl s (WebId w))"
    by (auto simp: names_someone_def has_object_group)
  moreover have "agent_clause acl s Public \<Longrightarrow> agent_clause acl s (WebId w)" for w by simp
  ultimately show ?thesis by (metis agent.exhaust)
qed

lemma has_recognized_mode_group:
  "has_recognized_mode (filter (\<lambda>t. t_subject t = s) acl) \<longleftrightarrow> (\<exists>m. acl_says acl s ACL_MODE (mode_iri m))"
proof -
  have obj: "(case y of TermNamed x \<Rightarrow> recognized_mode x \<noteq> None | _ \<Rightarrow> False) \<longleftrightarrow>
      (\<exists>m. y = TermNamed (mode_iri m))" for y
    by (cases y) (auto simp: recognized_mode_conv)
  show ?thesis
    unfolding has_recognized_mode_def obj has_object_group [symmetric]
    by (auto simp: list_ex_iff has_object_iff)
qed

lemma allows_decide:
  "allows (decide acl agent g inherited) m \<longleftrightarrow>
     grants acl agent g inherited m \<or> m = Append \<and> grants acl agent g inherited Write"
  unfolding allows_mode_bit mode_bit_decide ..

section \<open>Properties of the decision point\<close>

text \<open>C14: \<open>decide\<close> grants exactly what the document says, whatever the order of its triples
  or of the hash map's iteration: a mode is allowed iff one authorization subject
  carries the scope predicate for the governed IRI, an agent clause matching the agent,
  and that mode (for \<open>Append\<close>, that mode or \<open>Write\<close>).\<close>

theorem decide_spec:
  "allows (decide acl agent g inherited) m \<longleftrightarrow>
     grants acl agent g inherited m \<or> m = Append \<and> grants acl agent g inherited Write"
  by (rule allows_decide)

text \<open>\<open>grants_anything\<close>, which is asked in one pass, is the exact existential closure
  of \<open>decide\<close>: it answers no precisely when no agent is allowed any mode under either
  scope, so the self-denial warning is neither spurious nor missed.\<close>

theorem grants_anything_iff:
  "grants_anything acl g \<longleftrightarrow> (\<exists>agent inherited m. allows (decide acl agent g inherited) m)"
proof -
  have "grants_anything acl g \<longleftrightarrow>
    (\<exists>s \<in> t_subject ` set acl. (acl_says acl s ACL_ACCESS_TO g \<or> acl_says acl s ACL_DEFAULT g)
      \<and> (\<exists>a. agent_clause acl s a) \<and> (\<exists>m. acl_says acl s ACL_MODE (mode_iri m)))"
    unfolding grants_anything_def list_ex_iff by_subject_groups group_ex
    by (simp add: has_object_group names_someone_group has_recognized_mode_group)
  also have "\<dots> \<longleftrightarrow> (\<exists>a i m. grants acl a g i m)"
  proof
    assume "\<exists>s \<in> t_subject ` set acl. (acl_says acl s ACL_ACCESS_TO g \<or> acl_says acl s ACL_DEFAULT g)
      \<and> (\<exists>a. agent_clause acl s a) \<and> (\<exists>m. acl_says acl s ACL_MODE (mode_iri m))"
    then show "\<exists>a i m. grants acl a g i m" unfolding grants_def by metis
  next
    assume "\<exists>a i m. grants acl a g i m"
    then obtain a i m s where "acl_says acl s (if i then ACL_DEFAULT else ACL_ACCESS_TO) g"
      "agent_clause acl s a" "acl_says acl s ACL_MODE (mode_iri m)" unfolding grants_def by blast
    moreover from this(3) have "s \<in> t_subject ` set acl"
      by (force simp: acl_says_def mk_triple_def)
    ultimately show "\<exists>s \<in> t_subject ` set acl.
      (acl_says acl s ACL_ACCESS_TO g \<or> acl_says acl s ACL_DEFAULT g)
      \<and> (\<exists>a. agent_clause acl s a) \<and> (\<exists>m. acl_says acl s ACL_MODE (mode_iri m))"
      by (metis (full_types))
  qed
  also have "\<dots> \<longleftrightarrow> (\<exists>agent inherited m. allows (decide acl agent g inherited) m)"
    by (metis allows_mode_bit mode_bit_decide)
  finally show ?thesis .
qed

text \<open>Authority is monotone in the agent and in the document: whatever the public may do
  every authenticated agent may do, and a document that contains another grants at least
  as much.\<close>

theorem decide_monotone:
  assumes "set acl \<subseteq> set acl'" and "agent = agent' \<or> agent = Public"
    and "allows (decide acl agent g inherited) m"
  shows "allows (decide acl' agent' g inherited) m"
proof -
  have says: "acl_says acl s p x \<Longrightarrow> acl_says acl' s p x" for s p x
    using assms(1) by (auto simp: acl_says_def)
  have clause: "agent_clause acl s agent \<Longrightarrow> agent_clause acl' s agent'" for s
    using assms(2) says by (cases agent; cases agent') auto
  have "grants acl agent g inherited k \<Longrightarrow> grants acl' agent' g inherited k" for k
    unfolding grants_def using says clause by blast
  with assms(3) show ?thesis unfolding allows_decide by blast
qed

theorem decide_monotone_witness:
  "allows (decide [mk_triple (NamedNode ''a'') ACL_ACCESS_TO (TermNamed ''g''),
      mk_triple (NamedNode ''a'') ACL_AGENT_CLASS (TermNamed FOAF_AGENT),
      mk_triple (NamedNode ''a'') ACL_MODE (TermNamed ACL_WRITE)] (WebId ''w'') ''g'' False) Append"
proof -
  have "allows (decide [mk_triple (NamedNode ''a'') ACL_ACCESS_TO (TermNamed ''g''),
      mk_triple (NamedNode ''a'') ACL_AGENT_CLASS (TermNamed FOAF_AGENT),
      mk_triple (NamedNode ''a'') ACL_MODE (TermNamed ACL_WRITE)] Public ''g'' False) Append"
    by code_simp
  then show ?thesis by (rule decide_monotone [OF subset_refl disjI2 [OF refl]])
qed

end
