(* ===== verification/Patches.thy ===== *)
theory Patches
  imports Datasets Pdp
begin

text \<open>
  N3 Patch documents, \<^verbatim>\<open>src/patch.rs\<close>: the patterns, the access modes a patch needs,
  and \<open>Patch::parse\<close>, which refuses every document that is not shape-valid. The N3 parser
  of \<open>oxttl\<close> is the parameter \<open>n3_parse\<close>: bytes and a base IRI to the quads of the
  document or a syntax error.
\<close>

section \<open>Types\<close>

datatype patch_error = Syntax string | Shape string | Reserved_name | Rdf12Term

datatype pattern_term = PNamed iri | PLiteral literal | PVar nat

record pattern =
  p_subject :: pattern_term
  p_predicate :: pattern_term
  p_object :: pattern_term

record required_modes =
  rm_read :: bool
  rm_append :: bool
  rm_write :: bool

definition satisfied_by :: "required_modes \<Rightarrow> access_modes \<Rightarrow> bool" where
  "satisfied_by r held \<longleftrightarrow>
     (\<not> rm_read r \<or> allows held Read) \<and> (\<not> rm_append r \<or> allows held Append)
     \<and> (\<not> rm_write r \<or> allows held Write)"

record patch =
  conditions :: "pattern list"
  deletions :: "pattern list"
  insertions :: "pattern list"
  variables :: nat

definition SOLID_INSERT_DELETE_PATCH :: iri where
  "SOLID_INSERT_DELETE_PATCH = ''http://www.w3.org/ns/solid/terms#InsertDeletePatch''"
definition SOLID_WHERE :: iri where "SOLID_WHERE = ''http://www.w3.org/ns/solid/terms#where''"
definition SOLID_DELETES :: iri where "SOLID_DELETES = ''http://www.w3.org/ns/solid/terms#deletes''"
definition SOLID_INSERTS :: iri where "SOLID_INSERTS = ''http://www.w3.org/ns/solid/terms#inserts''"

text \<open>The terms and quads of \<open>oxttl::n3\<close>.\<close>

datatype n3_term =
    N3Named iri
  | N3Blank string
  | N3Literal literal
  | N3Triple triple
  | N3Variable string

record n3_quad =
  n_subject :: n3_term
  n_predicate :: n3_term
  n_object :: n3_term
  n_graph :: graph_name

section \<open>Renumbering\<close>

type_synonym renumber = "(string \<times> nat) list"

definition bind_name :: "string \<Rightarrow> renumber \<Rightarrow> nat \<times> renumber" where
  "bind_name name names =
     (case map_of names name of
        Some i \<Rightarrow> (i, names)
      | None \<Rightarrow> (length names, (name, length names) # names))"

definition lookup_name :: "string \<Rightarrow> renumber \<Rightarrow> nat option" where
  "lookup_name name names = map_of names name"

datatype binding = Bind | Lookup

section \<open>Parsing\<close>

definition patch_subject :: "n3_quad list \<Rightarrow> patch_error + n3_term" where
  "patch_subject quads =
     (let found = push_unseen [] (map n_subject (filter (\<lambda>q.
            n_graph q = DefaultGraph \<and> n_predicate q = N3Named RDF_TYPE
            \<and> n_object q = N3Named SOLID_INSERT_DELETE_PATCH) quads))
      in case found of
           [one] \<Rightarrow> Inr one
         | [] \<Rightarrow> Inl (Shape ''no solid:InsertDeletePatch resource'')
         | _ \<Rightarrow> Inl (Shape ''more than one solid:InsertDeletePatch resource''))"

definition names_a_formula :: "n3_quad list \<Rightarrow> string \<Rightarrow> bool" where
  "names_a_formula quads b = list_ex (\<lambda>q. n_graph q = GraphBlank b) quads"

definition formula :: "n3_quad list \<Rightarrow> n3_term \<Rightarrow> iri \<Rightarrow> patch_error + string option" where
  "formula quads subject predicate =
     (let found = map n_object (filter (\<lambda>q.
            n_graph q = DefaultGraph \<and> n_subject q = subject \<and> n_predicate q = N3Named predicate) quads)
      in case found of
           [] \<Rightarrow> Inr None
         | [x] \<Rightarrow>
             (case x of
                N3Blank b \<Rightarrow>
                  if names_a_formula quads b then Inr (Some b)
                  else Inl (Shape ''a formula predicate whose object is not a formula'')
              | _ \<Rightarrow> Inl (Shape ''a formula predicate whose object is not a formula''))
         | _ \<Rightarrow> Inl (Shape ''more than one of a formula predicate''))"

definition non_literal :: "pattern_term \<Rightarrow> string \<Rightarrow> patch_error + pattern_term" where
  "non_literal t violation = (case t of PLiteral _ \<Rightarrow> Inl (Shape violation) | _ \<Rightarrow> Inr t)"

fun n3_term_pattern :: "n3_term \<Rightarrow> renumber \<Rightarrow> binding \<Rightarrow> patch_error + pattern_term \<times> renumber" where
  "n3_term_pattern (N3Named n) names binding =
     (if is_reserved_iri n then Inl Reserved_name else Inr (PNamed n, names))"
| "n3_term_pattern (N3Literal l) names binding =
     (if l_direction l \<noteq> None then Inl Rdf12Term else Inr (PLiteral l, names))"
| "n3_term_pattern (N3Variable v) names binding =
     (case binding of
        Bind \<Rightarrow> (let (i, names') = bind_name v names in Inr (PVar i, names'))
      | Lookup \<Rightarrow> map_err id (ok_or (Shape ''a variable no condition binds'')
          (map_option (\<lambda>i. (PVar i, names)) (lookup_name v names))))"
| "n3_term_pattern (N3Blank b) names binding =
     (case binding of
        Bind \<Rightarrow> (let (i, names') = bind_name (''_:'' @ b) names in Inr (PVar i, names'))
      | Lookup \<Rightarrow> Inl (Shape ''a blank node in insertions or deletions''))"
| "n3_term_pattern (N3Triple t) names binding = Inl Rdf12Term"

definition quad_pattern :: "n3_quad \<Rightarrow> renumber \<Rightarrow> binding \<Rightarrow> patch_error + pattern \<times> renumber" where
  "quad_pattern q names binding =
     res_bind (n3_term_pattern (n_subject q) names binding) (\<lambda>(s0, n1).
     res_bind (non_literal s0 ''a literal in subject position'') (\<lambda>s.
     res_bind (n3_term_pattern (n_predicate q) n1 binding) (\<lambda>(p0, n2).
     res_bind (non_literal p0 ''a literal in predicate position'') (\<lambda>p.
     res_bind (n3_term_pattern (n_object q) n2 binding) (\<lambda>(x, n3).
       Inr (\<lparr>p_subject = s, p_predicate = p, p_object = x\<rparr>, n3))))))"

fun patterns_of :: "n3_quad list \<Rightarrow> renumber \<Rightarrow> binding \<Rightarrow> patch_error + pattern list \<times> renumber" where
  "patterns_of [] names binding = Inr ([], names)"
| "patterns_of (q # qs) names binding =
     res_bind (quad_pattern q names binding) (\<lambda>(p, n1).
     res_bind (patterns_of qs n1 binding) (\<lambda>(ps, n2). Inr (p # ps, n2)))"

definition patterns ::
  "n3_quad list \<Rightarrow> string option \<Rightarrow> renumber \<Rightarrow> binding \<Rightarrow> patch_error + pattern list \<times> renumber" where
  "patterns quads fm names binding =
     (case fm of
        None \<Rightarrow> Inr ([], names)
      | Some b \<Rightarrow> patterns_of (filter (\<lambda>q. n_graph q = GraphBlank b) quads) names binding)"

definition patch_parse ::
  "(string \<Rightarrow> iri \<Rightarrow> string + n3_quad list) \<Rightarrow> string \<Rightarrow> iri \<Rightarrow> patch_error + patch" where
  "patch_parse n3_parse body base =
     res_bind (map_err Syntax (n3_parse body base)) (\<lambda>quads.
     res_bind (patch_subject quads) (\<lambda>subject.
     res_bind (formula quads subject SOLID_WHERE) (\<lambda>cf.
     res_bind (formula quads subject SOLID_DELETES) (\<lambda>df.
     res_bind (formula quads subject SOLID_INSERTS) (\<lambda>inf.
     res_bind (patterns quads cf [] Bind) (\<lambda>(cs, n1).
     res_bind (patterns quads df n1 Lookup) (\<lambda>(ds, n2).
     res_bind (patterns quads inf n2 Lookup) (\<lambda>(ins, n3).
       Inr \<lparr>conditions = cs, deletions = ds, insertions = ins, variables = length n3\<rparr>))))))))"

section \<open>What a patch needs\<close>

definition required_modes_of :: "patch \<Rightarrow> required_modes" where
  "required_modes_of p = \<lparr>rm_read = conditions p \<noteq> [] \<or> deletions p \<noteq> [],
     rm_append = insertions p \<noteq> [], rm_write = deletions p \<noteq> []\<rparr>"

fun ground_insertion_list :: "pattern list \<Rightarrow> triple list option" where
  "ground_insertion_list [] = Some []"
| "ground_insertion_list (p # ps) =
     (case (p_subject p, p_predicate p) of
        (PNamed s, PNamed pr) \<Rightarrow>
          (case p_object p of
             PNamed n \<Rightarrow> map_option ((#) (mk_triple (NamedNode s) pr (TermNamed n))) (ground_insertion_list ps)
           | PLiteral l \<Rightarrow> map_option ((#) (mk_triple (NamedNode s) pr (TermLiteral l))) (ground_insertion_list ps)
           | PVar _ \<Rightarrow> None)
      | _ \<Rightarrow> None)"

definition ground_insertions :: "patch \<Rightarrow> triple list option" where
  "ground_insertions p = (if conditions p \<noteq> [] then None else ground_insertion_list (insertions p))"

section \<open>Shape validity\<close>

fun pt_vars :: "pattern_term \<Rightarrow> nat set" where
  "pt_vars (PVar i) = {i}"
| "pt_vars _ = {}"

definition pat_vars :: "pattern \<Rightarrow> nat set" where
  "pat_vars p = pt_vars (p_subject p) \<union> pt_vars (p_predicate p) \<union> pt_vars (p_object p)"

fun pt_ok :: "pattern_term \<Rightarrow> bool" where
  "pt_ok (PNamed n) \<longleftrightarrow> \<not> is_reserved_iri n"
| "pt_ok (PLiteral l) \<longleftrightarrow> l_direction l = None"
| "pt_ok (PVar i) \<longleftrightarrow> True"

fun is_literal_pt :: "pattern_term \<Rightarrow> bool" where
  "is_literal_pt (PLiteral l) \<longleftrightarrow> True"
| "is_literal_pt _ \<longleftrightarrow> False"

definition pat_ok :: "pattern \<Rightarrow> bool" where
  "pat_ok p \<longleftrightarrow> pt_ok (p_subject p) \<and> pt_ok (p_predicate p) \<and> pt_ok (p_object p)
     \<and> \<not> is_literal_pt (p_subject p) \<and> \<not> is_literal_pt (p_predicate p)"

text \<open>The renumbering map: indices are exactly \<open>0..<n\<close>.\<close>

definition name_ids :: "renumber \<Rightarrow> nat set" where
  "name_ids names = snd ` set names"

definition names_ok :: "renumber \<Rightarrow> bool" where
  "names_ok names \<longleftrightarrow> name_ids names = {..<length names}"

lemma bind_name_ok:
  assumes "bind_name v names = (i, names')" and "names_ok names"
  shows "names_ok names' \<and> name_ids names' = insert i (name_ids names)"
proof (cases "map_of names v")
  case None
  then have "name_ids names' = insert i (name_ids names)" "i = length names" "length names' = Suc i"
    using assms(1) by (auto simp: bind_name_def name_ids_def)
  with assms(2) show ?thesis by (simp add: names_ok_def lessThan_Suc)
next
  case (Some j)
  then have "j \<in> name_ids names" unfolding name_ids_def by (force dest: map_of_SomeD)
  with Some assms show ?thesis by (auto simp: bind_name_def)
qed

lemma n3_term_pattern_ok:
  assumes "n3_term_pattern t names b = Inr (x, names')" and "names_ok names"
  shows "pt_ok x \<and> names_ok names' \<and>
    (case b of Bind \<Rightarrow> name_ids names' = name_ids names \<union> pt_vars x
             | Lookup \<Rightarrow> names' = names \<and> pt_vars x \<subseteq> name_ids names)"
proof (cases t)
  case (N3Variable v)
  show ?thesis
  proof (cases b)
    case Bind
    with N3Variable assms show ?thesis
      by (auto split: prod.splits dest: bind_name_ok)
  next
    case Lookup
    with N3Variable assms(1) obtain i where i: "map_of names v = Some i" "x = PVar i" "names' = names"
      by (auto simp: lookup_name_def)
    then have "i \<in> name_ids names" unfolding name_ids_def by (force dest: map_of_SomeD)
    with Lookup i assms(2) show ?thesis by simp
  qed
next
  case (N3Blank v)
  with assms show ?thesis
    by (cases b) (auto split: prod.splits dest: bind_name_ok)
qed (use assms in \<open>auto split: if_splits binding.splits\<close>)

lemma non_literal_Inr: "non_literal t v = Inr x \<longleftrightarrow> x = t \<and> \<not> is_literal_pt t"
  by (cases t) (auto simp: non_literal_def)

lemma quad_pattern_ok:
  assumes "quad_pattern q names b = Inr (p, names')" and "names_ok names"
  shows "pat_ok p \<and> names_ok names' \<and>
    (case b of Bind \<Rightarrow> name_ids names' = name_ids names \<union> pat_vars p
             | Lookup \<Rightarrow> names' = names \<and> pat_vars p \<subseteq> name_ids names)"
proof -
  from assms(1) obtain s0 n1 s p0 n2 pr x where
    s: "n3_term_pattern (n_subject q) names b = Inr (s0, n1)" "non_literal s0 ''a literal in subject position'' = Inr s"
    and p: "n3_term_pattern (n_predicate q) n1 b = Inr (p0, n2)" "non_literal p0 ''a literal in predicate position'' = Inr pr"
    and x: "n3_term_pattern (n_object q) n2 b = Inr (x, names')"
    and eq: "p = \<lparr>p_subject = s, p_predicate = pr, p_object = x\<rparr>"
    unfolding quad_pattern_def by (clarsimp simp: res_bind_Inr)
  have lit: "s = s0 \<and> \<not> is_literal_pt s0" "pr = p0 \<and> \<not> is_literal_pt p0"
    using s(2) p(2) by (simp_all add: non_literal_Inr)
  note 1 = n3_term_pattern_ok [OF s(1) assms(2)]
  then have n1: "names_ok n1" by simp
  note 2 = n3_term_pattern_ok [OF p(1) n1]
  then have n2: "names_ok n2" by simp
  note 3 = n3_term_pattern_ok [OF x n2]
  show ?thesis
    using 1 2 3 lit eq by (cases b) (auto simp: pat_ok_def pat_vars_def)
qed

lemma patterns_of_ok:
  assumes "patterns_of qs names b = Inr (ps, names')" and "names_ok names"
  shows "(\<forall>p \<in> set ps. pat_ok p) \<and> names_ok names' \<and>
    (case b of Bind \<Rightarrow> name_ids names' = name_ids names \<union> \<Union> (pat_vars ` set ps)
             | Lookup \<Rightarrow> names' = names \<and> \<Union> (pat_vars ` set ps) \<subseteq> name_ids names)"
  using assms
proof (induction qs arbitrary: names ps)
  case Nil
  then show ?case by (cases b) auto
next
  case (Cons q qs)
  from Cons.prems(1) obtain p n1 ps' where
    p: "quad_pattern q names b = Inr (p, n1)" and ps: "patterns_of qs n1 b = Inr (ps', names')"
    and eq: "ps = p # ps'"
    by (auto simp: res_bind_Inr)
  note 1 = quad_pattern_ok [OF p Cons.prems(2)]
  then have "names_ok n1" by simp
  from Cons.IH [OF ps this] 1 eq show ?case by (cases b) auto
qed

lemma patterns_ok:
  assumes "patterns qs f names b = Inr (ps, names')" and "names_ok names"
  shows "(\<forall>p \<in> set ps. pat_ok p) \<and> names_ok names' \<and>
    (case b of Bind \<Rightarrow> name_ids names' = name_ids names \<union> \<Union> (pat_vars ` set ps)
             | Lookup \<Rightarrow> names' = names \<and> \<Union> (pat_vars ` set ps) \<subseteq> name_ids names)"
proof (cases f)
  case None
  with assms show ?thesis by (cases b) (auto simp: patterns_def)
next
  case (Some x)
  with assms(1) have "patterns_of (filter (\<lambda>q. n_graph q = GraphBlank x) qs) names b = Inr (ps, names')"
    by (simp add: patterns_def)
  from patterns_of_ok [OF this assms(2)] show ?thesis .
qed

definition wf_patch :: "patch \<Rightarrow> bool" where
  "wf_patch P \<longleftrightarrow>
     (\<forall>p \<in> set (conditions P) \<union> set (deletions P) \<union> set (insertions P). pat_ok p)
     \<and> \<Union> (pat_vars ` set (conditions P)) = {..<variables P}
     \<and> \<Union> (pat_vars ` (set (deletions P) \<union> set (insertions P))) \<subseteq> {..<variables P}"

lemma patch_parse_wf: "patch_parse n3 body base = Inr P \<Longrightarrow> wf_patch P"
proof -
  assume "patch_parse n3 body base = Inr P"
  then obtain quads cf df inf cs n1 ds n2 ins n3' where
    c: "patterns quads cf [] Bind = Inr (cs, n1)" and d: "patterns quads df n1 Lookup = Inr (ds, n2)"
    and i: "patterns quads inf n2 Lookup = Inr (ins, n3')"
    and eq: "P = \<lparr>conditions = cs, deletions = ds, insertions = ins, variables = length n3'\<rparr>"
    unfolding patch_parse_def by (auto simp: res_bind_Inr)
  have e: "names_ok []" "name_ids [] = {}" by (simp_all add: names_ok_def name_ids_def)
  note 1 = patterns_ok [OF c e(1)]
  then have n1: "names_ok n1" by simp
  note 2 = patterns_ok [OF d n1]
  with n1 have n2: "names_ok n2" by simp
  note 3 = patterns_ok [OF i n2]
  show ?thesis
    using 1 2 3 e(2) eq unfolding wf_patch_def names_ok_def by auto
qed

lemma ground_insertion_list_Some:
  "\<forall>p \<in> set ps. pat_ok p \<and> pat_vars p = {} \<Longrightarrow> ground_insertion_list ps \<noteq> None"
proof (induction ps)
  case (Cons p ps)
  then have "pat_ok p" "pat_vars p = {}" by simp_all
  then obtain s pr where "p_subject p = PNamed s" "p_predicate p = PNamed pr" "\<And>i. p_object p \<noteq> PVar i"
    by (cases "p_subject p"; cases "p_predicate p"; cases "p_object p") (auto simp: pat_ok_def pat_vars_def)
  with Cons show ?case by (cases "p_object p") auto
qed simp

section \<open>Properties\<close>

text \<open>C26: A document \<open>Patch::parse\<close> accepts is shape-valid: no literal stands in subject or
  predicate position, no reserved IRI and no directional literal occurs in any formula,
  the conditions' variables are numbered \<open>0..<n\<close> without gaps, and deletions and
  insertions use no variable a condition does not bind. In particular, a patch has ground
  insertions exactly when it has no conditions.\<close>

theorem patch_parse_shape:
  assumes "patch_parse n3_parse body base = Inr P"
  shows "wf_patch P \<and> (ground_insertions P \<noteq> None \<longleftrightarrow> conditions P = [])"
proof
  show wf: "wf_patch P" by (rule patch_parse_wf [OF assms])
  show "ground_insertions P \<noteq> None \<longleftrightarrow> conditions P = []"
  proof (cases "conditions P = []")
    case True
    with wf have "variables P = 0" by (auto simp: wf_patch_def)
    with wf have "\<forall>p \<in> set (insertions P). pat_ok p \<and> pat_vars p = {}" by (auto simp: wf_patch_def)
    with ground_insertion_list_Some True show ?thesis by (simp add: ground_insertions_def)
  qed (simp add: ground_insertions_def)
qed

theorem patch_parse_shape_witness:
  "wf_patch \<lparr>conditions = [], deletions = [],
     insertions = [\<lparr>p_subject = PNamed ''s'', p_predicate = PNamed ''p'', p_object = PNamed ''o''\<rparr>], variables = 0\<rparr>"
proof -
  let ?n3 = "\<lambda>(_::string) (_::string). Inr
    [\<lparr>n_subject = N3Blank ''x'', n_predicate = N3Named RDF_TYPE,
        n_object = N3Named SOLID_INSERT_DELETE_PATCH, n_graph = DefaultGraph\<rparr>,
      \<lparr>n_subject = N3Blank ''x'', n_predicate = N3Named SOLID_INSERTS, n_object = N3Blank ''f'', n_graph = DefaultGraph\<rparr>,
      \<lparr>n_subject = N3Named ''s'', n_predicate = N3Named ''p'', n_object = N3Named ''o'', n_graph = GraphBlank ''f''\<rparr>]
    :: string + n3_quad list"
  have "patch_parse ?n3 '''' '''' = Inr \<lparr>conditions = [], deletions = [],
     insertions = [\<lparr>p_subject = PNamed ''s'', p_predicate = PNamed ''p'', p_object = PNamed ''o''\<rparr>], variables = 0\<rparr>"
    by code_simp
  from patch_parse_shape [OF this] show ?thesis by simp
qed

lemma satisfied_by_required:
  "satisfied_by (required_modes_of P) held \<longleftrightarrow>
     (conditions P \<noteq> [] \<or> deletions P \<noteq> [] \<longrightarrow> allows held Read) \<and>
     (insertions P \<noteq> [] \<longrightarrow> allows held Append) \<and> (deletions P \<noteq> [] \<longrightarrow> allows held Write)"
  by (auto simp: satisfied_by_def required_modes_of_def)

end
