(* ===== verification/Sparql.thy ===== *)
theory Sparql
  imports Patches
begin

text \<open>
  The SPARQL endpoint of \<^verbatim>\<open>src/store.rs\<close>. The sources write updates and queries as text;
  the model writes each shape of update and query the sources issue as a constructor of
  \<open>sop\<close> or as an operation of the \<open>backend\<close> record, with the SPARQL 1.1 meaning given
  by \<open>exec_op\<close> on graphs of triples.

  The store itself (oxigraph) is outside the repository: it is the parameter \<open>backend\<close>,
  and the locale \<open>sparql_backend\<close> states what the trait \<open>SparqlStore\<close> documents of every
  implementor: a \<open>;\<close>-sequence takes effect as a whole or not at all, and reads answer
  from the graphs. Every operation may fail with a \<open>store_error\<close>. \<open>mem_backend\<close> is an
  executable store that satisfies the contract.
\<close>

section \<open>Patterns\<close>

type_synonym solution = "(nat \<times> rdf_term) list"

fun term_vars :: "pattern_term \<Rightarrow> nat list" where
  "term_vars (PVar i) = [i]"
| "term_vars _ = []"

definition pattern_vars :: "pattern list \<Rightarrow> nat list" where
  "pattern_vars ps =
     remdups (concat (map (\<lambda>p. term_vars (p_subject p) @ term_vars (p_predicate p) @ term_vars (p_object p)) ps))"

fun bound_term :: "solution \<Rightarrow> pattern_term \<Rightarrow> rdf_term option" where
  "bound_term \<sigma> (PNamed n) = Some (TermNamed n)"
| "bound_term \<sigma> (PLiteral l) = Some (TermLiteral l)"
| "bound_term \<sigma> (PVar i) = map_of \<sigma> i"

fun term_node :: "rdf_term \<Rightarrow> node option" where
  "term_node (TermNamed n) = Some (NamedNode n)"
| "term_node (TermBlank b) = Some (BlankNode b)"
| "term_node _ = None"

fun node_term :: "node \<Rightarrow> rdf_term" where
  "node_term (NamedNode n) = TermNamed n"
| "node_term (BlankNode b) = TermBlank b"

definition pattern_holds :: "solution \<Rightarrow> triple set \<Rightarrow> pattern \<Rightarrow> bool" where
  "pattern_holds \<sigma> G p \<longleftrightarrow> (\<exists>t \<in> G. bound_term \<sigma> (p_subject p) = Some (node_term (t_subject t))
     \<and> bound_term \<sigma> (p_predicate p) = Some (TermNamed (t_predicate t))
     \<and> bound_term \<sigma> (p_object p) = Some (t_object t))"

text \<open>The solutions of a basic graph pattern: each binds the pattern's variables, in order.\<close>

definition solutions :: "triple set \<Rightarrow> pattern list \<Rightarrow> solution set" where
  "solutions G ps = {\<sigma>. map fst \<sigma> = pattern_vars ps \<and> (\<forall>p \<in> set ps. pattern_holds \<sigma> G p)}"

text \<open>Ground text of a patch may put any term in any position; \<open>raw\<close> is such a triple, and
  only those with a node, an IRI and a term are triples. A pattern with another raw triple
  matches nothing, and a template with one inserts nothing for it.\<close>

type_synonym raw = "rdf_term \<times> rdf_term \<times> rdf_term"

definition raw_of :: "triple \<Rightarrow> raw" where
  "raw_of t = (node_term (t_subject t), TermNamed (t_predicate t), t_object t)"

fun raw_triple :: "raw \<Rightarrow> triple option" where
  "raw_triple (s, TermNamed p, x) = map_option (\<lambda>n. mk_triple n p x) (term_node s)"
| "raw_triple _ = None"

lemma term_node_iff: "term_node x = Some n \<longleftrightarrow> x = node_term n"
  by (cases x; cases n) auto

lemma raw_triple_iff: "raw_triple r = Some t \<longleftrightarrow> r = raw_of t"
proof -
  obtain s p x where r: "r = (s, p, x)" by (cases r)
  show ?thesis
    by (cases p) (auto simp: r raw_of_def term_node_iff)
qed

lemma raw_of_inject [simp]: "raw_of t = raw_of t' \<longleftrightarrow> t = t'"
  by (metis option.inject raw_triple_iff)

section \<open>Updates\<close>

datatype store_error = Backend string

type_synonym block = "iri \<times> triple list"
type_synonym graphs = "iri \<Rightarrow> triple set"

text \<open>A guard is absent or \<open>FILTER EXISTS { GRAPH <g> { t } }\<close>.\<close>

type_synonym guard = "(iri \<times> triple) option"

datatype sop =
    DropSilent iri                                   \<comment> \<open>\<open>DROP SILENT GRAPH <g>\<close>\<close>
  | InsertData "block list"                          \<comment> \<open>\<open>INSERT DATA { GRAPH <g> { .. } .. }\<close>\<close>
  | DeleteData iri "triple list"                     \<comment> \<open>\<open>DELETE DATA { GRAPH <g> { .. } }\<close>\<close>
  | ClearWhere iri guard                             \<comment> \<open>\<open>DELETE { GRAPH <g> { ?s ?p ?o } } WHERE { GRAPH <g> { ?s ?p ?o } guard }\<close>\<close>
  | InsertWhere "block list" guard                   \<comment> \<open>\<open>INSERT { GRAPH <g> { .. } .. } WHERE { guard }\<close>\<close>
  | ModifyGround iri "raw list" "raw list" guard \<comment> \<open>\<open>WITH <g> DELETE { d } INSERT { i } WHERE { d guard }\<close>\<close>

definition guard_holds :: "guard \<Rightarrow> graphs \<Rightarrow> bool" where
  "guard_holds gd G = (case gd of None \<Rightarrow> True | Some (g, t) \<Rightarrow> t \<in> G g)"

fun insert_blocks :: "block list \<Rightarrow> graphs \<Rightarrow> graphs" where
  "insert_blocks [] G = G"
| "insert_blocks ((g, ts) # bs) G = insert_blocks bs (G(g := G g \<union> set ts))"

fun exec_op :: "sop \<Rightarrow> graphs \<Rightarrow> graphs" where
  "exec_op (DropSilent g) G = G(g := {})"
| "exec_op (InsertData bs) G = insert_blocks bs G"
| "exec_op (DeleteData g ts) G = G(g := G g - set ts)"
| "exec_op (ClearWhere g gd) G = (if guard_holds gd G then G(g := {}) else G)"
| "exec_op (InsertWhere bs gd) G = (if guard_holds gd G then insert_blocks bs G else G)"
| "exec_op (ModifyGround g d i gd) G =
     (if set d \<subseteq> raw_of ` G g \<and> guard_holds gd G
      then G(g := {t \<in> G g. raw_of t \<notin> set d} \<union> set (List.map_filter raw_triple i)) else G)"

fun exec :: "sop list \<Rightarrow> graphs \<Rightarrow> graphs" where
  "exec [] G = G"
| "exec (u # us) G = exec us (exec_op u G)"

lemma exec_append [simp]: "exec (us @ vs) G = exec vs (exec us G)"
  by (induction us arbitrary: G) auto

lemma exec_drops: "exec (map DropSilent gs) G = (\<lambda>h. if h \<in> set gs then {} else G h)"
  by (induction gs arbitrary: G) (auto simp: fun_eq_iff)

lemma insert_blocks_iff:
  "t \<in> insert_blocks bs G h \<longleftrightarrow> t \<in> G h \<or> (\<exists>ts. (h, ts) \<in> set bs \<and> t \<in> set ts)"
proof (induction bs arbitrary: G)
  case (Cons b bs)
  obtain g ts where b: "b = (g, ts)" by (cases b)
  show ?case by (cases "g = h") (auto simp: b Cons)
qed simp

lemma insert_blocks_other: "h \<notin> fst ` set bs \<Longrightarrow> insert_blocks bs G h = G h"
  by (induction bs arbitrary: G) auto

section \<open>The endpoint\<close>

definition SYS_PRESENT :: iri where "SYS_PRESENT = ''urn:quadpod:sys#present''"

definition XSD_TRUE :: literal where
  "XSD_TRUE = \<lparr>l_value = ''true'', l_datatype = ''http://www.w3.org/2001/XMLSchema#boolean'',
     l_language = None, l_direction = None\<rparr>"

text \<open>\<open><g> sys:present true\<close>.\<close>

definition present_triple :: "iri \<Rightarrow> triple" where
  "present_triple g = mk_triple (NamedNode g) SYS_PRESENT (TermLiteral XSD_TRUE)"

text \<open>
  The operations of the trait, one field per shape of query the sources send:
  \<open>update\<close>; \<open>ask\<close> of \<open>ASK { GRAPH <g> { ts } }\<close>; \<open>query_triples\<close> of the whole graph and
  of one subject's one predicate; \<open>query_solutions\<close> of the presence query
  (\<open>VALUES (?sys ?g)\<close>), of several graphs at once (\<open>VALUES ?g\<close>) and of a patch's
  conditions with \<open>LIMIT 2\<close>; and the capability \<open>rdf_version\<close>.
\<close>

record 'db backend =
  b_update :: "'db \<Rightarrow> sop list \<Rightarrow> store_error + 'db"
  b_ask :: "'db \<Rightarrow> iri \<Rightarrow> raw list \<Rightarrow> store_error + bool"
  b_graph :: "'db \<Rightarrow> iri \<Rightarrow> store_error + triple list"
  b_objects :: "'db \<Rightarrow> iri \<Rightarrow> iri \<Rightarrow> iri \<Rightarrow> store_error + triple list"
  b_present :: "'db \<Rightarrow> (iri \<times> iri) list \<Rightarrow> store_error + iri list"
  b_graphs :: "'db \<Rightarrow> iri list \<Rightarrow> store_error + (iri \<times> triple) list"
  b_match :: "'db \<Rightarrow> iri \<Rightarrow> pattern list \<Rightarrow> store_error + solution list"
  b_version :: rdf_version

locale sparql_backend =
  fixes B :: "'db backend" and abs :: "'db \<Rightarrow> graphs"
  assumes finite_graph: "finite (abs db g)"
    and update_ok: "b_update B db us = Inr db' \<Longrightarrow> abs db' = exec us (abs db)"
    and ask_ok: "b_ask B db g rs = Inr b \<Longrightarrow> b \<longleftrightarrow> set rs \<subseteq> raw_of ` abs db g"
    and graph_ok: "b_graph B db g = Inr ts \<Longrightarrow> distinct ts \<and> set ts = abs db g"
    and objects_ok: "b_objects B db g s p = Inr ts \<Longrightarrow>
      set ts = {t \<in> abs db g. t_subject t = NamedNode s \<and> t_predicate t = p}"
    and present_ok: "b_present B db ps = Inr gs \<Longrightarrow>
      set gs = {g. \<exists>sys. (sys, g) \<in> set ps \<and> present_triple g \<in> abs db sys}"
    and graphs_ok: "b_graphs B db gs = Inr rows \<Longrightarrow>
      set rows = {(g, t). g \<in> set gs \<and> t \<in> abs db g}"
    and match_ok: "b_match B db g pats = Inr sols \<Longrightarrow>
      distinct sols \<and> set sols \<subseteq> solutions (abs db g) pats
      \<and> length sols = min 2 (card (solutions (abs db g) pats))"

section \<open>An executable store\<close>

text \<open>Quads as a list without duplicates.\<close>

type_synonym mem_db = "(iri \<times> triple) list"

definition mem_abs :: "mem_db \<Rightarrow> graphs" where
  "mem_abs db g = {t. (g, t) \<in> set db}"

definition mem_graph :: "mem_db \<Rightarrow> iri \<Rightarrow> triple list" where
  "mem_graph db g = remdups (map snd (filter (\<lambda>(h, t). h = g) db))"

definition mem_insert :: "iri \<Rightarrow> triple list \<Rightarrow> mem_db \<Rightarrow> mem_db" where
  "mem_insert g ts db = db @ map (Pair g) ts"

definition mem_remove :: "iri \<Rightarrow> (triple \<Rightarrow> bool) \<Rightarrow> mem_db \<Rightarrow> mem_db" where
  "mem_remove g P db = filter (\<lambda>(h, t). \<not> (h = g \<and> P t)) db"

definition mem_guard :: "guard \<Rightarrow> mem_db \<Rightarrow> bool" where
  "mem_guard gd db = (case gd of None \<Rightarrow> True | Some (g, t) \<Rightarrow> (g, t) \<in> set db)"

fun mem_blocks :: "block list \<Rightarrow> mem_db \<Rightarrow> mem_db" where
  "mem_blocks [] db = db"
| "mem_blocks ((g, ts) # bs) db = mem_blocks bs (mem_insert g ts db)"

fun mem_op :: "sop \<Rightarrow> mem_db \<Rightarrow> mem_db" where
  "mem_op (DropSilent g) db = mem_remove g (\<lambda>_. True) db"
| "mem_op (InsertData bs) db = mem_blocks bs db"
| "mem_op (DeleteData g ts) db = mem_remove g (\<lambda>t. t \<in> set ts) db"
| "mem_op (ClearWhere g gd) db = (if mem_guard gd db then mem_remove g (\<lambda>_. True) db else db)"
| "mem_op (InsertWhere bs gd) db = (if mem_guard gd db then mem_blocks bs db else db)"
| "mem_op (ModifyGround g d i gd) db =
     (if list_all (\<lambda>r. r \<in> raw_of ` set (mem_graph db g)) d \<and> mem_guard gd db
      then mem_insert g (List.map_filter raw_triple i) (mem_remove g (\<lambda>t. raw_of t \<in> set d) db) else db)"

definition mem_terms :: "triple list \<Rightarrow> rdf_term list" where
  "mem_terms ts = remdups (concat (map (\<lambda>t. [node_term (t_subject t), TermNamed (t_predicate t), t_object t]) ts))"

definition mem_solutions :: "triple list \<Rightarrow> pattern list \<Rightarrow> solution list" where
  "mem_solutions ts ps =
     (let vs = pattern_vars ps in
      filter (\<lambda>\<sigma>. list_all (pattern_holds \<sigma> (set ts)) ps)
        (map (zip vs) (List.n_lists (length vs) (mem_terms ts))))"

definition mem_backend :: "mem_db backend" where
  "mem_backend = \<lparr>
     b_update = (\<lambda>db us. Inr (fold mem_op us db)),
     b_ask = (\<lambda>db g rs. Inr (list_all (\<lambda>r. r \<in> raw_of ` set (mem_graph db g)) rs)),
     b_graph = (\<lambda>db g. Inr (mem_graph db g)),
     b_objects = (\<lambda>db g s p. Inr (filter (\<lambda>t. t_subject t = NamedNode s \<and> t_predicate t = p) (mem_graph db g))),
     b_present = (\<lambda>db ps. Inr (map snd (filter (\<lambda>(sys, g). (sys, present_triple g) \<in> set db) ps))),
     b_graphs = (\<lambda>db gs. Inr (filter (\<lambda>(g, t). g \<in> set gs) (remdups db))),
     b_match = (\<lambda>db g ps. Inr (take 2 (mem_solutions (mem_graph db g) ps))),
     b_version = Rdf12\<rparr>"

lemma mem_abs_remove: "mem_abs (mem_remove g P db) = (mem_abs db)(g := {t \<in> mem_abs db g. \<not> P t})"
  by (auto simp: mem_abs_def mem_remove_def fun_eq_iff)

lemma mem_abs_insert: "mem_abs (mem_insert g ts db) = (mem_abs db)(g := mem_abs db g \<union> set ts)"
  by (auto simp: mem_abs_def mem_insert_def fun_eq_iff)

lemma mem_abs_blocks: "mem_abs (mem_blocks bs db) = insert_blocks bs (mem_abs db)"
  by (induction bs db rule: mem_blocks.induct) (simp_all add: mem_abs_insert fun_upd_def)

lemma mem_guard_holds: "mem_guard gd db = guard_holds gd (mem_abs db)"
  by (auto simp: mem_guard_def guard_holds_def mem_abs_def split: option.splits)

lemma set_mem_graph: "set (mem_graph db g) = mem_abs db g"
  by (force simp: mem_graph_def mem_abs_def)

lemma mem_abs_op: "mem_abs (mem_op u db) = exec_op u (mem_abs db)"
proof (cases u)
  case (ModifyGround g d i gd)
  have "list_all (\<lambda>r. r \<in> raw_of ` set (mem_graph db g)) d \<longleftrightarrow> set d \<subseteq> raw_of ` mem_abs db g"
    by (auto simp: list_all_iff set_mem_graph)
  then show ?thesis
    by (auto simp: ModifyGround mem_abs_remove mem_abs_insert mem_guard_holds)
qed (auto simp: mem_abs_remove mem_abs_blocks mem_guard_holds fun_eq_iff)

lemma mem_abs_fold: "mem_abs (fold mem_op us db) = exec us (mem_abs db)"
  by (induction us arbitrary: db) (auto simp: mem_abs_op)

lemma mem_solutions_ok:
  "distinct (mem_solutions ts ps) \<and> set (mem_solutions ts ps) = solutions (set ts) ps"
proof
  let ?vs = "pattern_vars ps"
  have inj: "inj_on (zip ?vs) (set (List.n_lists (length ?vs) (mem_terms ts)))"
    by (rule inj_onI) (metis length_n_lists_elem map_snd_zip)
  show "distinct (mem_solutions ts ps)"
    using inj by (simp add: mem_solutions_def Let_def distinct_map distinct_n_lists mem_terms_def)
  have in_terms: "set (map snd \<sigma>) \<subseteq> set (mem_terms ts)" if \<sigma>: "\<sigma> \<in> solutions (set ts) ps" for \<sigma>
  proof
    fix x assume "x \<in> set (map snd \<sigma>)"
    then obtain i where i: "(i, x) \<in> set \<sigma>" by auto
    have "distinct (map fst \<sigma>)" using \<sigma> by (simp add: solutions_def pattern_vars_def)
    with i have \<sigma>i: "map_of \<sigma> i = Some x" by simp
    have "i \<in> set ?vs" using i \<sigma> by (metis (mono_tags, lifting) fst_conv image_eqI image_set mem_Collect_eq solutions_def)
    then obtain p where p: "p \<in> set ps"
      "i \<in> set (term_vars (p_subject p) @ term_vars (p_predicate p) @ term_vars (p_object p))"
      by (auto simp: pattern_vars_def)
    then obtain y where y: "y \<in> {p_subject p, p_predicate p, p_object p}" "y = PVar i"
      by (cases "p_subject p"; cases "p_predicate p"; cases "p_object p") auto
    from \<sigma> p(1) obtain t where "t \<in> set ts"
      "bound_term \<sigma> (p_subject p) = Some (node_term (t_subject t))"
      "bound_term \<sigma> (p_predicate p) = Some (TermNamed (t_predicate t))"
      "bound_term \<sigma> (p_object p) = Some (t_object t)"
      by (auto simp: solutions_def pattern_holds_def)
    moreover have "bound_term \<sigma> y = Some x" using y \<sigma>i by simp
    ultimately have "x \<in> {node_term (t_subject t), TermNamed (t_predicate t), t_object t}"
      using y(1) by auto
    with \<open>t \<in> set ts\<close> show "x \<in> set (mem_terms ts)" by (auto simp: mem_terms_def)
  qed
  show "set (mem_solutions ts ps) = solutions (set ts) ps"
  proof (intro set_eqI iffI)
    fix \<sigma> assume "\<sigma> \<in> set (mem_solutions ts ps)"
    then show "\<sigma> \<in> solutions (set ts) ps"
      by (auto simp: mem_solutions_def Let_def solutions_def list_all_iff length_n_lists_elem)
  next
    fix \<sigma> assume \<sigma>: "\<sigma> \<in> solutions (set ts) ps"
    then have fst: "map fst \<sigma> = ?vs" by (simp add: solutions_def)
    then have "\<sigma> = zip ?vs (map snd \<sigma>)" by (metis zip_map_fst_snd)
    moreover have "length (map snd \<sigma>) = length ?vs" using fst by (metis length_map)
    moreover have "set (map snd \<sigma>) \<subseteq> set (mem_terms ts)" by (rule in_terms [OF \<sigma>])
    ultimately have "\<sigma> \<in> zip ?vs ` set (List.n_lists (length ?vs) (mem_terms ts))"
      by (metis (mono_tags, lifting) imageI mem_Collect_eq set_n_lists)
    with \<sigma> show "\<sigma> \<in> set (mem_solutions ts ps)"
      by (auto simp: mem_solutions_def Let_def solutions_def list_all_iff)
  qed
qed


lemma finite_solutions: "finite (solutions (mem_abs db g) ps)"
  using mem_solutions_ok [of "mem_graph db g" ps] by (metis List.finite_set set_mem_graph)

interpretation mem: sparql_backend mem_backend mem_abs
proof
  fix db :: mem_db and g
  have "mem_abs db g \<subseteq> snd ` set db" by (force simp: mem_abs_def)
  then show "finite (mem_abs db g)" by (rule finite_subset) simp
next
  fix db us db' assume "b_update mem_backend db us = Inr db'"
  then show "mem_abs db' = exec us (mem_abs db)" by (auto simp: mem_backend_def mem_abs_fold)
next
  fix db g ts b assume "b_ask mem_backend db g ts = Inr b"
  then show "b \<longleftrightarrow> set ts \<subseteq> raw_of ` mem_abs db g"
    by (auto simp: mem_backend_def list_all_iff set_mem_graph)
next
  fix db g ts assume "b_graph mem_backend db g = Inr ts"
  then show "distinct ts \<and> set ts = mem_abs db g"
    by (auto simp: mem_backend_def set_mem_graph) (simp add: mem_graph_def)
next
  fix db g s p ts assume "b_objects mem_backend db g s p = Inr ts"
  then show "set ts = {t \<in> mem_abs db g. t_subject t = NamedNode s \<and> t_predicate t = p}"
    by (auto simp: mem_backend_def set_mem_graph)
next
  fix db ps gs assume "b_present mem_backend db ps = Inr gs"
  then show "set gs = {g. \<exists>sys. (sys, g) \<in> set ps \<and> present_triple g \<in> mem_abs db sys}"
    by (force simp: mem_backend_def mem_abs_def)
next
  fix db gs rows assume "b_graphs mem_backend db gs = Inr rows"
  then show "set rows = {(g, t). g \<in> set gs \<and> t \<in> mem_abs db g}"
    by (auto simp: mem_backend_def mem_abs_def)
next
  fix db g pats sols assume "b_match mem_backend db g pats = Inr sols"
  then have sols: "sols = take 2 (mem_solutions (mem_graph db g) pats)" by (simp add: mem_backend_def)
  have all: "distinct (mem_solutions (mem_graph db g) pats)"
    "set (mem_solutions (mem_graph db g) pats) = solutions (mem_abs db g) pats"
    using mem_solutions_ok [of "mem_graph db g" pats] by (simp_all add: set_mem_graph)
  then have "length (mem_solutions (mem_graph db g) pats) = card (solutions (mem_abs db g) pats)"
    by (metis distinct_card)
  with sols all show "distinct sols \<and> set sols \<subseteq> solutions (mem_abs db g) pats
      \<and> length sols = min 2 (card (solutions (mem_abs db g) pats))"
    by (auto dest: in_set_takeD)
qed

text \<open>The executable store never fails.\<close>

lemma mem_backend_total:
  "b_update mem_backend db us = Inr (fold mem_op us db)"
  "b_ask mem_backend db g rs = Inr (list_all (\<lambda>r. r \<in> raw_of ` set (mem_graph db g)) rs)"
  "b_graph mem_backend db g = Inr (mem_graph db g)"
  by (simp_all add: mem_backend_def)

end
