(* ===== verification/Shelves.thy ===== *)
theory Shelves
  imports Space Sparql
begin

text \<open>
  Storage addresses and bytes: the shelf keys of \<^verbatim>\<open>src/shelf.rs\<close>, and the blob keys and
  the \<open>BlobStore\<close> of \<^verbatim>\<open>src/blob.rs\<close>. SHA-256 is the parameter \<open>sha256_hex\<close>;
  \<open>object_store\<close>'s \<open>Path::from\<close> is the parameter \<open>path_from\<close> and its backend the record
  \<open>objects\<close>, whose documented behaviour is the locale \<open>object_backend\<close>. The locale
  \<open>blob_store\<close> is the obligation the trait states of every implementor, and
  \<open>ObjectStoreBlobs\<close> is shown to meet it over any such backend.
\<close>

section \<open>Shelf keys\<close>

definition SYS_HAS_SUBGRAPH :: iri where "SYS_HAS_SUBGRAPH = ''urn:quadpod:sys#hasSubgraph''"
definition SYS_GRAPH_NAME :: iri where "SYS_GRAPH_NAME = ''urn:quadpod:sys#graphName''"
definition SYS_MEDIA_TYPE :: iri where "SYS_MEDIA_TYPE = ''urn:quadpod:sys#mediaType''"

definition SHELF_PREFIX :: string where "SHELF_PREFIX = ''urn:quadpod:subgraph:''"

definition shelf_key :: "(string \<Rightarrow> string) \<Rightarrow> iri \<Rightarrow> iri \<Rightarrow> iri" where
  "shelf_key sha256_hex resource_iri graph_name =
     SHELF_PREFIX @ sha256_hex (resource_iri @ [CHR 0x00] @ graph_name)"

section \<open>Blob keys\<close>

datatype blob_error = BlobBackend string

definition MAX_SEGMENT_BYTES :: nat where "MAX_SEGMENT_BYTES = 255"
definition MAX_PATH_BYTES :: nat where "MAX_PATH_BYTES = 1024"

definition blob_key :: "(string \<Rightarrow> string) \<Rightarrow> resource_url \<Rightarrow> string option" where
  "blob_key path_from r =
     (let rel = trim_start_matches (CHR ''/'') (r_path r) in
      if ends_with ''/'' rel then None
      else let path = path_from rel in
        if length path > MAX_PATH_BYTES then None
        else if list_ex (\<lambda>p. length p > MAX_SEGMENT_BYTES) (split_on (CHR ''/'') path) then None
        else Some path)"

section \<open>The blob store\<close>

datatype object_error = NotFound | OtherError string

record 'bl objects =
  o_put :: "'bl \<Rightarrow> string \<Rightarrow> string \<Rightarrow> object_error + 'bl"
  o_get :: "'bl \<Rightarrow> string \<Rightarrow> object_error + string"
  o_delete :: "'bl \<Rightarrow> string \<Rightarrow> object_error + 'bl"

definition object_message :: "object_error \<Rightarrow> string" where
  "object_message e = (case e of NotFound \<Rightarrow> ''not found'' | OtherError m \<Rightarrow> m)"

definition blobs_put :: "'bl objects \<Rightarrow> 'bl \<Rightarrow> string \<Rightarrow> string \<Rightarrow> blob_error + 'bl" where
  "blobs_put os bl key bytes = map_err (\<lambda>e. BlobBackend (object_message e)) (o_put os bl key bytes)"

definition blobs_get :: "'bl objects \<Rightarrow> 'bl \<Rightarrow> string \<Rightarrow> blob_error + string option" where
  "blobs_get os bl key =
     (case o_get os bl key of
        Inr bytes \<Rightarrow> Inr (Some bytes)
      | Inl NotFound \<Rightarrow> Inr None
      | Inl e \<Rightarrow> Inl (BlobBackend (object_message e)))"

definition blobs_delete :: "'bl objects \<Rightarrow> 'bl \<Rightarrow> string \<Rightarrow> blob_error + 'bl" where
  "blobs_delete os bl key =
     (case o_delete os bl key of
        Inr bl' \<Rightarrow> Inr bl'
      | Inl NotFound \<Rightarrow> Inr bl
      | Inl e \<Rightarrow> Inl (BlobBackend (object_message e)))"

text \<open>What \<open>object_store\<close> documents: a whole-object put, and \<open>NotFound\<close> for absence.\<close>

locale object_backend =
  fixes os :: "'bl objects" and babs :: "'bl \<Rightarrow> string \<Rightarrow> string option"
  assumes o_put_ok: "o_put os bl k v = Inr bl' \<Longrightarrow> babs bl' = (babs bl)(k := Some v)"
    and o_get_ok: "o_get os bl k = Inr v \<Longrightarrow> babs bl k = Some v"
    and o_get_none: "o_get os bl k = Inl NotFound \<Longrightarrow> babs bl k = None"
    and o_delete_ok: "o_delete os bl k = Inr bl' \<Longrightarrow> babs bl' = (babs bl)(k := None)"
    and o_delete_none: "o_delete os bl k = Inl NotFound \<Longrightarrow> babs bl k = None"

text \<open>The obligation of \<open>BlobStore\<close>.\<close>

locale blob_store =
  fixes put :: "'bl \<Rightarrow> string \<Rightarrow> string \<Rightarrow> blob_error + 'bl"
    and get :: "'bl \<Rightarrow> string \<Rightarrow> blob_error + string option"
    and delete :: "'bl \<Rightarrow> string \<Rightarrow> blob_error + 'bl"
    and contents :: "'bl \<Rightarrow> string \<Rightarrow> string option"
  assumes put_ok: "put bl k v = Inr bl' \<Longrightarrow> contents bl' = (contents bl)(k := Some v)"
    and get_ok: "get bl k = Inr r \<Longrightarrow> r = contents bl k"
    and delete_ok: "delete bl k = Inr bl' \<Longrightarrow> contents bl' = (contents bl)(k := None)"
begin

lemma put_get: "put bl k v = Inr bl' \<Longrightarrow> get bl' k' = Inr r \<Longrightarrow> r = (if k' = k then Some v else contents bl k')"
  by (metis fun_upd_apply get_ok put_ok)

lemma delete_get: "delete bl k = Inr bl' \<Longrightarrow> get bl' k' = Inr r \<Longrightarrow> r = (if k' = k then None else contents bl k')"
  by (metis fun_upd_apply get_ok delete_ok)

end

sublocale object_backend \<subseteq> blobs: blob_store "blobs_put os" "blobs_get os" "blobs_delete os" babs
proof
  fix bl k v bl' assume "blobs_put os bl k v = Inr bl'"
  then show "babs bl' = (babs bl)(k := Some v)" by (auto simp: blobs_put_def dest: o_put_ok)
next
  fix bl k r assume "blobs_get os bl k = Inr r"
  then show "r = babs bl k"
    by (auto simp: blobs_get_def dest: o_get_ok o_get_none split: sum.splits object_error.splits)
next
  fix bl k bl' assume "blobs_delete os bl k = Inr bl'"
  then show "babs bl' = (babs bl)(k := None)"
    by (auto simp: blobs_delete_def fun_eq_iff dest: o_delete_ok o_delete_none
        split: sum.splits object_error.splits)
qed

text \<open>An in-memory object store: an association list.\<close>

type_synonym mem_bl = "(string \<times> string) list"

definition mem_objects :: "mem_bl objects" where
  "mem_objects = \<lparr>
     o_put = (\<lambda>bl k v. Inr ((k, v) # bl)),
     o_get = (\<lambda>bl k. case map_of bl k of None \<Rightarrow> Inl NotFound | Some v \<Rightarrow> Inr v),
     o_delete = (\<lambda>bl k. if map_of bl k = None then Inl NotFound
       else Inr (filter (\<lambda>(k', v). k' \<noteq> k) bl))\<rparr>"

lemma map_of_filter_key: "map_of (filter (\<lambda>(k', v). k' \<noteq> k) bl) = (map_of bl)(k := None)"
  by (induction bl) (auto simp: fun_eq_iff)

interpretation mem_blobs: object_backend mem_objects map_of
  by unfold_locales
    (auto simp: mem_objects_def map_of_filter_key split: option.splits if_splits)

section \<open>Properties of the addresses\<close>

text \<open>Two named graphs share a shelf only if they are the same graph of the same
  resource: the NUL separator cannot occur in an IRI, so the hashed pair is recoverable
  and no resource can read or write another's named graph.\<close>

theorem shelf_key_injective:
  assumes "inj sha256_hex" and "CHR 0x00 \<notin> set r" and "CHR 0x00 \<notin> set r'"
    and "shelf_key sha256_hex r n = shelf_key sha256_hex r' n'"
  shows "r = r' \<and> n = n'"
proof -
  have "r @ CHR 0x00 # n = r' @ CHR 0x00 # n'"
    using assms(1,4) by (simp add: shelf_key_def inj_eq)
  then show ?thesis using append_delim_inj [OF assms(2,3)] by simp
qed

theorem shelf_key_injective_witness:
  "shelf_key id ''http://h/a'' ''urn:g'' \<noteq> shelf_key id ''http://h/a'' ''urn:k''"
proof
  assume "shelf_key id ''http://h/a'' ''urn:g'' = shelf_key id ''http://h/a'' ''urn:k''"
  from shelf_key_injective [OF _ _ _ this] show False by simp
qed

text \<open>The root is the one container whose path does not end in a slash once its leading slash
  is trimmed: it does get a blob key, against the rule that a container never has one.\<close>

lemma blob_key_root: "blob_key (\<lambda>p. p) \<lparr>r_path = ''/'', r_iri = ''http://h/''\<rparr> = Some []"
  by code_simp

end
