(* ===== verification/Resources.thy ===== *)
theory Resources
  imports Shelves
begin

text \<open>
  Graph-level storage, \<^verbatim>\<open>src/resource.rs\<close>. The world holds the state of the SPARQL
  store, of the blob store and the number of UUIDs drawn; an operation returns a result or
  a \<open>resource_error\<close> together with the world it leaves, so what a failure leaves behind is
  part of the model. \<open>env\<close> collects the code outside the repository.

  A graph is named by its IRI: the sources' \<open>GraphName\<close> parameters only contribute
  \<open>graph_iri\<close>.
\<close>

section \<open>Environment, world and errors\<close>

record ('db, 'bl) env =
  e_store :: "'db backend"
  e_objects :: "'bl objects"
  e_mint :: "nat \<Rightarrow> string"
  e_sha :: "string \<Rightarrow> string"
  e_path_from :: "string \<Rightarrow> string"
  e_valid_iri :: "string \<Rightarrow> bool"
  e_header_ok :: "string \<Rightarrow> bool"

record ('db, 'bl) world =
  w_db :: 'db
  w_blobs :: 'bl
  w_draws :: nat

datatype rdf_error =
    ParseError string
  | SerializeError string
  | UnsupportedType
  | UnsupportedRdfVersion rdf_version rdf_version

text \<open>\<open>Panicked\<close> is the value of an \<open>expect\<close> that fires.\<close>

datatype resource_error =
    InvalidIri
  | RdfErr rdf_error
  | StoreErr store_error
  | BlobErr blob_error
  | KeyTooLong
  | BinaryWithoutMediaType
  | Panicked

definition of_space_error :: "space_error \<Rightarrow> resource_error" where
  "of_space_error e = InvalidIri"

definition SYS_BINARY_RESOURCE :: iri where "SYS_BINARY_RESOURCE = ''urn:quadpod:sys#BinaryResource''"

datatype kind = KindRdf | KindBinary media_type_rec

definition SYS_PREFIX :: string where "SYS_PREFIX = ''urn:quadpod:sys:''"

definition sys_graph_iri :: "iri \<Rightarrow> iri" where "sys_graph_iri g = SYS_PREFIX @ g"

definition st_update ::
  "('db, 'bl) env \<Rightarrow> sop list \<Rightarrow> (('db, 'bl) world, resource_error, unit) op" where
  "st_update E us w =
     (case b_update (e_store E) (w_db w) us of
        Inl e \<Rightarrow> (Inl (StoreErr e), w)
      | Inr db \<Rightarrow> (Inr (), w\<lparr>w_db := db\<rparr>))"

definition st_read ::
  "('db \<Rightarrow> store_error + 'a) \<Rightarrow> (('db, 'bl) world, resource_error, 'a) op" where
  "st_read f w = (map_err StoreErr (f (w_db w)), w)"

definition bl_put ::
  "('db, 'bl) env \<Rightarrow> string \<Rightarrow> string \<Rightarrow> (('db, 'bl) world, resource_error, unit) op" where
  "bl_put E key bytes w =
     (case blobs_put (e_objects E) (w_blobs w) key bytes of
        Inl e \<Rightarrow> (Inl (BlobErr e), w)
      | Inr bl \<Rightarrow> (Inr (), w\<lparr>w_blobs := bl\<rparr>))"

definition bl_delete ::
  "('db, 'bl) env \<Rightarrow> string \<Rightarrow> (('db, 'bl) world, resource_error, unit) op" where
  "bl_delete E key w =
     (case blobs_delete (e_objects E) (w_blobs w) key of
        Inl e \<Rightarrow> (Inl (BlobErr e), w)
      | Inr bl \<Rightarrow> (Inr (), w\<lparr>w_blobs := bl\<rparr>))"

text \<open>\<open>Skolemized::skolemize\<close> drawing fresh UUIDs from the world.\<close>

definition w_skolemize ::
  "('db, 'bl) env \<Rightarrow> dataset \<Rightarrow> (('db, 'bl) world, resource_error, skolemized) op" where
  "w_skolemize E d w =
     (let (gs, st) = skolem_quads (\<lambda>n. e_mint E (w_draws w + n)) d \<lparr>sk_minted = [], sk_next = 0\<rparr>
      in (Inr gs, w\<lparr>w_draws := w_draws w + sk_next st\<rparr>))"

section \<open>Presence\<close>

definition exists_op :: "('db, 'bl) env \<Rightarrow> iri \<Rightarrow> (('db, 'bl) world, resource_error, bool) op" where
  "exists_op E g =
     st_read (\<lambda>db. b_ask (e_store E) db (sys_graph_iri g) [raw_of (present_triple g)])"

definition exists_many ::
  "('db, 'bl) env \<Rightarrow> iri list \<Rightarrow> (('db, 'bl) world, resource_error, iri set) op" where
  "exists_many E gs =
     (if gs = [] then op_ok {}
      else op_bind (st_read (\<lambda>db. b_present (e_store E) db (map (\<lambda>g. (sys_graph_iri g, g)) gs)))
        (\<lambda>rows. op_ok (set rows)))"

section \<open>Writing\<close>

definition ground_triple :: "ground_quad \<Rightarrow> triple" where
  "ground_triple q = mk_triple (NamedNode (g_subject q)) (g_predicate q) (term_of_ground (g_object q))"

definition serialize_for_insert :: "skolemized \<Rightarrow> triple list" where
  "serialize_for_insert quads = map ground_triple quads"

text \<open>The buckets of \<open>put_dataset\<close>: the default graph, and one shelf per graph name.\<close>

type_synonym shelf = "iri \<times> iri \<times> triple list"

fun shelf_push :: "iri \<Rightarrow> iri \<Rightarrow> triple \<Rightarrow> shelf list \<Rightarrow> shelf list" where
  "shelf_push key n t [] = [(key, n, [t])]"
| "shelf_push key n t ((k, m, ts) # rest) =
     (if k = key then (k, m, ts @ [t]) # rest else (k, m, ts) # shelf_push key n t rest)"

fun split_quads :: "(iri \<Rightarrow> iri) \<Rightarrow> skolemized \<Rightarrow> triple list \<Rightarrow> shelf list \<Rightarrow> triple list \<times> shelf list" where
  "split_quads key_of [] df sh = (df, sh)"
| "split_quads key_of (q # qs) df sh =
     (case g_graph q of
        GroundDefault \<Rightarrow> split_quads key_of qs (df @ [ground_triple q]) sh
      | GroundGraph n \<Rightarrow> split_quads key_of qs df (shelf_push (key_of n) n (ground_triple q) sh))"

definition registered_shelves ::
  "('db, 'bl) env \<Rightarrow> iri \<Rightarrow> (('db, 'bl) world, resource_error, iri list) op" where
  "registered_shelves E iri =
     op_bind (st_read (\<lambda>db. b_objects (e_store E) db (sys_graph_iri iri) iri SYS_HAS_SUBGRAPH))
       (\<lambda>ts. op_ok (List.map_filter (\<lambda>t. case t_object t of TermNamed n \<Rightarrow> Some n | _ \<Rightarrow> None) ts))"

definition registry_triples :: "iri \<Rightarrow> string \<Rightarrow> shelf list \<Rightarrow> triple list" where
  "registry_triples iri mt shelves =
     [present_triple iri, mk_triple (NamedNode iri) SYS_MEDIA_TYPE (TermLiteral (simple_literal mt))]
     @ concat (map (\<lambda>(key, name, _).
         [mk_triple (NamedNode iri) SYS_HAS_SUBGRAPH (TermNamed key),
          mk_triple (NamedNode key) SYS_GRAPH_NAME (TermNamed name)]) shelves)"

definition put_dataset_update :: "iri \<Rightarrow> iri list \<Rightarrow> triple list \<Rightarrow> shelf list \<Rightarrow> string \<Rightarrow> sop list" where
  "put_dataset_update iri registered df shelves mt =
     map DropSilent registered @ map (\<lambda>(key, _, _). DropSilent key) shelves
     @ [DropSilent iri, DropSilent (sys_graph_iri iri),
        InsertData ((iri, df) # map (\<lambda>(key, _, ts). (key, ts)) shelves),
        InsertData [(sys_graph_iri iri, registry_triples iri mt shelves)]]"

definition put_dataset ::
  "('db, 'bl) env \<Rightarrow> resource_url \<Rightarrow> skolemized \<Rightarrow> format \<Rightarrow> (('db, 'bl) world, resource_error, unit) op" where
  "put_dataset E r dataset fmt =
     (let iri = r_iri r;
          (df, shelves) = split_quads (shelf_key (e_sha E) iri) dataset [] []
      in op_bind (registered_shelves E iri) (\<lambda>registered.
           if list_ex (\<lambda>(key, name, _). \<not> e_valid_iri E name) shelves then op_err InvalidIri
           else op_bind (st_update E (put_dataset_update iri registered df shelves (format_media_type fmt))) (\<lambda>_.
             case blob_key (e_path_from E) r of
               Some key \<Rightarrow> bl_delete E key
             | None \<Rightarrow> op_ok ())))"

definition put_blob_update :: "iri \<Rightarrow> iri list \<Rightarrow> string \<Rightarrow> sop list" where
  "put_blob_update iri registered mt =
     map DropSilent registered
     @ [DropSilent iri, DropSilent (sys_graph_iri iri),
        InsertData [(sys_graph_iri iri,
          [present_triple iri, mk_triple (NamedNode iri) RDF_TYPE (TermNamed SYS_BINARY_RESOURCE),
           mk_triple (NamedNode iri) SYS_MEDIA_TYPE (TermLiteral (simple_literal mt))])]]"

definition put_blob ::
  "('db, 'bl) env \<Rightarrow> resource_url \<Rightarrow> string \<Rightarrow> media_type_rec \<Rightarrow> (('db, 'bl) world, resource_error, unit) op" where
  "put_blob E r bytes mt =
     (case blob_key (e_path_from E) r of
        None \<Rightarrow> op_err KeyTooLong
      | Some key \<Rightarrow>
          op_bind (registered_shelves E (r_iri r)) (\<lambda>shelves.
          op_bind (bl_put E key bytes) (\<lambda>_.
            st_update E (put_blob_update (r_iri r) shelves (mt_raw mt)))))"

definition as_quads :: "triple list \<Rightarrow> dataset" where
  "as_quads ts = map (\<lambda>t. \<lparr>q_subject = t_subject t, q_predicate = t_predicate t,
     q_object = t_object t, q_graph = DefaultGraph\<rparr>) ts"

definition put_rdf_update :: "iri \<Rightarrow> triple list \<Rightarrow> sop list" where
  "put_rdf_update iri body =
     [DropSilent iri, InsertData [(iri, body)],
      InsertData [(sys_graph_iri iri, [present_triple iri])]]"

definition put_rdf ::
  "('db, 'bl) env \<Rightarrow> iri \<Rightarrow> triple list \<Rightarrow> (('db, 'bl) world, resource_error, unit) op" where
  "put_rdf E iri triples =
     op_bind (w_skolemize E (as_quads triples)) (\<lambda>sk.
       st_update E (put_rdf_update iri (serialize_for_insert sk)))"

definition insert_marked_update :: "iri \<Rightarrow> triple list \<Rightarrow> sop list" where
  "insert_marked_update iri body =
     [InsertData [(iri, body)], InsertData [(sys_graph_iri iri, [present_triple iri])]]"

definition insert_marked ::
  "('db, 'bl) env \<Rightarrow> iri \<Rightarrow> skolemized \<Rightarrow> (('db, 'bl) world, resource_error, unit) op" where
  "insert_marked E iri quads = st_update E (insert_marked_update iri (serialize_for_insert quads))"

definition delete_rdf_update :: "iri \<Rightarrow> sop list" where
  "delete_rdf_update iri = [DropSilent iri, DropSilent (sys_graph_iri iri)]"

definition delete_rdf :: "('db, 'bl) env \<Rightarrow> iri \<Rightarrow> (('db, 'bl) world, resource_error, bool) op" where
  "delete_rdf E iri =
     op_bind (exists_op E iri) (\<lambda>existed.
     op_bind (st_update E (delete_rdf_update iri)) (\<lambda>_. op_ok existed))"

section \<open>Reading\<close>

definition stored_media_type ::
  "('db, 'bl) env \<Rightarrow> iri \<Rightarrow> (('db, 'bl) world, resource_error, media_type_rec option) op" where
  "stored_media_type E iri =
     op_bind (st_read (\<lambda>db. b_objects (e_store E) db (sys_graph_iri iri) iri SYS_MEDIA_TYPE))
       (\<lambda>ts. op_ok (find_map (\<lambda>t. case t_object t of
          TermLiteral l \<Rightarrow> media_type_parse (e_header_ok E) (l_value l) | _ \<Rightarrow> None) ts))"

definition kind_of :: "('db, 'bl) env \<Rightarrow> iri \<Rightarrow> (('db, 'bl) world, resource_error, kind option) op" where
  "kind_of E iri =
     op_bind (exists_op E iri) (\<lambda>present.
       if \<not> present then op_ok None
       else op_bind (st_read (\<lambda>db. b_ask (e_store E) db (sys_graph_iri iri)
              [raw_of (mk_triple (NamedNode iri) RDF_TYPE (TermNamed SYS_BINARY_RESOURCE))])) (\<lambda>binary.
         if \<not> binary then op_ok (Some KindRdf)
         else op_bind (stored_media_type E iri) (\<lambda>mt.
           case mt of
             None \<Rightarrow> op_err BinaryWithoutMediaType
           | Some m \<Rightarrow> op_ok (Some (KindBinary m)))))"

definition get_rdf ::
  "('db, 'bl) env \<Rightarrow> iri \<Rightarrow> (('db, 'bl) world, resource_error, triple list option) op" where
  "get_rdf E iri =
     op_bind (exists_op E iri) (\<lambda>present.
       if \<not> present then op_ok None
       else op_bind (st_read (\<lambda>db. b_graph (e_store E) db iri)) (\<lambda>ts. op_ok (Some ts)))"

definition with_graph :: "graph_name \<Rightarrow> triple list \<Rightarrow> quad list" where
  "with_graph g ts = map (\<lambda>t. \<lparr>q_subject = t_subject t, q_predicate = t_predicate t,
     q_object = t_object t, q_graph = g\<rparr>) ts"

fun read_shelves ::
  "('db, 'bl) env \<Rightarrow> iri \<Rightarrow> iri list \<Rightarrow> (('db, 'bl) world, resource_error, quad list) op" where
  "read_shelves E iri [] = op_ok []"
| "read_shelves E iri (k # ks) =
     op_bind (st_read (\<lambda>db. b_objects (e_store E) db (sys_graph_iri iri) k SYS_GRAPH_NAME)) (\<lambda>names.
       case find_map (\<lambda>t. case t_object t of
              TermNamed n \<Rightarrow> if e_valid_iri E n then Some n else None | _ \<Rightarrow> None) names of
         None \<Rightarrow> op_err InvalidIri
       | Some name \<Rightarrow>
           op_bind (st_read (\<lambda>db. b_graph (e_store E) db k)) (\<lambda>ts.
           op_bind (read_shelves E iri ks) (\<lambda>rest.
             op_ok (with_graph (GraphNamed name) ts @ rest))))"

definition get_dataset ::
  "('db, 'bl) env \<Rightarrow> iri \<Rightarrow> (('db, 'bl) world, resource_error, skolemized option) op" where
  "get_dataset E iri =
     op_bind (exists_op E iri) (\<lambda>present.
       if \<not> present then op_ok None
       else op_bind (st_read (\<lambda>db. b_graph (e_store E) db iri)) (\<lambda>ts.
         op_bind (registered_shelves E iri) (\<lambda>keys.
         op_bind (read_shelves E iri keys) (\<lambda>rest.
           case from_store (with_graph DefaultGraph ts @ rest) of
             None \<Rightarrow> op_err Panicked
           | Some sk \<Rightarrow> op_ok (Some sk)))))"

section \<open>Patching\<close>

datatype patch_result = Applied | NoMapping | SeveralMappings | DeletionMissing

definition render_bound :: "rdf_term \<Rightarrow> resource_error + rdf_term" where
  "render_bound t =
     (case t of
        TermNamed n \<Rightarrow> Inr (TermNamed n)
      | TermLiteral l \<Rightarrow> Inr (TermLiteral l)
      | _ \<Rightarrow> Inl (StoreErr (Backend ''a solution bound a term the store cannot hold'')))"

fun ground_pterm :: "pattern_term \<Rightarrow> solution list \<Rightarrow> resource_error + rdf_term" where
  "ground_pterm (PNamed n) bindings = Inr (TermNamed n)"
| "ground_pterm (PLiteral l) bindings = Inr (TermLiteral l)"
| "ground_pterm (PVar i) bindings =
     (case (case bindings of [] \<Rightarrow> None | s # _ \<Rightarrow> map_of s i) of
        None \<Rightarrow> Inl (StoreErr (Backend ''a projected variable came back unbound''))
      | Some t \<Rightarrow> render_bound t)"

fun substitute :: "pattern list \<Rightarrow> solution list \<Rightarrow> resource_error + raw list" where
  "substitute [] bindings = Inr []"
| "substitute (p # ps) bindings =
     res_bind (ground_pterm (p_subject p) bindings) (\<lambda>s.
     res_bind (ground_pterm (p_predicate p) bindings) (\<lambda>pr.
     res_bind (ground_pterm (p_object p) bindings) (\<lambda>x.
     res_bind (substitute ps bindings) (\<lambda>rest. Inr ((s, pr, x) # rest)))))"

definition patch_guarded ::
  "('db, 'bl) env \<Rightarrow> iri \<Rightarrow> patch \<Rightarrow> guard \<Rightarrow> (('db, 'bl) world, resource_error, patch_result) op" where
  "patch_guarded E iri P gd =
     op_bind
       (if conditions P = [] then op_ok (Inr [])
        else op_bind (st_read (\<lambda>db. b_match (e_store E) db iri (conditions P))) (\<lambda>sols.
          op_ok (case sols of [] \<Rightarrow> Inl NoMapping | [s] \<Rightarrow> Inr [s] | _ \<Rightarrow> Inl SeveralMappings)))
       (\<lambda>r. case r of
          Inl refused \<Rightarrow> op_ok refused
        | Inr bindings \<Rightarrow>
            op_bind (op_res (substitute (deletions P) bindings)) (\<lambda>ds.
            op_bind (op_res (substitute (insertions P) bindings)) (\<lambda>ins.
              if ds = [] \<and> ins = [] then op_ok Applied
              else op_bind (if ds = [] then op_ok False
                       else st_read (\<lambda>db. b_ask (e_store E) db iri ds)) (\<lambda>before.
                op_bind (st_update E [ModifyGround iri ds ins gd]) (\<lambda>_.
                  if ds \<noteq> [] \<and> \<not> before then op_ok DeletionMissing else op_ok Applied)))))"

definition patch_dataset ::
  "('db, 'bl) env \<Rightarrow> iri \<Rightarrow> patch \<Rightarrow> (('db, 'bl) world, resource_error, patch_result) op" where
  "patch_dataset E iri P = patch_guarded E iri P None"


section \<open>Names of graphs\<close>

text \<open>User graphs are HTTP IRIs; the server's own are URNs with distinct prefixes.\<close>

definition http_iri :: "iri \<Rightarrow> bool" where "http_iri g \<longleftrightarrow> prefix ''http'' g"

lemma sys_graph_iri_inject [simp]: "sys_graph_iri a = sys_graph_iri b \<longleftrightarrow> a = b"
  by (simp add: sys_graph_iri_def)

lemma http_not_sys [simp]: "http_iri a \<Longrightarrow> a \<noteq> sys_graph_iri b" "http_iri a \<Longrightarrow> sys_graph_iri b \<noteq> a"
  by (auto simp: http_iri_def sys_graph_iri_def SYS_PREFIX_def)

lemma shelf_not_sys [simp]:
  "prefix SHELF_PREFIX k \<Longrightarrow> k \<noteq> sys_graph_iri b" "prefix SHELF_PREFIX k \<Longrightarrow> sys_graph_iri b \<noteq> k"
  by (auto simp: sys_graph_iri_def SYS_PREFIX_def SHELF_PREFIX_def)

lemma http_not_shelf [simp]:
  "http_iri a \<Longrightarrow> prefix SHELF_PREFIX k \<Longrightarrow> a \<noteq> k" "http_iri a \<Longrightarrow> prefix SHELF_PREFIX k \<Longrightarrow> k \<noteq> a"
  by (auto simp: http_iri_def SHELF_PREFIX_def prefix_def)

lemma shelf_key_prefix [simp]: "prefix SHELF_PREFIX (shelf_key h r n)"
  by (simp add: shelf_key_def)

lemma shelf_key_inj: "inj h \<Longrightarrow> inj (shelf_key h r)"
  by (rule injI) (simp add: shelf_key_def inj_eq)

section \<open>The storage contract\<close>

text \<open>A pod over a SPARQL store and an object store that keep their documented contracts.\<close>

locale pod =
  sparql_backend "e_store E" sabs + object_backend "e_objects E" babs
  for E :: "('db, 'bl) env" and sabs :: "'db \<Rightarrow> graphs" and babs :: "'bl \<Rightarrow> string \<Rightarrow> string option"
begin

lemma st_update_ok:
  "st_update E us w = (Inr x, w') \<Longrightarrow>
     sabs (w_db w') = exec us (sabs (w_db w)) \<and> w_blobs w' = w_blobs w \<and> w_draws w' = w_draws w"
  by (auto simp: st_update_def dest: update_ok split: sum.splits)

lemma st_update_err: "st_update E us w = (Inl e, w') \<Longrightarrow> w' = w \<and> (\<exists>se. e = StoreErr se)"
  by (auto simp: st_update_def split: sum.splits)

lemma st_read_ok: "st_read f w = (Inr x, w') \<Longrightarrow> w' = w \<and> f (w_db w) = Inr x"
  by (auto simp: st_read_def)

lemma st_read_err: "st_read f w = (Inl e, w') \<Longrightarrow> w' = w \<and> (\<exists>se. e = StoreErr se)"
  by (cases "f (w_db w)") (auto simp: st_read_def)

lemma bl_delete_ok:
  "bl_delete E k w = (Inr x, w') \<Longrightarrow> w_db w' = w_db w \<and> babs (w_blobs w') = (babs (w_blobs w))(k := None)"
  by (auto simp: bl_delete_def dest: blobs.delete_ok split: sum.splits)

lemma bl_delete_err: "bl_delete E k w = (Inl e, w') \<Longrightarrow> w' = w"
  by (auto simp: bl_delete_def split: sum.splits)

lemma bl_put_ok:
  "bl_put E k v w = (Inr x, w') \<Longrightarrow> w_db w' = w_db w \<and> babs (w_blobs w') = (babs (w_blobs w))(k := Some v)"
  by (auto simp: bl_put_def dest: blobs.put_ok split: sum.splits)

lemma bl_put_err: "bl_put E k v w = (Inl e, w') \<Longrightarrow> w' = w"
  by (auto simp: bl_put_def split: sum.splits)

text \<open>Presence of a graph is its marker in the system graph.\<close>

definition present :: "('db, 'bl) world \<Rightarrow> iri \<Rightarrow> bool" where
  "present w g \<longleftrightarrow> present_triple g \<in> sabs (w_db w) (sys_graph_iri g)"

lemma exists_op_ok: "exists_op E g w = (Inr b, w') \<Longrightarrow> w' = w \<and> (b \<longleftrightarrow> present w g)"
  unfolding exists_op_def by (auto dest!: st_read_ok ask_ok simp: present_def)

lemma exists_op_err: "exists_op E g w = (Inl e, w') \<Longrightarrow> w' = w \<and> (\<exists>se. e = StoreErr se)"
  unfolding exists_op_def by (rule st_read_err)

lemma exists_many_ok:
  "exists_many E gs w = (Inr S, w') \<Longrightarrow> w' = w \<and> S = {g \<in> set gs. present w g}"
  unfolding exists_many_def
  by (force simp: present_def split: if_splits dest!: st_read_ok present_ok elim!: op_bind_InrE)

lemma get_rdf_ok:
  assumes "get_rdf E g w = (Inr r, w')"
  shows "w' = w \<and> (r = None \<longleftrightarrow> \<not> present w g) \<and>
    (\<forall>ts. r = Some ts \<longrightarrow> distinct ts \<and> set ts = sabs (w_db w) g)"
  using assms unfolding get_rdf_def
  by (auto elim!: op_bind_InrE dest!: exists_op_ok st_read_ok graph_ok split: if_splits)

lemma registered_shelves_ok:
  assumes "registered_shelves E iri w = (Inr ks, w')"
  shows "w' = w \<and> set ks = {k. mk_triple (NamedNode iri) SYS_HAS_SUBGRAPH (TermNamed k) \<in> sabs (w_db w) (sys_graph_iri iri)}"
proof -
  from assms obtain ts where ts: "b_objects (e_store E) (w_db w) (sys_graph_iri iri) iri SYS_HAS_SUBGRAPH = Inr ts"
    and ks: "ks = List.map_filter (\<lambda>t. case t_object t of TermNamed n \<Rightarrow> Some n | _ \<Rightarrow> None) ts" and w: "w' = w"
    unfolding registered_shelves_def by (auto elim!: op_bind_InrE dest!: st_read_ok)
  have "k \<in> set ks \<longleftrightarrow> (\<exists>t \<in> set ts. t_object t = TermNamed k)" for k
  proof -
    have "(case x of TermNamed n \<Rightarrow> Some n | _ \<Rightarrow> None) = Some k \<longleftrightarrow> x = TermNamed k" for x
      by (cases x) auto
    then show ?thesis unfolding ks set_map_filter_iff by simp
  qed
  moreover have "(\<exists>t \<in> set ts. t_object t = TermNamed k) \<longleftrightarrow>
      mk_triple (NamedNode iri) SYS_HAS_SUBGRAPH (TermNamed k) \<in> sabs (w_db w) (sys_graph_iri iri)" for k
    unfolding objects_ok [OF ts]
    by (auto intro: bexI [of _ "mk_triple (NamedNode iri) SYS_HAS_SUBGRAPH (TermNamed k)"])
       (metis mk_triple_collapse)
  ultimately show ?thesis using w by blast
qed

lemma registered_shelves_err:
  "registered_shelves E iri w = (Inl e, w') \<Longrightarrow> w' = w \<and> (\<exists>se. e = StoreErr se)"
  unfolding registered_shelves_def by (auto elim!: op_bind_cases dest: st_read_err st_read_ok)

end

section \<open>Splitting a dataset\<close>

definition in_graph :: "skolemized \<Rightarrow> ground_graph \<Rightarrow> triple set" where
  "in_graph ds g = ground_triple ` {q \<in> set ds. g_graph q = g}"

definition shelves_ok :: "(iri \<Rightarrow> iri) \<Rightarrow> skolemized \<Rightarrow> shelf list \<Rightarrow> bool" where
  "shelves_ok key_of ds sh \<longleftrightarrow> distinct (map fst sh) \<and>
     (\<forall>(k, n, ts) \<in> set sh. k = key_of n \<and> set ts = in_graph ds (GroundGraph n)) \<and>
     (\<lambda>(k, n, ts). n) ` set sh = {n. \<exists>q \<in> set ds. g_graph q = GroundGraph n}"

lemma shelf_push_keys:
  "map fst (shelf_push k n t sh) = (if k \<in> fst ` set sh then map fst sh else map fst sh @ [k])"
  by (induction k n t sh rule: shelf_push.induct) auto

lemma shelf_push_mem:
  assumes "distinct (map fst sh)"
  shows "(k', n', ts') \<in> set (shelf_push k n t sh) \<longleftrightarrow>
    (k' \<noteq> k \<and> (k', n', ts') \<in> set sh) \<or>
    (k' = k \<and> ((\<exists>ts. (k, n', ts) \<in> set sh \<and> ts' = ts @ [t]) \<or> (k \<notin> fst ` set sh \<and> n' = n \<and> ts' = [t])))"
  using assms by (induction k n t sh rule: shelf_push.induct) (auto simp: rev_image_eqI)

lemma shelves_ok_entry:
  "shelves_ok key_of ds sh \<Longrightarrow> (k, m, ts) \<in> set sh \<Longrightarrow> k = key_of m \<and> set ts = in_graph ds (GroundGraph m)"
  by (auto simp: shelves_ok_def)

lemma shelf_names: "(\<lambda>(k, n, ts). n) ` set sh = {m. \<exists>k ts. (k, m, ts) \<in> set sh}"
  by force

lemma shelves_ok_names:
  "shelves_ok key_of ds sh \<Longrightarrow> (\<exists>k ts. (k, m, ts) \<in> set sh) \<longleftrightarrow> (\<exists>q \<in> set ds. g_graph q = GroundGraph m)"
  unfolding shelves_ok_def shelf_names by blast

lemma shelves_ok_key:
  assumes "shelves_ok key_of ds sh" and "inj key_of"
  shows "key_of n \<in> fst ` set sh \<longleftrightarrow> (\<exists>ts. (key_of n, n, ts) \<in> set sh)"
proof
  assume "key_of n \<in> fst ` set sh"
  then obtain m ts where e: "(key_of n, m, ts) \<in> set sh" by force
  with shelves_ok_entry [OF assms(1)] have "m = n" using assms(2) by (metis injD)
  with e show "\<exists>ts. (key_of n, n, ts) \<in> set sh" by blast
qed force

lemma in_graph_snoc:
  "g_graph q = GroundGraph n \<Longrightarrow> in_graph (ds @ [q]) (GroundGraph m) =
     (if m = n then insert (ground_triple q) (in_graph ds (GroundGraph m)) else in_graph ds (GroundGraph m))"
  by (auto simp: in_graph_def)

lemma shelf_push_entry:
  assumes ok: "shelves_ok key_of ds sh" and inj: "inj key_of" and q: "g_graph q = GroundGraph n"
    and mem: "(k, m, ts) \<in> set (shelf_push (key_of n) n (ground_triple q) sh)"
  shows "k = key_of m \<and> set ts = in_graph (ds @ [q]) (GroundGraph m)"
proof -
  note ent = shelves_ok_entry [OF ok] and grow = in_graph_snoc [OF q]
  have dist: "distinct (map fst sh)" using ok by (simp add: shelves_ok_def)
  consider "k \<noteq> key_of n" "(k, m, ts) \<in> set sh"
    | ts0 where "k = key_of n" "(key_of n, m, ts0) \<in> set sh" "ts = ts0 @ [ground_triple q]"
    | "k = key_of n" "key_of n \<notin> fst ` set sh" "m = n" "ts = [ground_triple q]"
    using mem unfolding shelf_push_mem [OF dist] by blast
  then show ?thesis
  proof cases
    case 1
    with ent have "m \<noteq> n" by auto
    with 1 ent grow show ?thesis by simp
  next
    case 2
    with ent have m: "m = n" using inj by (metis injD)
    have "set ts0 = in_graph ds (GroundGraph n)" using ent [OF 2(2)] m by simp
    with 2 m show ?thesis by (simp add: grow)
  next
    case 3
    then have "in_graph ds (GroundGraph n) = {}"
      using shelves_ok_names [OF ok, of n] ent shelves_ok_key [OF ok inj] by (auto simp: in_graph_def)
    with 3 grow show ?thesis by simp
  qed
qed

lemma shelf_push_names:
  assumes ok: "shelves_ok key_of ds sh" and inj: "inj key_of"
  shows "(\<exists>k ts. (k, m, ts) \<in> set (shelf_push (key_of n) n t sh)) \<longleftrightarrow> m = n \<or> (\<exists>k ts. (k, m, ts) \<in> set sh)"
proof (cases "m = n")
  case True
  have dist: "distinct (map fst sh)" using ok by (simp add: shelves_ok_def)
  have "\<exists>ts. (key_of n, n, ts) \<in> set (shelf_push (key_of n) n t sh)"
    unfolding shelf_push_mem [OF dist] using shelves_ok_key [OF ok inj, of n] by blast
  with True show ?thesis by blast
next
  case False
  have dist: "distinct (map fst sh)" using ok by (simp add: shelves_ok_def)
  have other: "k \<noteq> key_of n" if "(k, m, ts) \<in> set sh" for k ts
    using shelves_ok_entry [OF ok that] False inj by (metis injD)
  show ?thesis unfolding shelf_push_mem [OF dist] using False other by blast
qed

lemma shelves_ok_push:
  assumes ok: "shelves_ok key_of ds sh" and inj: "inj key_of" and q: "g_graph q = GroundGraph n"
  shows "shelves_ok key_of (ds @ [q]) (shelf_push (key_of n) n (ground_triple q) sh)"
proof -
  have "{m. \<exists>k ts. (k, m, ts) \<in> set (shelf_push (key_of n) n (ground_triple q) sh)} = {m. \<exists>r \<in> set (ds @ [q]). g_graph r = GroundGraph m}"
    unfolding shelf_push_names [OF ok inj] shelves_ok_names [OF ok] using q by auto
  moreover have "distinct (map fst (shelf_push (key_of n) n (ground_triple q) sh))"
    using ok by (simp add: shelves_ok_def shelf_push_keys)
  ultimately show ?thesis using shelf_push_entry [OF ok inj q] unfolding shelves_ok_def shelf_names by auto
qed

lemma split_quads_ok:
  assumes "inj key_of" and "shelves_ok key_of ds0 sh" and "set df = in_graph ds0 GroundDefault"
    and "split_quads key_of ds df sh = (df', sh')"
  shows "shelves_ok key_of (ds0 @ ds) sh' \<and> set df' = in_graph (ds0 @ ds) GroundDefault"
  using assms(2-)
proof (induction ds arbitrary: ds0 df sh)
  case Nil
  then show ?case by simp
next
  case (Cons q ds)
  show ?case
  proof (cases "g_graph q")
    case GroundDefault
    have "in_graph (ds0 @ [q]) (GroundGraph n) = in_graph ds0 (GroundGraph n)" for n
      using GroundDefault by (auto simp: in_graph_def)
    moreover have "{n. \<exists>r \<in> set (ds0 @ [q]). g_graph r = GroundGraph n} = {n. \<exists>r \<in> set ds0. g_graph r = GroundGraph n}"
      using GroundDefault by auto
    ultimately have "shelves_ok key_of (ds0 @ [q]) sh"
      using Cons.prems(1) unfolding shelves_ok_def by simp
    moreover have "set (df @ [ground_triple q]) = in_graph (ds0 @ [q]) GroundDefault"
      using Cons.prems(2) GroundDefault by (auto simp: in_graph_def)
    moreover have "split_quads key_of ds (df @ [ground_triple q]) sh = (df', sh')"
      using Cons.prems(3) GroundDefault by simp
    ultimately show ?thesis using Cons.IH by fastforce
  next
    case (GroundGraph n)
    have "set df = in_graph (ds0 @ [q]) GroundDefault"
      using Cons.prems(2) GroundGraph by (auto simp: in_graph_def)
    moreover have "split_quads key_of ds df (shelf_push (key_of n) n (ground_triple q) sh) = (df', sh')"
      using Cons.prems(3) GroundGraph by simp
    ultimately show ?thesis
      using Cons.IH [OF shelves_ok_push [OF Cons.prems(1) assms(1) GroundGraph]] by simp
  qed
qed


section \<open>Effect of the updates\<close>

lemma put_dataset_exec:
  "t \<in> exec (put_dataset_update iri reg df sh mt) G h \<longleftrightarrow>
     (h \<notin> set reg \<union> fst ` set sh \<union> {iri, sys_graph_iri iri} \<and> t \<in> G h) \<or>
     (h = iri \<and> t \<in> set df) \<or> (\<exists>n ts. (h, n, ts) \<in> set sh \<and> t \<in> set ts) \<or>
     (h = sys_graph_iri iri \<and> t \<in> set (registry_triples iri mt sh))"
proof -
  have drops: "map DropSilent reg @ map (\<lambda>(key, _, _). DropSilent key) sh @ [DropSilent iri, DropSilent (sys_graph_iri iri)]
      = map DropSilent (reg @ map fst sh @ [iri, sys_graph_iri iri])"
    by (auto simp: case_prod_beta comp_def)
  let ?G0 = "\<lambda>h. if h \<in> set (reg @ map fst sh @ [iri, sys_graph_iri iri]) then {} else G h"
  let ?B = "(iri, df) # map (\<lambda>(key, _, ts). (key, ts)) sh"
  have "exec (put_dataset_update iri reg df sh mt) G =
    exec [InsertData ?B, InsertData [(sys_graph_iri iri, registry_triples iri mt sh)]]
      (exec (map DropSilent (reg @ map fst sh @ [iri, sys_graph_iri iri])) G)"
    unfolding put_dataset_update_def drops [symmetric] by simp
  also have "\<dots> = insert_blocks [(sys_graph_iri iri, registry_triples iri mt sh)] (insert_blocks ?B ?G0)"
    unfolding exec_drops by simp
  finally have eq: "exec (put_dataset_update iri reg df sh mt) G =
    insert_blocks [(sys_graph_iri iri, registry_triples iri mt sh)] (insert_blocks ?B ?G0)" .
  have blocks: "(\<exists>ts. (h, ts) \<in> set ?B \<and> t \<in> set ts) \<longleftrightarrow>
      (h = iri \<and> t \<in> set df) \<or> (\<exists>n ts. (h, n, ts) \<in> set sh \<and> t \<in> set ts)"
  proof -
    have "(h, ts) \<in> (\<lambda>(key, _, ts). (key, ts)) ` set sh \<longleftrightarrow> (\<exists>n. (h, n, ts) \<in> set sh)" for ts
      by (auto simp: image_iff split: prod.splits)
    then show ?thesis by auto
  qed
  have kept: "t \<in> ?G0 h \<longleftrightarrow> h \<notin> set reg \<union> fst ` set sh \<union> {iri, sys_graph_iri iri} \<and> t \<in> G h"
    by simp
  have last: "(\<exists>ts. (h, ts) \<in> set [(sys_graph_iri iri, registry_triples iri mt sh)] \<and> t \<in> set ts) \<longleftrightarrow>
      h = sys_graph_iri iri \<and> t \<in> set (registry_triples iri mt sh)" by simp
  show ?thesis unfolding eq insert_blocks_iff blocks kept last by blast
qed

lemma registry_triples_iff:
  "t \<in> set (registry_triples iri mt sh) \<longleftrightarrow> t = present_triple iri
     \<or> t = mk_triple (NamedNode iri) SYS_MEDIA_TYPE (TermLiteral (simple_literal mt))
     \<or> (\<exists>(k, n, ts) \<in> set sh. t = mk_triple (NamedNode iri) SYS_HAS_SUBGRAPH (TermNamed k)
          \<or> t = mk_triple (NamedNode k) SYS_GRAPH_NAME (TermNamed n))"
  by (force simp: registry_triples_def)

lemma mk_triple_inject [simp]: "mk_triple s p x = mk_triple s' p' x' \<longleftrightarrow> s = s' \<and> p = p' \<and> x = x'"
  by (simp add: mk_triple_def)

lemmas sys_vocabulary = SYS_PRESENT_def SYS_MEDIA_TYPE_def SYS_HAS_SUBGRAPH_def SYS_GRAPH_NAME_def RDF_TYPE_def

lemma from_store_image:
  assumes "set qs = quad_of_ground ` A"
  shows "\<exists>sk. from_store qs = Some sk \<and> set sk = A"
proof -
  have "\<forall>q \<in> set qs. \<exists>g. q = quad_of_ground g" using assms by auto
  then obtain sk where sk: "qs = map quad_of_ground sk" by (metis ex_map_conv)
  then have "quad_of_ground ` set sk = quad_of_ground ` A" using assms by (metis set_map)
  then have "set sk = A" by (meson inj_image_eq_iff inj_quad_of_ground)
  with sk show ?thesis by (auto simp: from_store_iff)
qed

lemma quad_of_ground_triple:
  "quad_of_ground q = \<lparr>q_subject = t_subject (ground_triple q), q_predicate = t_predicate (ground_triple q),
     q_object = t_object (ground_triple q), q_graph = graph_of_ground (g_graph q)\<rparr>"
  by (simp add: quad_of_ground_def ground_triple_def)

text \<open>A graph's triples, read back under its name, are the quads of the dataset in it.\<close>

lemma with_graph_in_graph:
  assumes "set ts = in_graph ds g"
  shows "set (with_graph (graph_of_ground g) ts) = quad_of_ground ` {q \<in> set ds. g_graph q = g}"
proof -
  let ?f = "\<lambda>t. \<lparr>q_subject = t_subject t, q_predicate = t_predicate t, q_object = t_object t, q_graph = graph_of_ground g\<rparr>"
  have "set (with_graph (graph_of_ground g) ts) = ?f ` ground_triple ` {q \<in> set ds. g_graph q = g}"
    using assms by (simp add: with_graph_def in_graph_def)
  also have "\<dots> = quad_of_ground ` {q \<in> set ds. g_graph q = g}"
    unfolding image_image by (intro image_cong refl) (auto simp: quad_of_ground_triple)
  finally show ?thesis .
qed

context pod
begin

text \<open>The stored form of a dataset at \<open>iri\<close>, as the read path sees it.\<close>

definition holds_dataset :: "graphs \<Rightarrow> iri \<Rightarrow> skolemized \<Rightarrow> shelf list \<Rightarrow> bool" where
  "holds_dataset G iri ds sh \<longleftrightarrow>
     present_triple iri \<in> G (sys_graph_iri iri) \<and> G iri = in_graph ds GroundDefault \<and>
     (\<forall>k. mk_triple (NamedNode iri) SYS_HAS_SUBGRAPH (TermNamed k) \<in> G (sys_graph_iri iri) \<longleftrightarrow> k \<in> fst ` set sh) \<and>
     (\<forall>(k, n, ts) \<in> set sh. e_valid_iri E n \<and> G k = in_graph ds (GroundGraph n) \<and>
        {x. mk_triple (NamedNode k) SYS_GRAPH_NAME x \<in> G (sys_graph_iri iri)} = {TermNamed n}) \<and>
     (\<lambda>(k, n, ts). n) ` set sh = {n. \<exists>q \<in> set ds. g_graph q = GroundGraph n}"

lemma put_dataset_holds:
  assumes ok: "shelves_ok key_of ds sh" and df: "set df = in_graph ds GroundDefault"
    and inj: "inj key_of" and key: "\<And>n. prefix SHELF_PREFIX (key_of n)" and iri: "http_iri iri"
    and valid: "\<not> list_ex (\<lambda>(key, name, _). \<not> e_valid_iri E name) sh"
  shows "holds_dataset (exec (put_dataset_update iri reg df sh mt) G) iri ds sh"
proof -
  let ?G = "exec (put_dataset_update iri reg df sh mt) G"
  have dist: "distinct (map fst sh)" using ok by (simp add: shelves_ok_def)
  have ent: "k = key_of n \<and> set ts = in_graph ds (GroundGraph n)" if "(k, n, ts) \<in> set sh" for k n ts
    using ok that by (auto simp: shelves_ok_def)
  have shelf: "prefix SHELF_PREFIX k" if "(k, n, ts) \<in> set sh" for k n ts using ent [OF that] key by simp
  have uniq: "n = n' \<and> ts = ts'" if "(k, n, ts) \<in> set sh" "(k, n', ts') \<in> set sh" for k n ts n' ts'
    using that dist by (metis eq_key_imp_eq_value prod.inject)
  have not_shelf: "(sys_graph_iri iri, n, ts) \<notin> set sh" "(iri, n, ts) \<notin> set sh" for n ts
    using shelf iri shelf_not_sys(1) http_not_shelf(1) by blast+
  have sys: "?G (sys_graph_iri iri) = set (registry_triples iri mt sh)"
    using not_shelf iri by (auto simp: put_dataset_exec set_eq_iff)
  have body: "?G iri = in_graph ds GroundDefault"
    using not_shelf iri df by (auto simp: put_dataset_exec set_eq_iff)
  have each: "?G k = in_graph ds (GroundGraph n)" if e: "(k, n, ts) \<in> set sh" for k n ts
  proof -
    have "t \<in> ?G k \<longleftrightarrow> t \<in> set ts" for t
    proof -
      have "k \<in> fst ` set sh" using e by force
      moreover have "k \<noteq> iri" "k \<noteq> sys_graph_iri iri" using shelf [OF e] iri by auto
      moreover have "(\<exists>n ts. (k, n, ts) \<in> set sh \<and> t \<in> set ts) \<longleftrightarrow> t \<in> set ts" using e uniq by blast
      ultimately show ?thesis unfolding put_dataset_exec by blast
    qed
    with ent [OF e] show ?thesis by blast
  qed
  have names: "{x. mk_triple (NamedNode k) SYS_GRAPH_NAME x \<in> ?G (sys_graph_iri iri)} = {TermNamed n}"
    if e: "(k, n, ts) \<in> set sh" for k n ts
  proof -
    have "mk_triple (NamedNode k) SYS_GRAPH_NAME x \<in> ?G (sys_graph_iri iri) \<longleftrightarrow>
        (\<exists>m ts. (k, m, ts) \<in> set sh \<and> x = TermNamed m)" for x
      unfolding sys registry_triples_iff by (force simp: present_triple_def sys_vocabulary)
    moreover have "(\<exists>m ts. (k, m, ts) \<in> set sh \<and> x = TermNamed m) \<longleftrightarrow> x = TermNamed n" for x
      using e uniq by blast
    ultimately show ?thesis by simp
  qed
  have reg_keys: "mk_triple (NamedNode iri) SYS_HAS_SUBGRAPH (TermNamed k) \<in> ?G (sys_graph_iri iri) \<longleftrightarrow> k \<in> fst ` set sh" for k
    unfolding sys registry_triples_iff by (force simp: present_triple_def sys_vocabulary)
  have "present_triple iri \<in> ?G (sys_graph_iri iri)" unfolding sys by (simp add: registry_triples_iff)
  moreover have "\<forall>(k, n, ts) \<in> set sh. e_valid_iri E n" using valid by (auto simp: list_ex_iff)
  moreover have "(\<lambda>(k, n, ts). n) ` set sh = {n. \<exists>q \<in> set ds. g_graph q = GroundGraph n}"
    using ok by (simp add: shelves_ok_def)
  ultimately show ?thesis unfolding holds_dataset_def using body reg_keys each names by blast
qed

end

lemma find_map_Some: "find_map f xs = Some y \<Longrightarrow> \<exists>x \<in> set xs. f x = Some y"
  by (induction xs) (auto split: option.splits)

lemma find_map_None: "find_map f xs = None \<longleftrightarrow> (\<forall>x \<in> set xs. f x = None)"
  by (induction xs) (auto split: option.splits)

text \<open>When every value found is the same, \<open>find_map\<close> finds it.\<close>

lemma find_map_unique:
  assumes "\<And>x. x \<in> set xs \<Longrightarrow> f x = Some y" and "xs \<noteq> []"
  shows "find_map f xs = Some y"
  using assms by (cases xs) auto

context pod
begin

lemma shelf_name_ok:
  assumes "holds_dataset (sabs (w_db w)) iri ds sh" and e: "(k, n, ts) \<in> set sh"
    and "b_objects (e_store E) (w_db w) (sys_graph_iri iri) k SYS_GRAPH_NAME = Inr names"
  shows "find_map (\<lambda>t. case t_object t of
      TermNamed n \<Rightarrow> if e_valid_iri E n then Some n else None | _ \<Rightarrow> None) names = Some n"
proof -
  let ?S = "sabs (w_db w) (sys_graph_iri iri)"
  have n: "{x. mk_triple (NamedNode k) SYS_GRAPH_NAME x \<in> ?S} = {TermNamed n}" "e_valid_iri E n"
    using assms(1) e by (auto simp: holds_dataset_def)
  have obj: "t \<in> set names \<longleftrightarrow> t = mk_triple (NamedNode k) SYS_GRAPH_NAME (TermNamed n)" for t
  proof -
    have "t \<in> set names \<longleftrightarrow> t_subject t = NamedNode k \<and> t_predicate t = SYS_GRAPH_NAME \<and>
        mk_triple (NamedNode k) SYS_GRAPH_NAME (t_object t) \<in> ?S"
      unfolding objects_ok [OF assms(3)] mem_Collect_eq by (metis mk_triple_collapse)
    also have "\<dots> \<longleftrightarrow> t_subject t = NamedNode k \<and> t_predicate t = SYS_GRAPH_NAME \<and> t_object t = TermNamed n"
      using n(1) by blast
    also have "\<dots> \<longleftrightarrow> t = mk_triple (NamedNode k) SYS_GRAPH_NAME (TermNamed n)"
      by (metis mk_triple_collapse mk_triple_sel)
    finally show ?thesis .
  qed
  then have "names \<noteq> []" by (metis empty_iff list.set(1))
  with obj n(2) show ?thesis by (intro find_map_unique) auto
qed

lemma holds_name_unique:
  assumes "holds_dataset G iri ds sh" and "(k, n', ts') \<in> set sh" and "(k, n, ts) \<in> set sh"
  shows "n' = n"
proof -
  have "{x. mk_triple (NamedNode k) SYS_GRAPH_NAME x \<in> G (sys_graph_iri iri)} = {TermNamed n'}"
    "{x. mk_triple (NamedNode k) SYS_GRAPH_NAME x \<in> G (sys_graph_iri iri)} = {TermNamed n}"
    using assms by (auto simp: holds_dataset_def)
  then show ?thesis by simp
qed

lemma shelf_quads_Cons:
  assumes "(k, n, ts0) \<in> set sh" and "\<And>n' ts'. (k, n', ts') \<in> set sh \<Longrightarrow> n' = n"
  shows "{q \<in> set ds. \<exists>k' n ts. (k', n, ts) \<in> set sh \<and> k' \<in> set (k # ks) \<and> g_graph q = GroundGraph n} =
    {q \<in> set ds. g_graph q = GroundGraph n} \<union>
    {q \<in> set ds. \<exists>k' n ts. (k', n, ts) \<in> set sh \<and> k' \<in> set ks \<and> g_graph q = GroundGraph n}"
    (is "?L = ?R")
proof (intro set_eqI iffI)
  fix q assume "q \<in> ?L"
  then obtain k' m ts' where "q \<in> set ds" "(k', m, ts') \<in> set sh" "k' = k \<or> k' \<in> set ks" "g_graph q = GroundGraph m" by auto
  then show "q \<in> ?R" using assms(2) by blast
next
  fix q assume "q \<in> ?R"
  then show "q \<in> ?L" using assms(1) by fastforce
qed

lemma read_shelves_ok:
  assumes H: "holds_dataset (sabs (w_db w)) iri ds sh"
  shows "set ks \<subseteq> fst ` set sh \<Longrightarrow> read_shelves E iri ks w = (r, w') \<Longrightarrow>
    w' = w \<and> ((\<exists>se. r = Inl (StoreErr se)) \<or> (\<exists>qs. r = Inr qs \<and>
      set qs = quad_of_ground ` {q \<in> set ds. \<exists>k n ts. (k, n, ts) \<in> set sh \<and> k \<in> set ks \<and> g_graph q = GroundGraph n}))"
proof (induction ks arbitrary: r w')
  case Nil
  then show ?case by auto
next
  case (Cons k ks)
  then obtain n ts0 where e: "(k, n, ts0) \<in> set sh" by force
  note uniq = holds_name_unique [OF H _ e]
  show ?case
  proof (cases "b_objects (e_store E) (w_db w) (sys_graph_iri iri) k SYS_GRAPH_NAME")
    case (Inl err)
    with Cons.prems(2) show ?thesis by (auto simp: op_bind_def st_read_def)
  next
    case names: (Inr names)
    note nm = shelf_name_ok [OF H e names]
    show ?thesis
    proof (cases "b_graph (e_store E) (w_db w) k")
      case (Inl err)
      with Cons.prems(2) names nm show ?thesis by (auto simp: op_bind_def st_read_def)
    next
      case (Inr ts)
      obtain r1 w1 where rest: "read_shelves E iri ks w = (r1, w1)" by (cases "read_shelves E iri ks w")
      note IH = Cons.IH [OF _ rest]
      have w1: "w1 = w" using IH Cons.prems(1) by auto
      have r: "r = (case r1 of Inl e \<Rightarrow> Inl e | Inr qs \<Rightarrow> Inr (with_graph (GraphNamed n) ts @ qs)) \<and> w' = w"
        using Cons.prems(2) names nm Inr rest w1 by (auto simp: op_bind_def st_read_def split: sum.splits)
      have "set ts = in_graph ds (GroundGraph n)"
        using graph_ok [OF Inr] H e by (auto simp: holds_dataset_def)
      then have ts: "set (with_graph (GraphNamed n) ts) = quad_of_ground ` {q \<in> set ds. g_graph q = GroundGraph n}"
        using with_graph_in_graph [of ts ds "GroundGraph n"] by simp
      have split: "{q \<in> set ds. \<exists>k' n ts. (k', n, ts) \<in> set sh \<and> k' \<in> set (k # ks) \<and> g_graph q = GroundGraph n} =
          {q \<in> set ds. g_graph q = GroundGraph n} \<union>
          {q \<in> set ds. \<exists>k' n ts. (k', n, ts) \<in> set sh \<and> k' \<in> set ks \<and> g_graph q = GroundGraph n}"
        by (rule shelf_quads_Cons [OF e uniq])
      show ?thesis
        using IH Cons.prems(1) r ts unfolding split image_Un by (cases r1) auto
    qed
  qed
qed

lemma holds_reassemble:
  assumes H: "holds_dataset G iri ds sh" and keys: "set keys = fst ` set sh"
    and ts: "set dfs = quad_of_ground ` {q \<in> set ds. g_graph q = GroundDefault}"
    and rest: "set rest = quad_of_ground ` {q \<in> set ds. \<exists>k n ts. (k, n, ts) \<in> set sh \<and> k \<in> set keys \<and> g_graph q = GroundGraph n}"
  shows "\<exists>sk. from_store (dfs @ rest) = Some sk \<and> set sk = set ds"
proof -
  have "(\<exists>k n ts. (k, n, ts) \<in> set sh \<and> k \<in> set keys \<and> g_graph q = GroundGraph n) \<longleftrightarrow> g_graph q \<noteq> GroundDefault"
    if "q \<in> set ds" for q
  proof (cases "g_graph q")
    case (GroundGraph m)
    then have "m \<in> (\<lambda>(k, n, ts). n) ` set sh" using that H by (auto simp: holds_dataset_def)
    then show ?thesis using GroundGraph keys by force
  qed simp
  then have "{q \<in> set ds. \<exists>k n ts. (k, n, ts) \<in> set sh \<and> k \<in> set keys \<and> g_graph q = GroundGraph n} =
      {q \<in> set ds. g_graph q \<noteq> GroundDefault}" by (intro Collect_cong conj_cong refl)
  then have "set (dfs @ rest) = quad_of_ground ` set ds" using ts rest by auto
  from from_store_image [OF this] show ?thesis by blast
qed

lemma get_dataset_holds:
  assumes H: "holds_dataset (sabs (w_db w)) iri ds sh" and "get_dataset E iri w = (r, w')"
  shows "w' = w \<and> ((\<exists>se. r = Inl (StoreErr se)) \<or> (\<exists>sk. r = Inr (Some sk) \<and> set sk = set ds))"
  using assms(2) unfolding get_dataset_def
proof (cases rule: op_bind_cases)
  case (err e)
  then show ?thesis by (auto dest: exists_op_err)
next
  case (ok p w1)
  have p: "w1 = w" "p" using exists_op_ok [OF ok(1)] H by (auto simp: present_def holds_dataset_def)
  from ok(2) p have "op_bind (st_read (\<lambda>db. b_graph (e_store E) db iri)) (\<lambda>ts.
      op_bind (registered_shelves E iri) (\<lambda>keys. op_bind (read_shelves E iri keys) (\<lambda>rest.
        case from_store (with_graph DefaultGraph ts @ rest) of
          None \<Rightarrow> op_err Panicked | Some sk \<Rightarrow> op_ok (Some sk)))) w = (r, w')" by simp
  then show ?thesis
  proof (cases rule: op_bind_cases)
    case (err e)
    then show ?thesis by (auto dest: st_read_err)
  next
    case g: (ok ts w2)
    have w2: "w2 = w" and gts: "b_graph (e_store E) (w_db w) iri = Inr ts" using st_read_ok [OF g(1)] by auto
    have ts: "set (with_graph DefaultGraph ts) = quad_of_ground ` {q \<in> set ds. g_graph q = GroundDefault}"
      using with_graph_in_graph [of ts ds GroundDefault] graph_ok [OF gts] H by (simp add: holds_dataset_def)
    from g(2) show ?thesis unfolding w2
    proof (cases rule: op_bind_cases)
      case (err e)
      then show ?thesis by (auto dest: registered_shelves_err)
    next
      case k: (ok keys w3)
      have w3: "w3 = w" and keys: "set keys = fst ` set sh"
        using registered_shelves_ok [OF k(1)] H by (auto simp: holds_dataset_def)
      obtain r4 w4 where rs: "read_shelves E iri keys w = (r4, w4)" by (cases "read_shelves E iri keys w")
      note rd = read_shelves_ok [OF H equalityD1 [OF keys] rs]
      show ?thesis
      proof (cases r4)
        case (Inl e)
        with rd rs k(2) w3 show ?thesis by auto
      next
        case (Inr rest)
        with rd have "set rest = quad_of_ground ` {q \<in> set ds. \<exists>k n ts. (k, n, ts) \<in> set sh \<and> k \<in> set keys \<and> g_graph q = GroundGraph n}"
          by simp
        from holds_reassemble [OF H keys ts this] obtain sk where
          "from_store (with_graph DefaultGraph ts @ rest) = Some sk" "set sk = set ds" by blast
        with rd rs k(2) w3 Inr show ?thesis by auto
      qed
    qed
  qed
qed

end

context pod
begin

text \<open>The outcomes of \<open>put_dataset\<close>: nothing changed, or the dataset is stored whole.\<close>

lemma put_dataset_cases:
  assumes put: "put_dataset E r ds fmt w = (res, w')" and inj: "inj (e_sha E)" and iri: "http_iri (r_iri r)"
  shows "(\<exists>e. res = Inl e \<and> w' = w) \<or>
    (\<exists>reg df sh. w_draws w' = w_draws w \<and>
       sabs (w_db w') = exec (put_dataset_update (r_iri r) reg df sh (format_media_type fmt)) (sabs (w_db w)) \<and>
       shelves_ok (shelf_key (e_sha E) (r_iri r)) ds sh \<and>
       holds_dataset (sabs (w_db w')) (r_iri r) ds sh \<and>
       (\<forall>k. blob_key (e_path_from E) r = Some k \<longrightarrow> res = Inr () \<longrightarrow> babs (w_blobs w') = (babs (w_blobs w))(k := None)))"
proof -
  let ?key = "shelf_key (e_sha E) (r_iri r)"
  have ikey: "inj ?key" using inj by (rule shelf_key_inj)
  obtain df sh where split: "split_quads ?key ds [] [] = (df, sh)" by (cases "split_quads ?key ds [] []")
  have "shelves_ok ?key [] []" "set [] = in_graph [] GroundDefault" by (auto simp: shelves_ok_def in_graph_def)
  from split_quads_ok [OF ikey this split] have ok: "shelves_ok ?key ds sh" "set df = in_graph ds GroundDefault" by simp_all
  have put': "op_bind (registered_shelves E (r_iri r)) (\<lambda>registered.
      if list_ex (\<lambda>(key, name, _). \<not> e_valid_iri E name) sh then op_err InvalidIri
      else op_bind (st_update E (put_dataset_update (r_iri r) registered df sh (format_media_type fmt))) (\<lambda>_.
        case blob_key (e_path_from E) r of Some key \<Rightarrow> bl_delete E key | None \<Rightarrow> op_ok ())) w = (res, w')"
    using put by (simp add: put_dataset_def Let_def split)
  then show ?thesis
  proof (cases rule: op_bind_cases)
    case (err e)
    then show ?thesis by (auto dest: registered_shelves_err)
  next
    case (ok reg w1)
    have w1: "w1 = w" using registered_shelves_ok [OF ok(1)] by simp
    show ?thesis
    proof (cases "list_ex (\<lambda>(key, name, _). \<not> e_valid_iri E name) sh")
      case True
      with ok(2) w1 show ?thesis by auto
    next
      case False
      with ok(2) w1 have "op_bind (st_update E (put_dataset_update (r_iri r) reg df sh (format_media_type fmt))) (\<lambda>_.
        case blob_key (e_path_from E) r of Some key \<Rightarrow> bl_delete E key | None \<Rightarrow> op_ok ()) w = (res, w')" by simp
      then show ?thesis
      proof (cases rule: op_bind_cases)
        case (err e)
        then show ?thesis by (auto dest: st_update_err)
      next
        case up: (ok x w2)
        note eff = st_update_ok [OF up(1)]
        have H: "holds_dataset (sabs (w_db w2)) (r_iri r) ds sh"
          using put_dataset_holds [OF \<open>shelves_ok ?key ds sh\<close> \<open>set df = _\<close> ikey shelf_key_prefix iri False] eff by simp
        have after: "w_db w' = w_db w2" "w_draws w' = w_draws w2"
          "\<forall>k. blob_key (e_path_from E) r = Some k \<longrightarrow> res = Inr () \<longrightarrow> babs (w_blobs w') = (babs (w_blobs w2))(k := None)"
          using up(2) by (auto simp: bl_delete_def dest: blobs.delete_ok split: option.splits sum.splits)
        with eff H \<open>shelves_ok ?key ds sh\<close> show ?thesis by (intro disjI2 exI [of _ reg] exI [of _ df] exI [of _ sh]) simp
      qed
    qed
  qed
qed

lemma kind_of_rdf:
  assumes "holds_dataset (sabs (w_db w)) iri ds sh"
    and "mk_triple (NamedNode iri) RDF_TYPE (TermNamed SYS_BINARY_RESOURCE) \<notin> sabs (w_db w) (sys_graph_iri iri)"
    and "kind_of E iri w = (Inr k, w')"
  shows "k = Some KindRdf"
  using assms unfolding kind_of_def
  by (auto elim!: op_bind_InrE dest!: exists_op_ok st_read_ok ask_ok simp: present_def holds_dataset_def split: if_splits)

lemma kind_of_binary:
  assumes sys: "sabs (w_db w) (sys_graph_iri iri) =
     {present_triple iri, mk_triple (NamedNode iri) RDF_TYPE (TermNamed SYS_BINARY_RESOURCE),
      mk_triple (NamedNode iri) SYS_MEDIA_TYPE (TermLiteral (simple_literal raw))}"
    and mt: "media_type_parse (e_header_ok E) raw = Some mt"
    and k: "kind_of E iri w = (Inr k, w')"
  shows "k = Some (KindBinary mt)"
proof -
  have stored: "m = Some mt" if m0: "stored_media_type E iri w = (Inr m, v)" for m v
  proof -
    obtain ts where ts: "b_objects (e_store E) (w_db w) (sys_graph_iri iri) iri SYS_MEDIA_TYPE = Inr ts"
      and m: "m = find_map (\<lambda>t. case t_object t of
          TermLiteral l \<Rightarrow> media_type_parse (e_header_ok E) (l_value l) | _ \<Rightarrow> None) ts"
      using m0 unfolding stored_media_type_def by (auto elim!: op_bind_InrE dest!: st_read_ok)
    have "set ts = {mk_triple (NamedNode iri) SYS_MEDIA_TYPE (TermLiteral (simple_literal raw))}"
      unfolding objects_ok [OF ts] sys by (auto simp: present_triple_def sys_vocabulary)
    then show ?thesis unfolding m
      by (intro find_map_unique) (auto simp: mt simple_literal_def)
  qed
  have "present w iri" by (simp add: present_def sys)
  with k stored show ?thesis unfolding kind_of_def
    by (auto elim!: op_bind_InrE dest!: exists_op_ok st_read_ok ask_ok simp: sys image_iff split: if_splits option.splits)
qed

lemma put_blob_outcome:
  assumes put: "put_blob E r bytes mt w = (res, w')" and key: "blob_key (e_path_from E) r = Some key"
  shows "w' = w \<and> (\<exists>e. res = Inl e) \<or>
    (babs (w_blobs w') = (babs (w_blobs w))(key := Some bytes) \<and> (\<exists>e. res = Inl (StoreErr e)) \<and> w_db w' = w_db w) \<or>
    (babs (w_blobs w') = (babs (w_blobs w))(key := Some bytes) \<and> res = Inr () \<and>
      (\<exists>reg. sabs (w_db w') = exec (put_blob_update (r_iri r) reg (mt_raw mt)) (sabs (w_db w))))"
proof -
  have "op_bind (registered_shelves E (r_iri r)) (\<lambda>shelves. op_bind (bl_put E key bytes) (\<lambda>_.
      st_update E (put_blob_update (r_iri r) shelves (mt_raw mt)))) w = (res, w')"
    using put key by (simp add: put_blob_def)
  then show ?thesis
  proof (cases rule: op_bind_cases)
    case (err e)
    then show ?thesis by (auto dest: registered_shelves_err)
  next
    case (ok reg w1)
    have w1: "w1 = w" using registered_shelves_ok [OF ok(1)] by simp
    from ok(2) show ?thesis unfolding w1
    proof (cases rule: op_bind_cases)
      case (err e)
      then show ?thesis by (auto dest: bl_put_err)
    next
      case p: (ok x w2)
      note b = bl_put_ok [OF p(1)]
      show ?thesis
      proof (cases res)
        case (Inl e)
        with p(2) b show ?thesis by (auto dest!: st_update_err)
      next
        case (Inr y)
        with p(2) b show ?thesis by (auto dest!: st_update_ok)
      qed
    qed
  qed
qed

end

lemma put_blob_exec:
  "http_iri iri \<Longrightarrow> exec (put_blob_update iri reg mt) G (sys_graph_iri iri) =
     {present_triple iri, mk_triple (NamedNode iri) RDF_TYPE (TermNamed SYS_BINARY_RESOURCE),
      mk_triple (NamedNode iri) SYS_MEDIA_TYPE (TermLiteral (simple_literal mt))}"
  "http_iri iri \<Longrightarrow> exec (put_blob_update iri reg mt) G iri = {}"
  by (auto simp: put_blob_update_def)

section \<open>An executable pod\<close>

definition mem_env :: "(mem_db, mem_bl) env" where
  "mem_env = \<lparr>e_store = mem_backend, e_objects = mem_objects, e_mint = unary_mint, e_sha = id,
     e_path_from = id, e_valid_iri = (\<lambda>_. True), e_header_ok = (\<lambda>_. True)\<rparr>"

definition mem_world :: "(mem_db, mem_bl) world" where
  "mem_world = \<lparr>w_db = [], w_blobs = [], w_draws = 0\<rparr>"

interpretation mem_pod: pod mem_env mem_abs map_of
  by unfold_locales
     (simp_all add: mem_env_def mem.finite_graph mem.update_ok mem.ask_ok mem.graph_ok mem.objects_ok
        mem.present_ok mem.graphs_ok mem.match_ok mem_blobs.o_put_ok mem_blobs.o_get_ok
        mem_blobs.o_get_none mem_blobs.o_delete_ok mem_blobs.o_delete_none)

lemma mem_env_sha: "inj (e_sha mem_env)"
  by (simp add: mem_env_def)

text \<open>A resource and a dataset with a named graph, for the witnesses.\<close>

definition ex_url :: resource_url where
  "ex_url = \<lparr>r_path = ''/a'', r_iri = ''http://h/a''\<rparr>"

definition ex_dataset :: skolemized where
  "ex_dataset =
     [\<lparr>g_subject = ''s'', g_predicate = ''p'', g_object = GroundNamed ''o'', g_graph = GroundDefault\<rparr>,
      \<lparr>g_subject = ''s'', g_predicate = ''p'', g_object = GroundNamed ''o'', g_graph = GroundGraph ''urn:g''\<rparr>]"

lemma ex_url_http: "http_iri (r_iri ex_url)"
  by (simp add: ex_url_def http_iri_def)

lemma ex_put_dataset: "fst (put_dataset mem_env ex_url ex_dataset TriG mem_world) = Inr ()"
  by code_simp

section \<open>Properties of the storage layer\<close>

text \<open>C13: What a client writes is what is read back: after a successful \<open>put_dataset\<close>,
  \<open>get_dataset\<close> returns exactly the stored quads, each in the graph it was written to, or
  reports a backend failure. It never panics, never finds the resource absent (an empty
  dataset included) and never serves a shelf under another name.\<close>

theorem put_get_dataset:
  assumes "pod E sabs babs" and "inj (e_sha E)" and "http_iri (r_iri r)"
    and "put_dataset E r ds fmt w = (Inr (), w1)" and "get_dataset E (r_iri r) w1 = (res, w2)"
  shows "w2 = w1 \<and> ((\<exists>se. res = Inl (StoreErr se)) \<or> (\<exists>sk. res = Inr (Some sk) \<and> set sk = set ds))"
proof -
  from pod.put_dataset_cases [OF assms(1,4,2,3)] obtain sh where
    "pod.holds_dataset E (sabs (w_db w1)) (r_iri r) ds sh" by blast
  from pod.get_dataset_holds [OF assms(1) this assms(5)] show ?thesis .
qed

theorem put_get_dataset_witness:
  "\<exists>sk. fst (get_dataset mem_env (r_iri ex_url) (snd (put_dataset mem_env ex_url ex_dataset TriG mem_world))) =
     Inr (Some sk) \<and> set sk = set ex_dataset"
proof -
  let ?p = "put_dataset mem_env ex_url ex_dataset TriG mem_world"
  let ?g = "get_dataset mem_env (r_iri ex_url) (snd ?p)"
  have "?p = (Inr (), snd ?p)" using ex_put_dataset by (metis prod.collapse)
  moreover have "?g = (fst ?g, snd ?g)" by simp
  moreover have "\<not> isl (fst ?g)" by code_simp
  ultimately show ?thesis
    using put_get_dataset [OF mem_pod.pod_axioms mem_env_sha ex_url_http] by (metis isl_def)
qed

text \<open>C27: \<open>put_dataset\<close> is all or nothing on the store: whatever it returns, either the world
  is unchanged, or every graph of the resource has been replaced by the new dataset in one
  update; a failure after that point is a failure to delete a superseded blob.\<close>

theorem put_dataset_atomic:
  assumes "pod E sabs babs" and "inj (e_sha E)" and "http_iri (r_iri r)"
    and "put_dataset E r ds fmt w = (res, w')"
  shows "w' = w \<and> res \<noteq> Inr () \<or>
    present_triple (r_iri r) \<in> sabs (w_db w') (sys_graph_iri (r_iri r)) \<and>
    sabs (w_db w') (r_iri r) = in_graph ds GroundDefault \<and>
    (\<forall>q \<in> set ds. \<forall>n. g_graph q = GroundGraph n \<longrightarrow>
       sabs (w_db w') (shelf_key (e_sha E) (r_iri r) n) = in_graph ds (GroundGraph n))"
proof -
  consider e where "res = Inl e" "w' = w"
    | sh where "shelves_ok (shelf_key (e_sha E) (r_iri r)) ds sh"
        "pod.holds_dataset E (sabs (w_db w')) (r_iri r) ds sh"
    using pod.put_dataset_cases [OF assms(1,4,2,3)] by blast
  then show ?thesis
  proof cases
    case 1
    then show ?thesis by simp
  next
    case 2
    have H: "present_triple (r_iri r) \<in> sabs (w_db w') (sys_graph_iri (r_iri r))"
      "sabs (w_db w') (r_iri r) = in_graph ds GroundDefault"
      "\<forall>(k, n, ts) \<in> set sh. sabs (w_db w') k = in_graph ds (GroundGraph n)"
      using 2(2) unfolding pod.holds_dataset_def [OF assms(1)] by auto
    have "sabs (w_db w') (shelf_key (e_sha E) (r_iri r) n) = in_graph ds (GroundGraph n)"
      if "q \<in> set ds" "g_graph q = GroundGraph n" for q n
    proof -
      have "n \<in> (\<lambda>(k, n, ts). n) ` set sh" using 2(1) that by (auto simp: shelves_ok_def)
      then obtain k ts where e: "(k, n, ts) \<in> set sh" by force
      then have "k = shelf_key (e_sha E) (r_iri r) n" using 2(1) by (auto simp: shelves_ok_def)
      moreover have "sabs (w_db w') k = in_graph ds (GroundGraph n)"
        using bspec [OF H(3) e] by simp
      ultimately show ?thesis by simp
    qed
    with H(1,2) show ?thesis by blast
  qed
qed

theorem put_dataset_atomic_witness:
  "mem_abs (w_db (snd (put_dataset mem_env ex_url ex_dataset TriG mem_world))) (r_iri ex_url) =
     in_graph ex_dataset GroundDefault"
proof -
  let ?p = "put_dataset mem_env ex_url ex_dataset TriG mem_world"
  have "?p = (Inr (), snd ?p)" using ex_put_dataset by (metis prod.collapse)
  from put_dataset_atomic [OF mem_pod.pod_axioms mem_env_sha ex_url_http this] show ?thesis by simp
qed



text \<open>An interrupted \<open>put_blob\<close> over a resource that is already binary: the marker and its old
  media type stay, and the new bytes are already there to be served under it.\<close>

lemma put_blob_interrupted:
  assumes "pod E sabs babs" and "blob_key (e_path_from E) r = Some key"
    and "put_blob E r bytes mt w = (Inl e, w')" and "w' \<noteq> w"
  shows "w_db w' = w_db w \<and> babs (w_blobs w') key = Some bytes"
  using pod.put_blob_outcome [OF assms(1,3,2)] assms(4) by auto

end
