(* ===== verification/Containers.thy ===== *)
theory Containers
  imports Resources
begin

text \<open>
  Containers and containment, \<^verbatim>\<open>src/container.rs\<close>: the server-managed triples, creating
  and linking containers, and the two request helpers \<open>type_link_requests_container\<close> and
  \<open>child_name\<close>.
\<close>

definition LDP_CONTAINER :: iri where "LDP_CONTAINER = ''http://www.w3.org/ns/ldp#Container''"
definition LDP_BASIC_CONTAINER :: iri where
  "LDP_BASIC_CONTAINER = ''http://www.w3.org/ns/ldp#BasicContainer''"
definition LDP_CONTAINS :: iri where "LDP_CONTAINS = ''http://www.w3.org/ns/ldp#contains''"

definition body_sets_containment :: "triple list \<Rightarrow> bool" where
  "body_sets_containment ts = list_ex (\<lambda>t. t_predicate t = LDP_CONTAINS) ts"

definition server_managed :: "iri \<Rightarrow> triple \<Rightarrow> bool" where
  "server_managed c_iri t =
     (if t_predicate t = LDP_CONTAINS then True
      else if t_predicate t = RDF_TYPE \<and> t_subject t = NamedNode c_iri
      then (case t_object t of TermNamed n \<Rightarrow> n = LDP_CONTAINER \<or> n = LDP_BASIC_CONTAINER | _ \<Rightarrow> False)
      else False)"

definition without_server_managed :: "triple list \<Rightarrow> iri \<Rightarrow> triple list" where
  "without_server_managed ts c_iri = filter (\<lambda>t. \<not> server_managed c_iri t) ts"

definition node_of :: "('db, 'bl) env \<Rightarrow> iri \<Rightarrow> resource_error + iri" where
  "node_of E i = (if e_valid_iri E i then Inr i else Inl InvalidIri)"

definition default_quad :: "iri \<Rightarrow> iri \<Rightarrow> iri \<Rightarrow> ground_quad" where
  "default_quad s p x = \<lparr>g_subject = s, g_predicate = p, g_object = GroundNamed x, g_graph = GroundDefault\<rparr>"

definition ensure_container ::
  "('db, 'bl) env \<Rightarrow> container_url \<Rightarrow> (('db, 'bl) world, resource_error, unit) op" where
  "ensure_container E c =
     op_bind (op_res (node_of E (container_iri c))) (\<lambda>i.
     op_bind (op_res (node_of E RDF_TYPE)) (\<lambda>rdf_type.
     op_bind (op_res (node_of E LDP_CONTAINER)) (\<lambda>lc.
     op_bind (op_res (node_of E LDP_BASIC_CONTAINER)) (\<lambda>lb.
       insert_marked E (container_iri c) [default_quad i rdf_type lc, default_quad i rdf_type lb]))))"

definition add_containment ::
  "('db, 'bl) env \<Rightarrow> container_url \<Rightarrow> iri \<Rightarrow> (('db, 'bl) world, resource_error, unit) op" where
  "add_containment E par child_iri =
     op_bind (op_res (node_of E (container_iri par))) (\<lambda>p.
     op_bind (op_res (node_of E LDP_CONTAINS)) (\<lambda>contains.
     op_bind (op_res (node_of E child_iri)) (\<lambda>c.
       insert_marked E (container_iri par) [default_quad p contains c])))"

definition contains_triple :: "iri \<Rightarrow> iri \<Rightarrow> triple" where
  "contains_triple p c = mk_triple (NamedNode p) LDP_CONTAINS (TermNamed c)"

definition containment_removal ::
  "('db, 'bl) env \<Rightarrow> container_url \<Rightarrow> iri \<Rightarrow> resource_error + sop" where
  "containment_removal E par child_iri =
     res_bind (node_of E child_iri) (\<lambda>c.
       Inr (DeleteData (container_iri par) [contains_triple (container_iri par) c]))"

definition container_is_empty ::
  "('db, 'bl) env \<Rightarrow> container_url \<Rightarrow> (('db, 'bl) world, resource_error, bool) op" where
  "container_is_empty E c =
     op_bind (st_read (\<lambda>db. b_objects (e_store E) db (container_iri c) (container_iri c) LDP_CONTAINS))
       (\<lambda>ts. op_ok (ts = []))"

definition provision_root ::
  "('db, 'bl) env \<Rightarrow> container_url \<Rightarrow> (('db, 'bl) world, resource_error, unit) op" where
  "provision_root E c = ensure_container E c"

section \<open>Request helpers\<close>

definition trim_quotes :: "string \<Rightarrow> string" where
  "trim_quotes s = rev (dropWhile (\<lambda>c. c = CHR 0x22) (rev (dropWhile (\<lambda>c. c = CHR 0x22) s)))"

fun split_whitespace_from :: "string \<Rightarrow> string \<Rightarrow> string list" where
  "split_whitespace_from word [] = (if word = [] then [] else [word])"
| "split_whitespace_from word (c # cs) =
     (if is_ascii_space c
      then (if word = [] then split_whitespace_from [] cs else word # split_whitespace_from [] cs)
      else split_whitespace_from (word @ [c]) cs)"

definition split_whitespace :: "string \<Rightarrow> string list" where
  "split_whitespace s = split_whitespace_from [] s"

definition link_value_is_container :: "string \<Rightarrow> bool" where
  "link_value_is_container v0 =
     (let v = trim v0 in
      case strip_prefix ''<'' v of
        None \<Rightarrow> False
      | Some rest \<Rightarrow>
          (case split_once (CHR ''>'') rest of
             None \<Rightarrow> False
           | Some (tgt, params) \<Rightarrow>
               if tgt \<noteq> LDP_CONTAINER \<and> tgt \<noteq> LDP_BASIC_CONTAINER then False
               else list_ex (\<lambda>p. case split_once (CHR ''='') p of
                 Some (name, x) \<Rightarrow>
                   eq_ignore_ascii_case (trim name) ''rel''
                   \<and> ''type'' \<in> set (split_whitespace (trim_quotes (trim x)))
               | None \<Rightarrow> False) (split_on (CHR '';'') params)))"

definition type_link_requests_container :: "string \<Rightarrow> bool" where
  "type_link_requests_container link = list_ex link_value_is_container (split_on (CHR '','') link)"

definition slug_char :: "char \<Rightarrow> bool" where
  "slug_char c \<longleftrightarrow> is_ascii_alphanumeric c \<or> c \<in> {CHR ''.'', CHR ''_'', CHR ''-''}"

definition child_name ::
  "('db, 'bl) env \<Rightarrow> string option \<Rightarrow> (('db, 'bl) world, resource_error, string) op" where
  "child_name E slug w =
     (let cleaned = filter slug_char (case slug of None \<Rightarrow> [] | Some s \<Rightarrow> s) in
      if cleaned = [] \<or> cleaned = ''.'' \<or> cleaned = ''..''
      then (Inr (e_mint E (w_draws w)), w\<lparr>w_draws := Suc (w_draws w)\<rparr>)
      else (Inr cleaned, w))"

section \<open>Lemmas\<close>

lemma node_of_Inr [simp]: "node_of E i = Inr j \<longleftrightarrow> j = i \<and> e_valid_iri E i"
  by (auto simp: node_of_def)

lemma ground_triple_default_quad [simp]:
  "ground_triple (default_quad s p x) = mk_triple (NamedNode s) p (TermNamed x)"
  by (simp add: ground_triple_def default_quad_def)

lemma insert_marked_exec:
  "http_iri g \<Longrightarrow> exec (insert_marked_update g body) G h =
     (if h = g then G g \<union> set body
      else if h = sys_graph_iri g then insert (present_triple g) (G h) else G h)"
  by (auto simp: insert_marked_update_def)

lemma op_bind_res: "op_bind (op_res r) f w = (case r of Inl e \<Rightarrow> (Inl e, w) | Inr x \<Rightarrow> f x w)"
  by (cases r) (simp_all add: op_bind_def)

context pod
begin

text \<open>Every container operation leaves the world as it was or performs one \<open>insert_marked\<close>.\<close>

lemma insert_marked_cases:
  assumes "insert_marked E g quads w = (res, w')"
  shows "(w' = w \<and> (\<exists>e. res = Inl (StoreErr e))) \<or>
    (res = Inr () \<and> sabs (w_db w') = exec (insert_marked_update g (serialize_for_insert quads)) (sabs (w_db w)) \<and>
     w_blobs w' = w_blobs w)"
  using assms unfolding insert_marked_def
  by (cases res) (auto dest!: st_update_ok st_update_err)

lemma ensure_container_cases:
  assumes "ensure_container E c w = (res, w')"
  shows "(w' = w \<and> (\<exists>e. res = Inl e)) \<or>
    (res = Inr () \<and> w_blobs w' = w_blobs w \<and>
     sabs (w_db w') = exec (insert_marked_update (container_iri c)
       [mk_triple (NamedNode (container_iri c)) RDF_TYPE (TermNamed LDP_CONTAINER),
        mk_triple (NamedNode (container_iri c)) RDF_TYPE (TermNamed LDP_BASIC_CONTAINER)]) (sabs (w_db w)))"
  using assms unfolding ensure_container_def
  by (auto simp: op_bind_res node_of_def serialize_for_insert_def dest!: insert_marked_cases split: if_splits)

lemma add_containment_cases:
  assumes "add_containment E p child w = (res, w')"
  shows "(w' = w \<and> (\<exists>e. res = Inl e)) \<or>
    (res = Inr () \<and> w_blobs w' = w_blobs w \<and>
     sabs (w_db w') = exec (insert_marked_update (container_iri p)
       [contains_triple (container_iri p) child]) (sabs (w_db w)))"
  using assms unfolding add_containment_def contains_triple_def
  by (auto simp: op_bind_res node_of_def serialize_for_insert_def dest!: insert_marked_cases split: if_splits)

lemma container_is_empty_ok:
  assumes "container_is_empty E c w = (Inr b, w')"
  shows "w' = w \<and> (b \<longleftrightarrow> (\<forall>x. mk_triple (NamedNode (container_iri c)) LDP_CONTAINS x \<notin> sabs (w_db w) (container_iri c)))"
proof -
  from assms obtain ts where ts: "b_objects (e_store E) (w_db w) (container_iri c) (container_iri c) LDP_CONTAINS = Inr ts"
    and b: "b = (ts = [])" and w: "w' = w"
    unfolding container_is_empty_def by (auto elim!: op_bind_InrE dest!: st_read_ok)
  have "ts = [] \<longleftrightarrow> set ts = {}" by simp
  also have "\<dots> \<longleftrightarrow> (\<forall>x. mk_triple (NamedNode (container_iri c)) LDP_CONTAINS x \<notin> sabs (w_db w) (container_iri c))"
    unfolding objects_ok [OF ts] by auto (metis mk_triple_sel, metis mk_triple_collapse)
  finally show ?thesis using b w by simp
qed

end

section \<open>Properties\<close>

text \<open>What a shape was validated against can be recovered: dropping the server-managed
  triples from a container's graph undoes exactly what creating it and linking members
  added, and keeps every triple a client may have written.\<close>

theorem without_server_managed_spec:
  assumes "\<not> body_sets_containment body"
    and "\<forall>t \<in> set body. t \<notin> {mk_triple (NamedNode c) RDF_TYPE (TermNamed LDP_CONTAINER),
                              mk_triple (NamedNode c) RDF_TYPE (TermNamed LDP_BASIC_CONTAINER)}"
    and "\<forall>t \<in> set added. t_predicate t = LDP_CONTAINS \<or>
           t \<in> {mk_triple (NamedNode c) RDF_TYPE (TermNamed LDP_CONTAINER),
                mk_triple (NamedNode c) RDF_TYPE (TermNamed LDP_BASIC_CONTAINER)}"
    and "set stored = set body \<union> set added"
  shows "set (without_server_managed stored c) = set body"
proof -
  have eq: "server_managed c t \<longleftrightarrow> t_predicate t = LDP_CONTAINS \<or>
      t \<in> {mk_triple (NamedNode c) RDF_TYPE (TermNamed LDP_CONTAINER),
           mk_triple (NamedNode c) RDF_TYPE (TermNamed LDP_BASIC_CONTAINER)}" for t :: triple
  proof -
    have "t = mk_triple (NamedNode c) RDF_TYPE x \<longleftrightarrow>
        t_subject t = NamedNode c \<and> t_predicate t = RDF_TYPE \<and> t_object t = x" for x
      by (metis mk_triple_collapse mk_triple_sel)
    then show ?thesis
      by (cases "t_object t") (auto simp: server_managed_def)
  qed
  have "\<not> server_managed c t" if "t \<in> set body" for t
    using that assms(1,2) unfolding eq by (auto simp: body_sets_containment_def list_ex_iff)
  moreover have "server_managed c t" if "t \<in> set added" for t
    using that assms(3) unfolding eq by blast
  ultimately show ?thesis using assms(4) unfolding without_server_managed_def by auto
qed

theorem without_server_managed_spec_witness:
  "set (without_server_managed
     [mk_triple (NamedNode ''c'') LDP_CONTAINS (TermNamed ''x''), mk_triple (NamedNode ''s'') ''p'' (TermNamed ''o''),
      mk_triple (NamedNode ''c'') RDF_TYPE (TermNamed LDP_CONTAINER)] ''c'') =
   {mk_triple (NamedNode ''s'') ''p'' (TermNamed ''o'')}"
proof -
  have "\<not> body_sets_containment [mk_triple (NamedNode ''s'') ''p'' (TermNamed ''o'')]" by code_simp
  from without_server_managed_spec [OF this, of "''c''"
      "[mk_triple (NamedNode ''c'') LDP_CONTAINS (TermNamed ''x''), mk_triple (NamedNode ''c'') RDF_TYPE (TermNamed LDP_CONTAINER)]"]
  show ?thesis by (simp add: insert_commute)
qed

text \<open>The name a \<open>POST\<close> gives its member is one safe path segment whatever \<open>Slug\<close> the
  client sent: non-empty, no slash or any other byte outside letters, digits, dot,
  underscore and hyphen, and never a dot segment, provided fresh UUIDs are so too.\<close>

theorem child_name_safe:
  assumes "\<And>n. e_mint E n \<noteq> [] \<and> list_all slug_char (e_mint E n) \<and> \<not> is_dot_segment (e_mint E n)"
  shows "\<exists>name w'. child_name E slug w = (Inr name, w') \<and> name \<noteq> [] \<and> list_all slug_char name
    \<and> \<not> is_dot_segment name \<and> CHR ''/'' \<notin> set name \<and> w_db w' = w_db w \<and> w_blobs w' = w_blobs w"
proof -
  have no_slash: "CHR ''/'' \<notin> set name" if "list_all slug_char name" for name
    using that by (auto simp: list_all_iff slug_char_def is_ascii_alphanumeric_def)
  let ?c = "filter slug_char (case slug of None \<Rightarrow> [] | Some s \<Rightarrow> s)"
  have c: "list_all slug_char ?c" by (simp add: list_all_iff)
  show ?thesis
  proof (cases "?c = [] \<or> ?c = ''.'' \<or> ?c = ''..''")
    case True
    then have "child_name E slug w = (Inr (e_mint E (w_draws w)), w\<lparr>w_draws := Suc (w_draws w)\<rparr>)"
      by (simp add: child_name_def Let_def)
    with assms [of "w_draws w"] no_slash show ?thesis by simp
  next
    case False
    then have "child_name E slug w = (Inr ?c, w)" by (simp add: child_name_def Let_def)
    moreover have "CHR ''/'' \<notin> set ?c" by (rule no_slash [OF c])
    ultimately show ?thesis using False c by (metis is_dot_segment_def)
  qed
qed

theorem child_name_safe_witness:
  "fst (child_name (mem_env\<lparr>e_mint := (\<lambda>n. CHR ''u'' # unary_mint n)\<rparr>) (Some ''../x y'') mem_world) = Inr ''..xy''
   \<and> CHR ''/'' \<notin> set ''..xy''"
proof -
  let ?E = "mem_env\<lparr>e_mint := (\<lambda>n. CHR ''u'' # unary_mint n)\<rparr>"
  have "e_mint ?E n \<noteq> [] \<and> list_all slug_char (e_mint ?E n) \<and> \<not> is_dot_segment (e_mint ?E n)" for n
    by (simp add: unary_mint_def list_all_iff slug_char_def is_ascii_alphanumeric_def is_dot_segment_def)
  from child_name_safe [of ?E "Some ''../x y''" mem_world, OF this]
  have "\<exists>name. fst (child_name ?E (Some ''../x y'') mem_world) = Inr name \<and> CHR ''/'' \<notin> set name" by auto
  moreover have "fst (child_name ?E (Some ''../x y'') mem_world) = Inr ''..xy''" by code_simp
  ultimately show ?thesis by auto
qed

end
