(* ===== verification/Auxiliaries.thy ===== *)
theory Auxiliaries
  imports Containers
begin

text \<open>
  Auxiliary resources, \<^verbatim>\<open>src/aux.rs\<close>: the guarded write, the guarded patch and the delete
  cascade; and the interleaving argument behind them. Requests run concurrently and the
  store only promises that one update is atomic, so \<open>issued\<close> lists every update the program
  ever sends, with whatever an earlier read may have seen, and \<open>store_step\<close> is one of them
  taking effect. The invariants hold in every state any interleaving can reach.
\<close>

section \<open>Operations\<close>

datatype aux_error = SubjectMissing | AuxMissing | TooLarge nat | AuxResource resource_error

definition MAX_AUX_TRIPLES :: nat where "MAX_AUX_TRIPLES = 1000"

definition subject_present_guard :: "aux_url \<Rightarrow> guard" where
  "subject_present_guard a =
     Some (sys_graph_iri (r_iri (a_subject a)), present_triple (r_iri (a_subject a)))"

definition conditional_put_update :: "aux_url \<Rightarrow> triple list \<Rightarrow> sop list" where
  "conditional_put_update a body =
     [ClearWhere (a_iri a) (subject_present_guard a),
      InsertWhere [(a_iri a, body), (sys_graph_iri (a_iri a), [present_triple (a_iri a)])]
        (subject_present_guard a)]"

definition aux_put ::
  "('db, 'bl) env \<Rightarrow> aux_url \<Rightarrow> triple list \<Rightarrow> (('db, 'bl) world, aux_error, unit) op" where
  "aux_put E a triples =
     (if length triples > MAX_AUX_TRIPLES then op_err (TooLarge (length triples))
      else op_bind (op_map_err AuxResource (op_bind (w_skolemize E (as_quads triples)) (\<lambda>sk.
             st_update E (conditional_put_update a (serialize_for_insert sk))))) (\<lambda>_.
           op_bind (op_map_err AuxResource (exists_op E (a_iri a))) (\<lambda>there.
             if \<not> there then op_err SubjectMissing else op_ok ())))"

definition aux_patch ::
  "('db, 'bl) env \<Rightarrow> aux_url \<Rightarrow> patch \<Rightarrow> (('db, 'bl) world, aux_error, patch_result) op" where
  "aux_patch E a P =
     op_bind (op_map_err AuxResource (exists_op E (a_iri a))) (\<lambda>there.
       if \<not> there then
         op_bind (op_map_err AuxResource (exists_op E (r_iri (a_subject a)))) (\<lambda>subject.
           op_err (if subject then AuxMissing else SubjectMissing))
       else
         op_bind (op_map_err AuxResource (patch_guarded E (a_iri a) P (subject_present_guard a))) (\<lambda>result.
         op_bind (op_map_err AuxResource (exists_op E (a_iri a))) (\<lambda>still.
           if \<not> still then op_err SubjectMissing else op_ok result)))"

definition delete_subject_ops :: "resource_url \<Rightarrow> iri list \<Rightarrow> sop list" where
  "delete_subject_ops u registered =
     map DropSilent registered
     @ [DropSilent (r_iri u), DropSilent (sys_graph_iri (r_iri u))]
     @ concat (map (\<lambda>k. [DropSilent (a_iri (url_aux u k)), DropSilent (sys_graph_iri (a_iri (url_aux u k)))])
         aux_kind_all)"

definition delete_subject ::
  "('db, 'bl) env \<Rightarrow> resource_url \<Rightarrow> (('db, 'bl) world, resource_error, bool) op" where
  "delete_subject E u =
     op_bind (exists_op E (r_iri u)) (\<lambda>existed.
     op_bind (registered_shelves E (r_iri u)) (\<lambda>registered.
     op_bind (op_res (case parent u of
          None \<Rightarrow> Inr []
        | Some p \<Rightarrow> res_bind (containment_removal E p (r_iri u)) (\<lambda>d. Inr [d]))) (\<lambda>unlink.
     op_bind (st_update E (delete_subject_ops u registered @ unlink)) (\<lambda>_.
     op_bind (case blob_key (e_path_from E) u of
          Some key \<Rightarrow> bl_delete E key
        | None \<Rightarrow> op_ok ()) (\<lambda>_. op_ok existed)))))"

section \<open>Storage URLs\<close>

text \<open>The URLs of a pod's resources and containers: everything \<open>resolve\<close> accepts but the
  auxiliaries, and what the derivations make of them.\<close>

definition storage_url :: "storage_space \<Rightarrow> resource_url \<Rightarrow> bool" where
  "storage_url sp u \<longleftrightarrow> in_space sp u \<and> reserved_segment (r_path u) = None"

definition pod_space :: "storage_space \<Rightarrow> bool" where
  "pod_space sp \<longleftrightarrow> wf_space sp \<and> prefix ''http'' (s_base sp)"

lemma pod_space_new: "new_space valid_iri base = Inr sp \<Longrightarrow> pod_space sp"
  using wf_space_new [of valid_iri base sp]
  by (auto simp: pod_space_def new_space_def str_simps prefix_def split: if_splits)

lemma resolve_storage_url:
  assumes "resolve valid_iri sp p = Inr t"
  shows "storage_url sp (target_subject t)"
  using assms by (cases rule: resolve_Inr_cases) (auto simp: storage_url_def in_space_def url_aux_def)

lemma http_append: "prefix ''http'' b \<Longrightarrow> http_iri (b @ x)"
  unfolding http_iri_def by (rule prefix_prefix)

lemma storage_http: "pod_space sp \<Longrightarrow> storage_url sp u \<Longrightarrow> http_iri (r_iri u)"
  by (simp add: pod_space_def storage_url_def in_space_def http_append)

lemma aux_iri_eq:
  assumes "pod_space sp" "storage_url sp u"
  shows "a_iri (url_aux u k) = s_base sp @ AUX_SEGMENT @ r_path u @ kind_suffix k"
proof -
  have "url_base u @ ''/'' = s_base sp"
    using assms by (intro in_space_url_base) (simp_all add: pod_space_def storage_url_def)
  then have "s_base sp @ AUX_SEGMENT @ r_path u @ kind_suffix k =
      (url_base u @ ''/'') @ AUX_SEGMENT @ r_path u @ kind_suffix k" by simp
  then show ?thesis by (simp add: url_aux_def)
qed

lemma aux_http: "pod_space sp \<Longrightarrow> storage_url sp u \<Longrightarrow> http_iri (a_iri (url_aux u k))"
  by (simp add: aux_iri_eq pod_space_def http_append)

lemma aux_iri_inject:
  assumes "pod_space sp" "storage_url sp u" "storage_url sp v" "a_iri (url_aux u k) = a_iri (url_aux v l)"
  shows "r_iri u = r_iri v \<and> k = l"
proof -
  have "k = l" by (cases k; cases l) simp
  with assms have "r_path u = r_path v" by (simp add: aux_iri_eq)
  with assms \<open>k = l\<close> show ?thesis by (auto simp: storage_url_def in_space_def)
qed

text \<open>No auxiliary's graph is a resource's graph.\<close>

lemma storage_not_aux:
  assumes "pod_space sp" "storage_url sp u" "storage_url sp v"
  shows "r_iri v \<noteq> a_iri (url_aux u k)"
proof
  assume "r_iri v = a_iri (url_aux u k)"
  then have "tl (r_path v) = AUX_SEGMENT @ r_path u @ kind_suffix k"
    using assms by (simp add: aux_iri_eq storage_url_def in_space_def)
  moreover have "prefix ''/'' (r_path v)" "prefix ''/'' (r_path u)" using assms by (auto simp: storage_url_def in_space_def)
  ultimately have "segment_remainder (r_path v) AUX_SEGMENT = Some (r_path u @ kind_suffix k)"
    by (cases "r_path v") (auto simp: segment_remainder_Some prefix_def)
  with assms(3) show False by (simp add: storage_url_def reserved_segment_None)
qed

lemma storage_parent:
  assumes "pod_space sp" "storage_url sp u" "parent u = Some c"
  shows "storage_url sp (as_resource c)"
proof -
  have sp: "in_space sp (as_resource c)" "parent_path (r_path u) = Some (container_path c)"
    using parent_in_space [of sp u c] assms by (auto simp: pod_space_def storage_url_def)
  then have "container_path c \<in> set (slash_prefixes (r_path u))"
    by (simp add: slash_prefixes_parent [of "r_path u"])
  from slash_prefix_not_reserved [OF this] sp assms(2) show ?thesis
    by (simp add: storage_url_def container_path_def)
qed

section \<open>Interleavings\<close>

abbreviation shelf_keys :: "iri list \<Rightarrow> bool" where
  "shelf_keys ks \<equiv> list_all (prefix SHELF_PREFIX) ks"

text \<open>The updates that write an auxiliary, those that write a resource or its auxiliary, and the one that
  deletes a subject with all it has.\<close>

inductive aux_marking :: "storage_space \<Rightarrow> resource_url \<Rightarrow> sop list \<Rightarrow> bool" for sp u where
  delete_aux: "storage_url sp u \<Longrightarrow> aux_marking sp u (delete_rdf_update (a_iri (url_aux u k)))"
| aux_put: "storage_url sp u \<Longrightarrow> aux_marking sp u (conditional_put_update (url_aux u k) body)"
| aux_patch: "storage_url sp u \<Longrightarrow> aux_marking sp u [ModifyGround (a_iri (url_aux u k)) ds ins gd]"

inductive marking :: "storage_space \<Rightarrow> resource_url \<Rightarrow> sop list \<Rightarrow> bool" for sp u where
  put_dataset: "storage_url sp u \<Longrightarrow> shelf_keys reg \<Longrightarrow> shelf_keys (map fst sh) \<Longrightarrow>
    marking sp u (put_dataset_update (r_iri u) reg df sh mt)"
| put_blob: "storage_url sp u \<Longrightarrow> shelf_keys reg \<Longrightarrow> marking sp u (put_blob_update (r_iri u) reg mt)"
| put_rdf: "storage_url sp u \<Longrightarrow> marking sp u (put_rdf_update (r_iri u) body)"
| insert_marked: "storage_url sp u \<Longrightarrow> marking sp u (insert_marked_update (r_iri u) body)"
| patch: "storage_url sp u \<Longrightarrow> marking sp u [ModifyGround (r_iri u) ds ins gd]"
| aux: "aux_marking sp u us \<Longrightarrow> marking sp u us"

inductive issued :: "storage_space \<Rightarrow> sop list \<Rightarrow> bool" for sp where
  marking: "marking sp u us \<Longrightarrow> issued sp us"
| delete_subject: "storage_url sp u \<Longrightarrow> shelf_keys reg \<Longrightarrow>
    set unlink \<subseteq> {DeleteData g ts | g ts. http_iri g} \<Longrightarrow> issued sp (delete_subject_ops u reg @ unlink)"

inductive store_step :: "storage_space \<Rightarrow> graphs \<Rightarrow> graphs \<Rightarrow> bool" for sp where
  step: "issued sp us \<Longrightarrow> store_step sp G (exec us G)"

inductive_cases store_stepE: "store_step sp G G'"

definition presentG :: "graphs \<Rightarrow> iri \<Rightarrow> bool" where
  "presentG G g \<longleftrightarrow> present_triple g \<in> G (sys_graph_iri g)"

text \<open>No auxiliary without its subject, and the registry lists only shelves.\<close>

definition no_orphan :: "storage_space \<Rightarrow> graphs \<Rightarrow> bool" where
  "no_orphan sp G \<longleftrightarrow> (\<forall>u k. storage_url sp u \<longrightarrow> presentG G (a_iri (url_aux u k)) \<longrightarrow> presentG G (r_iri u))"

definition registry_ok :: "graphs \<Rightarrow> bool" where
  "registry_ok G \<longleftrightarrow> (\<forall>i t. t \<in> G (sys_graph_iri i) \<longrightarrow> t_predicate t = SYS_HAS_SUBGRAPH \<longrightarrow>
     (\<exists>k. t_object t = TermNamed k \<and> prefix SHELF_PREFIX k))"

text \<open>How each update changes the presence of the graphs.\<close>

lemma present_triple_inject [simp]: "present_triple a = present_triple b \<longleftrightarrow> a = b"
  by (simp add: present_triple_def)

lemma shelf_keys_sys: "shelf_keys ks \<Longrightarrow> sys_graph_iri i \<notin> set ks"
  unfolding list_all_iff using shelf_not_sys(2) by blast

lemma presentG_put_dataset:
  assumes "http_iri g" "shelf_keys reg" "shelf_keys (map fst sh)"
  shows "presentG (exec (put_dataset_update g reg df sh mt) G) h \<longleftrightarrow> h = g \<or> presentG G h"
proof -
  have keys: "sys_graph_iri h \<notin> set reg" "sys_graph_iri h \<notin> fst ` set sh"
    using shelf_keys_sys [OF assms(2)] shelf_keys_sys [OF assms(3)] by auto
  then have "\<nexists>n ts. (sys_graph_iri h, n, ts) \<in> set sh" by force
  moreover have "present_triple h \<in> set (registry_triples g mt sh) \<longleftrightarrow> h = g"
    by (auto simp: registry_triples_iff present_triple_def sys_vocabulary)
  ultimately show ?thesis
    using keys assms(1) unfolding presentG_def put_dataset_exec by auto
qed

lemma presentG_put_blob:
  assumes "http_iri g" "shelf_keys reg"
  shows "presentG (exec (put_blob_update g reg mt) G) h \<longleftrightarrow> h = g \<or> presentG G h"
  using shelf_keys_sys [OF assms(2), of h] assms(1)
  by (auto simp: presentG_def put_blob_update_def exec_drops present_triple_def sys_vocabulary)

lemma presentG_put_rdf:
  "http_iri g \<Longrightarrow> presentG (exec (put_rdf_update g body) G) h \<longleftrightarrow> h = g \<or> presentG G h"
  by (auto simp: presentG_def put_rdf_update_def)

lemma presentG_insert_marked:
  "http_iri g \<Longrightarrow> presentG (exec (insert_marked_update g body) G) h \<longleftrightarrow> h = g \<or> presentG G h"
  by (auto simp: presentG_def insert_marked_exec)

lemma presentG_delete_rdf:
  "http_iri g \<Longrightarrow> presentG (exec (delete_rdf_update g) G) h \<longleftrightarrow> h \<noteq> g \<and> presentG G h"
  by (auto simp: presentG_def delete_rdf_update_def)

lemma presentG_patch:
  "http_iri g \<Longrightarrow> presentG (exec [ModifyGround g ds ins gd] G) h = presentG G h"
  by (simp add: presentG_def)

lemma guard_aux: "guard_holds (subject_present_guard a) G = presentG G (r_iri (a_subject a))"
  by (simp add: guard_holds_def subject_present_guard_def presentG_def)

lemma aux_put_exec:
  assumes "http_iri (a_iri a)"
  shows "exec (conditional_put_update a body) G =
    (if presentG G (r_iri (a_subject a))
     then (\<lambda>h. if h = a_iri a then set body
               else if h = sys_graph_iri (a_iri a) then insert (present_triple (a_iri a)) (G h) else G h)
     else G)"
proof -
  have "guard_holds (subject_present_guard a) (G(a_iri a := {})) = presentG G (r_iri (a_subject a))"
    using assms by (simp add: guard_holds_def subject_present_guard_def presentG_def)
  with assms show ?thesis
    by (auto simp: conditional_put_update_def guard_aux fun_eq_iff)
qed

lemma presentG_aux_put:
  "http_iri (a_iri a) \<Longrightarrow> presentG (exec (conditional_put_update a body) G) h \<longleftrightarrow>
     presentG G h \<or> h = a_iri a \<and> presentG G (r_iri (a_subject a))"
  by (auto simp: aux_put_exec presentG_def)

lemma exec_unlink:
  "set us \<subseteq> {DeleteData g ts | g ts. http_iri g} \<Longrightarrow> exec us G (sys_graph_iri i) = G (sys_graph_iri i)"
  by (induction us arbitrary: G) auto

lemma delete_subject_ops_exec:
  "exec (delete_subject_ops u reg) G = (\<lambda>h. if h \<in> set reg \<union> {r_iri u, sys_graph_iri (r_iri u)} \<union>
     {a_iri (url_aux u Acl), sys_graph_iri (a_iri (url_aux u Acl))} then {} else G h)"
proof -
  have "delete_subject_ops u reg = map DropSilent (reg @ [r_iri u, sys_graph_iri (r_iri u),
      a_iri (url_aux u Acl), sys_graph_iri (a_iri (url_aux u Acl))])"
    by (simp add: delete_subject_ops_def aux_kind_all_def)
  then show ?thesis by (auto simp: exec_drops fun_eq_iff)
qed

lemma presentG_delete_subject:
  assumes "http_iri (r_iri u)" "http_iri (a_iri (url_aux u Acl))" "shelf_keys reg"
    "set unlink \<subseteq> {DeleteData g ts | g ts. http_iri g}"
  shows "presentG (exec (delete_subject_ops u reg @ unlink) G) h \<longleftrightarrow>
    h \<noteq> r_iri u \<and> h \<noteq> a_iri (url_aux u Acl) \<and> presentG G h"
  using assms shelf_keys_sys [OF assms(3), of h]
  by (auto simp: presentG_def exec_unlink delete_subject_ops_exec)

lemma no_orphanI:
  "(\<And>u k. storage_url sp u \<Longrightarrow> presentG G (a_iri (url_aux u k)) \<Longrightarrow> presentG G (r_iri u)) \<Longrightarrow> no_orphan sp G"
  by (simp add: no_orphan_def)

lemma no_orphanD: "no_orphan sp G \<Longrightarrow> storage_url sp u \<Longrightarrow> presentG G (a_iri (url_aux u k)) \<Longrightarrow> presentG G (r_iri u)"
  unfolding no_orphan_def by blast

lemma url_aux_subject [simp]: "a_subject (url_aux u k) = u"
  by (simp add: url_aux_def)

text \<open>An update that marks a resource and forgets nothing keeps the invariant.\<close>

lemma no_orphan_mark:
  assumes "pod_space sp" "storage_url sp u" "no_orphan sp G"
    and "\<And>h. presentG G' h \<longleftrightarrow> h = r_iri u \<or> presentG G h"
  shows "no_orphan sp G'"
proof (rule no_orphanI)
  fix v k assume v: "storage_url sp v" and p: "presentG G' (a_iri (url_aux v k))"
  then have "presentG G (a_iri (url_aux v k))"
    using assms(4) storage_not_aux [OF assms(1) v assms(2)] by metis
  with assms(3,4) v show "presentG G' (r_iri v)" by (simp add: no_orphanD)
qed

lemma no_orphan_aux:
  assumes sp: "pod_space sp" and "aux_marking sp u us" and G: "no_orphan sp G"
  shows "no_orphan sp (exec us G)"
  using assms(2)
proof cases
  case (delete_aux k)
  have pr: "presentG (exec us G) h \<longleftrightarrow> h \<noteq> a_iri (url_aux u k) \<and> presentG G h" for h
    unfolding delete_aux(1) by (rule presentG_delete_rdf [OF aux_http [OF sp delete_aux(2)]])
  show ?thesis
    using G storage_not_aux [OF sp delete_aux(2)] by (auto simp: pr no_orphan_def)
next
  case (aux_put k body)
  have pr: "presentG (exec us G) h \<longleftrightarrow> presentG G h \<or> h = a_iri (url_aux u k) \<and> presentG G (r_iri u)" for h
    unfolding aux_put(1) using presentG_aux_put [OF aux_http [OF sp aux_put(2)]] by simp
  show ?thesis
  proof (rule no_orphanI)
    fix v l assume v: "storage_url sp v" and "presentG (exec us G) (a_iri (url_aux v l))"
    then consider "presentG G (a_iri (url_aux v l))" | "a_iri (url_aux v l) = a_iri (url_aux u k)" "presentG G (r_iri u)"
      using pr by blast
    then show "presentG (exec us G) (r_iri v)"
    proof cases
      case 1
      with G v pr show ?thesis by (simp add: no_orphanD)
    next
      case 2
      with aux_iri_inject [OF sp v aux_put(2)] pr show ?thesis by simp
    qed
  qed
next
  case (aux_patch k ds ins gd)
  with G show ?thesis unfolding no_orphan_def aux_patch(1) presentG_patch [OF aux_http [OF sp aux_patch(2)]] by blast
qed

lemma no_orphan_marking:
  assumes sp: "pod_space sp" and "marking sp u us" and G: "no_orphan sp G"
  shows "no_orphan sp (exec us G)"
  using assms(2)
proof cases
  case (put_dataset reg sh df mt)
  with sp G show ?thesis
    by (intro no_orphan_mark [OF sp put_dataset(2) G]) (simp add: presentG_put_dataset storage_http)
next
  case (put_blob reg mt)
  with sp G show ?thesis
    by (intro no_orphan_mark [OF sp put_blob(2) G]) (simp add: presentG_put_blob storage_http)
next
  case (put_rdf body)
  with sp G show ?thesis
    by (intro no_orphan_mark [OF sp put_rdf(2) G]) (simp add: presentG_put_rdf storage_http)
next
  case (insert_marked body)
  with sp G show ?thesis
    by (intro no_orphan_mark [OF sp insert_marked(2) G]) (simp add: presentG_insert_marked storage_http)
next
  case (patch ds ins gd)
  with G show ?thesis unfolding no_orphan_def patch(1) presentG_patch [OF storage_http [OF sp patch(2)]] by blast
next
  case aux
  then show ?thesis by (rule no_orphan_aux [OF sp _ G])
qed

lemma no_orphan_step:
  assumes sp: "pod_space sp" and "issued sp us" and G: "no_orphan sp G"
  shows "no_orphan sp (exec us G)"
  using assms(2)
proof cases
  case marking
  with sp G show ?thesis by (intro no_orphan_marking)
next
  case (delete_subject u reg unlink)
  have pr: "presentG (exec us G) h \<longleftrightarrow> h \<noteq> r_iri u \<and> h \<noteq> a_iri (url_aux u Acl) \<and> presentG G h" for h
    unfolding delete_subject(1)
    by (rule presentG_delete_subject [OF storage_http [OF sp delete_subject(2)] aux_http [OF sp delete_subject(2)]
          delete_subject(3,4)])
  show ?thesis
  proof (rule no_orphanI)
    fix v l assume v: "storage_url sp v" and p: "presentG (exec us G) (a_iri (url_aux v l))"
    have "l = Acl" by (cases l) simp
    with p pr have "a_iri (url_aux v Acl) \<noteq> a_iri (url_aux u Acl)" "presentG G (a_iri (url_aux v Acl))" by auto
    moreover from this(1) have "r_iri v \<noteq> r_iri u"
      using v delete_subject(2) by (auto simp: aux_iri_eq [OF sp] storage_url_def in_space_def prefix_def)
    moreover have "presentG G (r_iri v)" using G v calculation(2) by (rule no_orphanD)
    moreover have "r_iri v \<noteq> a_iri (url_aux u Acl)" by (rule storage_not_aux [OF sp delete_subject(2) v])
    ultimately show "presentG (exec us G) (r_iri v)" using pr by blast
  qed
qed

text \<open>The registry keeps listing shelves only, so every later read of it is a list of shelf keys.\<close>

lemma registry_okI:
  "registry_ok G \<Longrightarrow> (\<And>i t. t \<in> G' (sys_graph_iri i) \<Longrightarrow> t_predicate t = SYS_HAS_SUBGRAPH \<Longrightarrow>
     t \<in> G (sys_graph_iri i) \<or> (\<exists>k. t_object t = TermNamed k \<and> prefix SHELF_PREFIX k)) \<Longrightarrow> registry_ok G'"
  unfolding registry_ok_def by blast

lemma registry_ok_aux:
  assumes sp: "pod_space sp" and "aux_marking sp u us" and G: "registry_ok G"
  shows "registry_ok (exec us G)"
  using assms(2)
proof cases
  case (delete_aux k)
  then show ?thesis
    by (intro registry_okI [OF G]) (auto simp: delete_rdf_update_def split: if_splits)
next
  case (aux_put k body)
  have "http_iri (a_iri (url_aux u k))" by (rule aux_http [OF sp aux_put(2)])
  then show ?thesis unfolding aux_put(1)
    by (intro registry_okI [OF G]) (auto simp: aux_put_exec present_triple_def sys_vocabulary split: if_splits)
next
  case (aux_patch k ds ins gd)
  with aux_http [OF sp aux_patch(2)] show ?thesis by (intro registry_okI [OF G]) (auto split: if_splits)
qed

lemma registry_ok_marking:
  assumes sp: "pod_space sp" and "marking sp u us" and G: "registry_ok G"
  shows "registry_ok (exec us G)"
  using assms(2)
proof cases
  case (put_dataset reg sh df mt)
  have nk: "(sys_graph_iri i, n, ts) \<notin> set sh" for i n ts
    using shelf_keys_sys [OF put_dataset(4), of i] by force
  have reg: "t_object t = TermNamed k \<longrightarrow> prefix SHELF_PREFIX k"
    if rt: "t \<in> set (registry_triples (r_iri u) mt sh)" "t_predicate t = SYS_HAS_SUBGRAPH" for t k
  proof
    assume "t_object t = TermNamed k"
    then obtain n ts where "(k, n, ts) \<in> set sh"
      using rt by (auto simp: registry_triples_iff present_triple_def sys_vocabulary)
    then show "prefix SHELF_PREFIX k" using put_dataset(4) by (force simp: list_all_iff)
  qed
  have named: "\<exists>k. t_object t = TermNamed k"
    if "t \<in> set (registry_triples (r_iri u) mt sh)" "t_predicate t = SYS_HAS_SUBGRAPH" for t
    using that by (auto simp: registry_triples_iff present_triple_def sys_vocabulary)
  show ?thesis
  proof (rule registry_okI [OF G])
    fix i t assume "t \<in> exec us G (sys_graph_iri i)" and p: "t_predicate t = SYS_HAS_SUBGRAPH"
    then have "t \<in> G (sys_graph_iri i) \<or> t \<in> set (registry_triples (r_iri u) mt sh)"
      unfolding put_dataset(1) put_dataset_exec using nk storage_http [OF sp put_dataset(2)] by auto
    with reg named p show "t \<in> G (sys_graph_iri i) \<or> (\<exists>k. t_object t = TermNamed k \<and> prefix SHELF_PREFIX k)" by blast
  qed
next
  case (put_blob reg mt)
  have "http_iri (r_iri u)" by (rule storage_http [OF sp put_blob(2)])
  then show ?thesis unfolding put_blob(1)
    by (intro registry_okI [OF G])
       (auto simp: put_blob_update_def exec_drops present_triple_def sys_vocabulary split: if_splits)
next
  case (put_rdf body)
  have "http_iri (r_iri u)" by (rule storage_http [OF sp put_rdf(2)])
  then show ?thesis unfolding put_rdf(1)
    by (intro registry_okI [OF G]) (auto simp: put_rdf_update_def present_triple_def sys_vocabulary split: if_splits)
next
  case (insert_marked body)
  have "http_iri (r_iri u)" by (rule storage_http [OF sp insert_marked(2)])
  then show ?thesis unfolding insert_marked(1)
    by (intro registry_okI [OF G]) (auto simp: insert_marked_exec present_triple_def sys_vocabulary split: if_splits)
next
  case (patch ds ins gd)
  with storage_http [OF sp patch(2)] show ?thesis by (intro registry_okI [OF G]) (auto split: if_splits)
next
  case aux
  then show ?thesis by (rule registry_ok_aux [OF sp _ G])
qed

lemma registry_ok_step:
  assumes sp: "pod_space sp" and "issued sp us" and G: "registry_ok G"
  shows "registry_ok (exec us G)"
  using assms(2)
proof cases
  case marking
  with sp G show ?thesis by (intro registry_ok_marking)
next
  case (delete_subject u reg unlink)
  then show ?thesis
    by (intro registry_okI [OF G]) (auto simp: exec_unlink delete_subject_ops_exec split: if_splits)
qed

section \<open>The operations are steps\<close>

definition steps_to :: "(sop list \<Rightarrow> bool) \<Rightarrow> graphs \<Rightarrow> graphs \<Rightarrow> bool" where
  "steps_to P G G' \<longleftrightarrow> G' = G \<or> (\<exists>us. P us \<and> G' = exec us G)"

lemma steps_toI: "P us \<Longrightarrow> G' = exec us G \<Longrightarrow> steps_to P G G'"
  by (auto simp: steps_to_def)

lemma steps_to_refl [simp, intro]: "steps_to P G G"
  by (simp add: steps_to_def)

lemma steps_to_mono: "steps_to P G G' \<Longrightarrow> (\<And>us. P us \<Longrightarrow> Q us) \<Longrightarrow> steps_to Q G G'"
  by (auto simp: steps_to_def)

lemma steps_to_issued: "steps_to (marking sp u) G G' \<Longrightarrow> steps_to (issued sp) G G'"
  by (auto simp: steps_to_def intro: issued.marking)

lemma steps_to_aux: "steps_to (aux_marking sp u) G G' \<Longrightarrow> steps_to (issued sp) G G'"
  by (auto simp: steps_to_def intro: issued.marking marking.aux)

lemma steps_to_store: "steps_to (issued sp) G G' \<Longrightarrow> G' = G \<or> store_step sp G G'"
  by (auto simp: steps_to_def intro: store_step.intros)

text \<open>Writing a resource or its auxiliary leaves every other resource as it is, and forgets none.\<close>

lemma storage_eqI: "storage_url sp u \<Longrightarrow> storage_url sp v \<Longrightarrow> r_iri u = r_iri v \<Longrightarrow> u = (v :: resource_url)"
  by (cases u; cases v) (auto simp: storage_url_def in_space_def prefix_def)

lemma aux_marking_frame:
  assumes sp: "pod_space sp" and "aux_marking sp u us" and v: "storage_url sp v"
  shows "exec us G (r_iri v) = G (r_iri v) \<and> (presentG (exec us G) (r_iri v) \<longleftrightarrow> presentG G (r_iri v))"
  using assms(2)
proof cases
  case (delete_aux k)
  with storage_not_aux [OF sp delete_aux(2) v] aux_http [OF sp delete_aux(2)] storage_http [OF sp v] show ?thesis
    by (auto simp: presentG_delete_rdf) (auto simp: delete_rdf_update_def)
next
  case (aux_put k body)
  with storage_not_aux [OF sp aux_put(2) v] aux_http [OF sp aux_put(2)] storage_http [OF sp v] show ?thesis
    by (auto simp: presentG_aux_put) (auto simp: aux_put_exec split: if_splits)
next
  case (aux_patch k ds ins gd)
  have "r_iri v \<noteq> a_iri (url_aux u k)" by (rule storage_not_aux [OF sp aux_patch(2) v])
  then show ?thesis unfolding aux_patch(1) presentG_patch [OF aux_http [OF sp aux_patch(2)]] by simp
qed

lemma marking_present:
  assumes sp: "pod_space sp" and "marking sp u us" and v: "storage_url sp v"
  shows "presentG (exec us G) (r_iri v) \<longleftrightarrow> presentG G (r_iri v) \<or> v = u \<and> presentG (exec us G) (r_iri u)"
  using assms(2)
proof cases
  case (patch ds ins gd)
  show ?thesis unfolding patch(1) presentG_patch [OF storage_http [OF sp patch(2)]] by blast
next
  case aux
  from aux_marking_frame [OF sp this v] show ?thesis by blast
qed (use storage_eqI [OF _ v] in \<open>auto simp: presentG_put_dataset presentG_put_blob presentG_put_rdf
  presentG_insert_marked storage_http [OF sp]\<close>)

lemma marking_frame:
  assumes sp: "pod_space sp" and "marking sp u us" and v: "storage_url sp v" "v \<noteq> u"
  shows "exec us G (r_iri v) = G (r_iri v)"
proof -
  have u: "storage_url sp u" using assms(2) by cases (auto elim: aux_marking.cases)
  have http: "http_iri (r_iri u)" "http_iri (r_iri v)" using sp u v by (auto simp: storage_http)
  have ne: "r_iri v \<noteq> r_iri u" using storage_eqI [OF u v(1)] v(2) by auto
  have key: "r_iri v \<notin> set ks" if "shelf_keys ks" for ks
    using that http_not_shelf(1) [OF http(2)] unfolding list_all_iff by blast
  show ?thesis using assms(2)
  proof cases
    case (put_dataset reg sh df mt)
    with key [OF put_dataset(3)] key [OF put_dataset(4)] ne http show ?thesis by (force simp: put_dataset_exec)
  next
    case (put_blob reg mt)
    with key [OF put_blob(3)] ne http show ?thesis by (simp add: put_blob_update_def exec_drops)
  next
    case aux
    from aux_marking_frame [OF sp this v(1)] show ?thesis by blast
  qed (use ne http in \<open>auto simp: put_rdf_update_def insert_marked_exec\<close>)
qed

definition patching :: "iri \<Rightarrow> patch \<Rightarrow> guard \<Rightarrow> sop list \<Rightarrow> bool" where
  "patching g P gd us \<longleftrightarrow> (\<exists>ds ins b. us = [ModifyGround g ds ins gd] \<and> substitute (deletions P) b = Inr ds)"

lemma patching_marking: "storage_url sp u \<Longrightarrow> patching (r_iri u) P gd us \<Longrightarrow> marking sp u us"
  by (auto simp: patching_def intro: marking.patch)

lemma patching_aux: "storage_url sp u \<Longrightarrow> patching (a_iri (url_aux u k)) P gd us \<Longrightarrow> aux_marking sp u us"
  by (auto simp: patching_def intro: aux_marking.aux_patch)

lemma registry_shelf_keys:
  assumes "registry_ok G"
    and "set ks = {k. mk_triple (NamedNode i) SYS_HAS_SUBGRAPH (TermNamed k) \<in> G (sys_graph_iri i)}"
  shows "shelf_keys ks"
  unfolding list_all_iff
proof
  fix k assume "k \<in> set ks"
  then have "mk_triple (NamedNode i) SYS_HAS_SUBGRAPH (TermNamed k) \<in> G (sys_graph_iri i)" using assms(2) by simp
  with assms(1) obtain k' where "TermNamed k = TermNamed k'" "prefix SHELF_PREFIX k'"
    unfolding registry_ok_def by fastforce
  then show "prefix SHELF_PREFIX k" by simp
qed

context pod
begin

lemma st_update_step:
  assumes "st_update E us w = (res, w')" and "P us"
  shows "steps_to P (sabs (w_db w)) (sabs (w_db w'))"
proof (cases res)
  case (Inl e)
  with assms(1) show ?thesis by (auto dest: st_update_err)
next
  case (Inr x)
  with assms show ?thesis by (auto dest!: st_update_ok intro: steps_toI)
qed

lemma registered_shelves_step:
  assumes "op_bind (registered_shelves E i) f w = (res, w')" and "registry_ok (sabs (w_db w))"
    and "\<And>reg r1 w1. shelf_keys reg \<Longrightarrow> f reg w = (r1, w1) \<Longrightarrow> steps_to P (sabs (w_db w)) (sabs (w_db w1))"
  shows "steps_to P (sabs (w_db w)) (sabs (w_db w'))"
  using assms(1)
proof (cases rule: op_bind_cases)
  case (err e)
  then show ?thesis by (auto dest: registered_shelves_err)
next
  case (ok reg w1)
  note r = registered_shelves_ok [OF ok(1)]
  then have "shelf_keys reg" using registry_shelf_keys [OF assms(2)] by blast
  with r ok(2) assms(3) show ?thesis by simp
qed

lemma bl_delete_db: "bl_delete E k w = (res, w') \<Longrightarrow> w_db w' = w_db w"
  by (auto simp: bl_delete_def split: sum.splits)

lemma bl_put_db: "bl_put E k v w = (res, w') \<Longrightarrow> w_db w' = w_db w"
  by (auto simp: bl_put_def split: sum.splits)

lemma w_skolemize_db: "w_skolemize E d w = (res, w') \<Longrightarrow> w_db w' = w_db w \<and> w_blobs w' = w_blobs w \<and> (\<exists>sk. res = Inr sk)"
  by (auto simp: w_skolemize_def Let_def split: prod.splits)

lemma put_rdf_step:
  assumes "storage_url sp u" "put_rdf E (r_iri u) ts w = (res, w')"
  shows "steps_to (marking sp u) (sabs (w_db w)) (sabs (w_db w'))"
  using assms(2) unfolding put_rdf_def
proof (cases rule: op_bind_cases)
  case (err e)
  then show ?thesis by (auto dest: w_skolemize_db)
next
  case (ok sk w1)
  have "w_db w1 = w_db w" using w_skolemize_db [OF ok(1)] by simp
  with st_update_step [where P = "marking sp u", OF ok(2) marking.put_rdf [OF assms(1)]] show ?thesis by simp
qed

lemma put_dataset_step:
  assumes sp: "pod_space sp" "storage_url sp u" and reg: "registry_ok (sabs (w_db w))"
    and "put_dataset E u ds fmt w = (res, w')"
  shows "steps_to (marking sp u) (sabs (w_db w)) (sabs (w_db w'))"
proof -
  let ?key = "shelf_key (e_sha E) (r_iri u)"
  obtain df sh where split: "split_quads ?key ds [] [] = (df, sh)" by (cases "split_quads ?key ds [] []")
  have push: "shelf_keys (map fst s) \<Longrightarrow> shelf_keys (map fst (shelf_push (?key n) n t s))" for n t s
    by (auto simp: shelf_push_keys)
  have keys: "split_quads ?key qs d s = (df, sh) \<Longrightarrow> shelf_keys (map fst s) \<Longrightarrow> shelf_keys (map fst sh)" for qs d s
    by (induction qs arbitrary: d s) (auto split: ground_graph.splits dest: push)
  show ?thesis
  proof (rule registered_shelves_step [OF _ reg])
    show "op_bind (registered_shelves E (r_iri u)) (\<lambda>registered.
        if list_ex (\<lambda>(key, name, _). \<not> e_valid_iri E name) sh then op_err InvalidIri
        else op_bind (st_update E (put_dataset_update (r_iri u) registered df sh (format_media_type fmt))) (\<lambda>_.
          case blob_key (e_path_from E) u of Some key \<Rightarrow> bl_delete E key | None \<Rightarrow> op_ok ())) w = (res, w')"
      using assms(4) by (simp add: put_dataset_def Let_def split)
  next
    fix rg r1 w1 assume rg: "shelf_keys rg" and run:
      "(if list_ex (\<lambda>(key, name, _). \<not> e_valid_iri E name) sh then op_err InvalidIri
        else op_bind (st_update E (put_dataset_update (r_iri u) rg df sh (format_media_type fmt))) (\<lambda>_.
          case blob_key (e_path_from E) u of Some key \<Rightarrow> bl_delete E key | None \<Rightarrow> op_ok ())) w = (r1, w1)"
    have iss: "marking sp u (put_dataset_update (r_iri u) rg df sh (format_media_type fmt))"
      using keys [OF split] rg sp(2) by (simp add: marking.put_dataset)
    show "steps_to (marking sp u) (sabs (w_db w)) (sabs (w_db w1))"
      using run by (auto split: if_splits option.splits elim!: op_bind_cases
          dest: st_update_step [where P = "marking sp u", OF _ iss]) (metis bl_delete_db iss st_update_step [where P = "marking sp u"])
  qed
qed

lemma put_blob_step:
  assumes "storage_url sp u" and reg: "registry_ok (sabs (w_db w))"
    and "put_blob E u bytes mt w = (res, w')"
  shows "steps_to (marking sp u) (sabs (w_db w)) (sabs (w_db w'))"
proof (cases "blob_key (e_path_from E) u")
  case None
  with assms(3) show ?thesis by (simp add: put_blob_def)
next
  case (Some key)
  show ?thesis
  proof (rule registered_shelves_step [OF _ reg])
    show "op_bind (registered_shelves E (r_iri u)) (\<lambda>shelves. op_bind (bl_put E key bytes) (\<lambda>_.
        st_update E (put_blob_update (r_iri u) shelves (mt_raw mt)))) w = (res, w')"
      using assms(3) Some by (simp add: put_blob_def)
  next
    fix rg r1 w1 assume rg: "shelf_keys rg"
      and run: "op_bind (bl_put E key bytes) (\<lambda>_. st_update E (put_blob_update (r_iri u) rg (mt_raw mt))) w = (r1, w1)"
    from run show "steps_to (marking sp u) (sabs (w_db w)) (sabs (w_db w1))"
    proof (cases rule: op_bind_cases)
      case (err e)
      then show ?thesis by (simp add: bl_put_db)
    next
      case (ok x w2)
      with st_update_step [where P = "marking sp u", OF ok(2) marking.put_blob [OF assms(1) rg]] show ?thesis by (simp add: bl_put_db)
    qed
  qed
qed

lemma insert_marked_step:
  assumes "storage_url sp u" "insert_marked E (r_iri u) quads w = (res, w')"
  shows "steps_to (marking sp u) (sabs (w_db w)) (sabs (w_db w'))"
  using assms(2) marking.insert_marked [OF assms(1)] unfolding insert_marked_def by (rule st_update_step [where P = "marking sp u"])

lemma ensure_container_step:
  assumes "storage_url sp (as_resource c)" "ensure_container E c w = (res, w')"
  shows "steps_to (marking sp (as_resource c)) (sabs (w_db w)) (sabs (w_db w'))"
  using ensure_container_cases [OF assms(2)] marking.insert_marked [OF assms(1)]
  by (auto simp: container_iri_def intro: steps_toI)

lemma add_containment_step:
  assumes "storage_url sp (as_resource c)" "add_containment E c child w = (res, w')"
  shows "steps_to (marking sp (as_resource c)) (sabs (w_db w)) (sabs (w_db w'))"
  using add_containment_cases [OF assms(2)] marking.insert_marked [OF assms(1)]
  by (auto simp: container_iri_def intro: steps_toI)

lemma delete_rdf_step:
  assumes "storage_url sp u" "delete_rdf E (a_iri (url_aux u k)) w = (res, w')"
  shows "steps_to (aux_marking sp u) (sabs (w_db w)) (sabs (w_db w'))"
  using assms(2) unfolding delete_rdf_def
proof (cases rule: op_bind_cases)
  case (err e)
  then show ?thesis by (auto dest: exists_op_err)
next
  case (ok b w1)
  then have w1: "w1 = w" by (auto dest: exists_op_ok)
  from ok(2) show ?thesis unfolding w1
    by (cases rule: op_bind_cases) (auto dest: st_update_step [where P = "aux_marking sp u", OF _ aux_marking.delete_aux [OF assms(1)]])
qed

lemma patch_guarded_step:
  assumes "patch_guarded E g P gd w = (res, w')"
  shows "steps_to (patching g P gd) (sabs (w_db w)) (sabs (w_db w'))"
proof -
  have upd: "st_update E [ModifyGround g ds ins gd] w = (r, w') \<Longrightarrow> substitute (deletions P) b = Inr ds \<Longrightarrow>
      steps_to (patching g P gd) (sabs (w_db w)) (sabs (w_db w'))" for ds ins b w r w'
    by (rule st_update_step [where P = "patching g P gd"]) (auto simp: patching_def)
  show ?thesis
    using assms unfolding patch_guarded_def
    by (auto simp: op_bind_res elim!: op_bind_cases dest!: st_read_err st_read_ok
        split: if_splits sum.splits list.splits) (erule upd, assumption)+
qed

lemma aux_patch_step:
  assumes "pod_space sp" "storage_url sp u" "aux_patch E (url_aux u k) P w = (res, w')"
  shows "steps_to (aux_marking sp u) (sabs (w_db w)) (sabs (w_db w'))"
proof -
  have ex: "op_map_err AuxResource (exists_op E g) v = (r, v') \<Longrightarrow> v' = v" for g v r v'
    by (cases "exists_op E g v"; cases "fst (exists_op E g v)")
       (auto simp: op_map_err_def dest: exists_op_ok exists_op_err)
  have gd: "op_map_err AuxResource (patch_guarded E (a_iri (url_aux u k)) P (subject_present_guard (url_aux u k))) v = (r, v') \<Longrightarrow>
      steps_to (aux_marking sp u) (sabs (w_db v)) (sabs (w_db v'))" for v r v'
    using steps_to_mono [OF patch_guarded_step patching_aux [OF assms(2)]] by (auto simp: op_map_err_def split: prod.splits)
  show ?thesis
    using assms(3) unfolding aux_patch_def
    by (auto elim!: op_bind_cases dest!: ex split: if_splits) (erule gd)+
qed

lemma aux_put_outcome:
  assumes "pod_space sp" "storage_url sp u" "aux_put E (url_aux u k) ts w = (res, w')"
  shows "(sabs (w_db w') = sabs (w_db w) \<and> (\<exists>e. res = Inl (AuxResource e) \<or> res = Inl (TooLarge (length ts)))) \<or>
    (\<exists>sk. length ts \<le> MAX_AUX_TRIPLES \<and>
       sabs (w_db w') = exec (conditional_put_update (url_aux u k) (serialize_for_insert sk)) (sabs (w_db w)) \<and>
       skolemize (\<lambda>n. e_mint E (w_draws w + n)) (as_quads ts) = sk \<and>
       ((\<exists>e. res = Inl (AuxResource e)) \<or>
        res = (if presentG (sabs (w_db w')) (a_iri (url_aux u k)) then Inr () else Inl SubjectMissing)))"
proof (cases "length ts > MAX_AUX_TRIPLES")
  case True
  with assms(3) show ?thesis by (simp add: aux_put_def)
next
  case False
  obtain sk w1 where sk: "w_skolemize E (as_quads ts) w = (Inr sk, w1)"
    "skolemize (\<lambda>n. e_mint E (w_draws w + n)) (as_quads ts) = sk"
    by (cases "skolem_quads (\<lambda>n. e_mint E (w_draws w + n)) (as_quads ts) \<lparr>sk_minted = [], sk_next = 0\<rparr>")
       (simp add: w_skolemize_def skolemize_def)
  have db1: "w_db w1 = w_db w" using w_skolemize_db [OF sk(1)] by simp
  let ?us = "conditional_put_update (url_aux u k) (serialize_for_insert sk)"
  obtain r2 w2 where up: "st_update E ?us w1 = (r2, w2)" by (cases "st_update E ?us w1")
  show ?thesis
  proof (cases r2)
    case (Inl e)
    with assms(3) False sk up db1 show ?thesis
      by (auto simp: aux_put_def op_bind_def op_map_err_def dest: st_update_err)
  next
    case (Inr x)
    obtain r3 w3 where ex: "exists_op E (a_iri (url_aux u k)) w2 = (r3, w3)" by (cases "exists_op E (a_iri (url_aux u k)) w2")
    have G2: "sabs (w_db w2) = exec ?us (sabs (w_db w))" using st_update_ok [OF up [unfolded Inr]] db1 by simp
    show ?thesis
    proof (cases r3)
      case e3: (Inl e)
      then have "w3 = w2" using ex by (auto dest: exists_op_err)
      with assms(3) False sk up Inr ex e3 G2 show ?thesis
        by (auto simp: aux_put_def op_bind_def op_map_err_def)
    next
      case b3: (Inr b)
      then have "w3 = w2" "b \<longleftrightarrow> present w2 (a_iri (url_aux u k))" using ex by (auto dest: exists_op_ok)
      with assms(3) False sk up Inr ex b3 G2 show ?thesis
        by (auto simp: aux_put_def op_bind_def op_map_err_def presentG_def present_def split: if_splits)
    qed
  qed
qed

lemma aux_put_step:
  assumes "pod_space sp" "storage_url sp u" "aux_put E (url_aux u k) ts w = (res, w')"
  shows "steps_to (aux_marking sp u) (sabs (w_db w)) (sabs (w_db w'))"
  using aux_put_outcome [OF assms] aux_marking.aux_put [OF assms(2)] by (auto intro: steps_toI)

lemma delete_subject_outcome:
  assumes "registry_ok (sabs (w_db w))" "delete_subject E u w = (res, w')"
  shows "(w' = w \<and> (\<exists>e. res = Inl e)) \<or>
    (\<exists>reg unlink. shelf_keys reg \<and>
      set reg = {k. mk_triple (NamedNode (r_iri u)) SYS_HAS_SUBGRAPH (TermNamed k) \<in> sabs (w_db w) (sys_graph_iri (r_iri u))} \<and>
      unlink = (case parent u of None \<Rightarrow> []
        | Some p \<Rightarrow> [DeleteData (container_iri p) [contains_triple (container_iri p) (r_iri u)]]) \<and>
      sabs (w_db w') = exec (delete_subject_ops u reg @ unlink) (sabs (w_db w)) \<and>
      (\<forall>x. res = Inr x \<longrightarrow> (x \<longleftrightarrow> present w (r_iri u)) \<and>
         (\<forall>k. blob_key (e_path_from E) u = Some k \<longrightarrow> babs (w_blobs w') = (babs (w_blobs w))(k := None))))"
proof -
  let ?blob = "case blob_key (e_path_from E) u of Some key \<Rightarrow> bl_delete E key | None \<Rightarrow> op_ok ()"
  let ?un = "case parent u of None \<Rightarrow> Inr [] | Some p \<Rightarrow> res_bind (containment_removal E p (r_iri u)) (\<lambda>d. Inr [d])"
  from assms(2) show ?thesis unfolding delete_subject_def
  proof (cases rule: op_bind_cases)
    case (err e)
    then show ?thesis by (auto dest: exists_op_err)
  next
    case (ok b w1)
    have w1: "w1 = w" "b \<longleftrightarrow> present w (r_iri u)" using exists_op_ok [OF ok(1)] by auto
    from ok(2) show ?thesis unfolding w1(1)
    proof (cases rule: op_bind_cases)
      case (err e)
      then show ?thesis by (auto dest: registered_shelves_err)
    next
      case rg: (ok reg w2)
      note r = registered_shelves_ok [OF rg(1)]
      have keys: "shelf_keys reg" using registry_shelf_keys [OF assms(1)] r by blast
      show ?thesis
      proof (cases ?un)
        case (Inl e)
        with rg(2) r have "w' = w \<and> res = Inl e" by (simp add: op_bind_res)
        then show ?thesis by blast
      next
        case (Inr unlink)
        have un: "unlink = (case parent u of None \<Rightarrow> []
          | Some p \<Rightarrow> [DeleteData (container_iri p) [contains_triple (container_iri p) (r_iri u)]])"
          using Inr by (auto simp: containment_removal_def res_bind_Inr split: option.splits)
        from rg(2) r Inr have "op_bind (st_update E (delete_subject_ops u reg @ unlink)) (\<lambda>_.
            op_bind ?blob (\<lambda>_. op_ok b)) w = (res, w')" by (simp add: op_bind_res)
        then show ?thesis
        proof (cases rule: op_bind_cases)
          case (err e)
          then show ?thesis by (auto dest: st_update_err)
        next
          case up: (ok y w3)
          note G = st_update_ok [OF up(1)]
          have "w_db w' = w_db w3 \<and> (\<forall>x. res = Inr x \<longrightarrow> x = b \<and>
              (\<forall>k. blob_key (e_path_from E) u = Some k \<longrightarrow> babs (w_blobs w') = (babs (w_blobs w3))(k := None)))"
            using up(2) by (auto elim!: op_bind_cases split: option.splits dest: bl_delete_ok bl_delete_db)
          with G r keys un w1(2) show ?thesis by (intro disjI2 exI [of _ reg] exI [of _ unlink]) auto
        qed
      qed
    qed
  qed
qed

lemma delete_subject_step:
  assumes "pod_space sp" "storage_url sp u" "registry_ok (sabs (w_db w))" "delete_subject E u w = (res, w')"
  shows "steps_to (issued sp) (sabs (w_db w)) (sabs (w_db w'))"
proof -
  have "http_iri (container_iri p)" if "parent u = Some p" for p
    using storage_http [OF assms(1) storage_parent [OF assms(1,2) that]] by (simp add: container_iri_def)
  then have "set (case parent u of None \<Rightarrow> [] | Some p \<Rightarrow> [DeleteData (container_iri p) ts]) \<subseteq>
      {DeleteData g ts | g ts. http_iri g}" for ts
    by (cases "parent u") auto
  then have iss: "shelf_keys reg \<Longrightarrow> issued sp (delete_subject_ops u reg @ (case parent u of None \<Rightarrow> []
      | Some p \<Rightarrow> [DeleteData (container_iri p) [contains_triple (container_iri p) (r_iri u)]]))" for reg
    by (intro issued.delete_subject [OF assms(2)]) (auto split: option.splits)
  from delete_subject_outcome [OF assms(3,4)] show ?thesis
    by (elim disjE exE conjE) (simp, blast intro: steps_toI [where P = "issued sp", OF iss])
qed

end

text \<open>Every state-changing storage operation of the program, as one type.\<close>

datatype storage_op =
    OpPutDataset resource_url skolemized format
  | OpPutBlob resource_url string media_type_rec
  | OpPutRdf resource_url "triple list"
  | OpEnsureContainer container_url
  | OpAddContainment container_url iri
  | OpDeleteAux resource_url aux_kind
  | OpAuxPut resource_url aux_kind "triple list"
  | OpAuxPatch resource_url aux_kind patch
  | OpPatch resource_url patch
  | OpDeleteSubject resource_url

fun op_url :: "storage_op \<Rightarrow> resource_url" where
  "op_url (OpPutDataset u ds fmt) = u"
| "op_url (OpPutBlob u bytes mt) = u"
| "op_url (OpPutRdf u ts) = u"
| "op_url (OpEnsureContainer c) = as_resource c"
| "op_url (OpAddContainment c child) = as_resource c"
| "op_url (OpDeleteAux u k) = u"
| "op_url (OpAuxPut u k ts) = u"
| "op_url (OpAuxPatch u k P) = u"
| "op_url (OpPatch u P) = u"
| "op_url (OpDeleteSubject u) = u"

fun run_op :: "('db, 'bl) env \<Rightarrow> storage_op \<Rightarrow> ('db, 'bl) world \<Rightarrow> ('db, 'bl) world" where
  "run_op E (OpPutDataset u ds fmt) w = snd (put_dataset E u ds fmt w)"
| "run_op E (OpPutBlob u bytes mt) w = snd (put_blob E u bytes mt w)"
| "run_op E (OpPutRdf u ts) w = snd (put_rdf E (r_iri u) ts w)"
| "run_op E (OpEnsureContainer c) w = snd (ensure_container E c w)"
| "run_op E (OpAddContainment c child) w = snd (add_containment E c child w)"
| "run_op E (OpDeleteAux u k) w = snd (delete_rdf E (a_iri (url_aux u k)) w)"
| "run_op E (OpAuxPut u k ts) w = snd (aux_put E (url_aux u k) ts w)"
| "run_op E (OpAuxPatch u k P) w = snd (aux_patch E (url_aux u k) P w)"
| "run_op E (OpPatch u P) w = snd (patch_dataset E (r_iri u) P w)"
| "run_op E (OpDeleteSubject u) w = snd (delete_subject E u w)"

section \<open>Properties\<close>

text \<open>C10: Whatever the interleaving of requests, and whatever stale reads their updates were
  built from, no auxiliary (no access-control list) is ever present without its subject,
  and the registry never lists anything but shelves: every update the program sends keeps
  both, starting from any state that has them, the empty store among them.\<close>

theorem no_orphan_interleaved:
  assumes "pod_space sp" and "(store_step sp)\<^sup>*\<^sup>* G0 G" and "no_orphan sp G0" and "registry_ok G0"
  shows "no_orphan sp G \<and> registry_ok G"
  using assms(2-)
proof (induction rule: rtranclp_induct)
  case base
  then show ?case by simp
next
  case (step G1 G2)
  then have inv: "no_orphan sp G1" "registry_ok G1" by simp_all
  from step.hyps(2) obtain us where "issued sp us" "G2 = exec us G1" by (rule store_stepE)
  with inv assms(1) show ?case by (simp add: no_orphan_step registry_ok_step)
qed

lemma ex_space: "pod_space \<lparr>s_base = ''http://h/''\<rparr>"
  by (simp add: pod_space_def wf_space_def suffix_def)

lemma ex_storage: "storage_url \<lparr>s_base = ''http://h/''\<rparr> ex_url"
proof -
  have "reserved_segment (r_path ex_url) = None" by code_simp
  then show ?thesis by (simp add: storage_url_def in_space_def ex_url_def)
qed

lemma empty_store_ok: "no_orphan sp (\<lambda>_. {}) \<and> registry_ok (\<lambda>_. {})"
  by (simp add: no_orphan_def registry_ok_def presentG_def)

theorem no_orphan_interleaved_witness:
  "no_orphan \<lparr>s_base = ''http://h/''\<rparr>
     (exec (conditional_put_update (url_aux ex_url Acl) []) (exec (put_rdf_update (r_iri ex_url) []) (\<lambda>_. {})))"
proof -
  let ?sp = "\<lparr>s_base = ''http://h/''\<rparr>"
  have "store_step ?sp (\<lambda>_. {}) (exec (put_rdf_update (r_iri ex_url) []) (\<lambda>_. {}))"
    by (rule store_step.intros [OF issued.marking [OF marking.put_rdf [OF ex_storage]]])
  moreover have "store_step ?sp G (exec (conditional_put_update (url_aux ex_url Acl) []) G)" for G
    by (rule store_step.intros [OF issued.marking [OF marking.aux [OF aux_marking.aux_put [OF ex_storage]]]])
  ultimately show ?thesis
    using no_orphan_interleaved [OF ex_space] empty_store_ok
    by (meson r_into_rtranclp rtranclp.rtrancl_into_rtrancl)
qed

text \<open>C29: Each storage operation of the program changes the store by at most one of those
  updates, whatever it returns, failures of the store or of the object store included.\<close>

theorem storage_op_steps:
  assumes "pod E sabs babs" and "pod_space sp" and "storage_url sp (op_url c)"
    and "registry_ok (sabs (w_db w))"
  shows "sabs (w_db (run_op E c w)) = sabs (w_db w) \<or>
    store_step sp (sabs (w_db w)) (sabs (w_db (run_op E c w)))"
proof -
  note snd = prod.collapse [symmetric]
  have "steps_to (issued sp) (sabs (w_db w)) (sabs (w_db (run_op E c w)))"
  proof (cases c)
    case (OpPutDataset u ds fmt)
    with assms steps_to_issued [OF pod.put_dataset_step [OF assms(1,2) _ assms(4) snd]] show ?thesis by simp
  next
    case (OpPutBlob u bytes mt)
    with assms steps_to_issued [OF pod.put_blob_step [OF assms(1) _ assms(4) snd]] show ?thesis by simp
  next
    case (OpPutRdf u ts)
    with assms steps_to_issued [OF pod.put_rdf_step [OF assms(1) _ snd]] show ?thesis by simp
  next
    case (OpEnsureContainer d)
    with assms steps_to_issued [OF pod.ensure_container_step [OF assms(1) _ snd]] show ?thesis by simp
  next
    case (OpAddContainment d child)
    with assms steps_to_issued [OF pod.add_containment_step [OF assms(1) _ snd]] show ?thesis by simp
  next
    case (OpDeleteAux u k)
    with assms steps_to_aux [OF pod.delete_rdf_step [OF assms(1) _ snd]] show ?thesis by simp
  next
    case (OpAuxPut u k ts)
    with assms steps_to_aux [OF pod.aux_put_step [OF assms(1,2) _ snd]] show ?thesis by simp
  next
    case (OpAuxPatch u k P)
    with assms steps_to_aux [OF pod.aux_patch_step [OF assms(1,2) _ snd]] show ?thesis by simp
  next
    case (OpPatch u P)
    with assms steps_to_issued [OF steps_to_mono [OF pod.patch_guarded_step [OF assms(1) snd] patching_marking]] show ?thesis
      by (simp add: patch_dataset_def)
  next
    case (OpDeleteSubject u)
    with assms pod.delete_subject_step [OF assms(1,2) _ assms(4) snd] show ?thesis by simp
  qed
  then show ?thesis by (rule steps_to_store)
qed

theorem storage_op_steps_witness:
  "mem_abs (w_db (run_op mem_env (OpPutDataset ex_url ex_dataset TriG) mem_world)) = mem_abs (w_db mem_world) \<or>
   store_step \<lparr>s_base = ''http://h/''\<rparr> (mem_abs (w_db mem_world))
     (mem_abs (w_db (run_op mem_env (OpPutDataset ex_url ex_dataset TriG) mem_world)))"
proof (rule storage_op_steps [OF mem_pod.pod_axioms ex_space])
  show "storage_url \<lparr>s_base = ''http://h/''\<rparr> (op_url (OpPutDataset ex_url ex_dataset TriG))"
    by (simp add: ex_storage)
  show "registry_ok (mem_abs (w_db mem_world))"
    by (simp add: registry_ok_def mem_world_def mem_abs_def)
qed



lemma delete_subject_effect:
  assumes "pod E sabs babs" and "pod_space sp" and "storage_url sp u"
    and "registry_ok (sabs (w_db w))" and "delete_subject E u w = (Inr existed, w')"
  shows "(existed \<longleftrightarrow> presentG (sabs (w_db w)) (r_iri u)) \<and>
    (\<forall>h. sabs (w_db w') h =
      (if h \<in> {r_iri u, sys_graph_iri (r_iri u), a_iri (url_aux u Acl), sys_graph_iri (a_iri (url_aux u Acl))}
          \<or> mk_triple (NamedNode (r_iri u)) SYS_HAS_SUBGRAPH (TermNamed h) \<in> sabs (w_db w) (sys_graph_iri (r_iri u))
       then {}
       else if \<exists>p. parent u = Some p \<and> h = container_iri p
       then sabs (w_db w) h - {contains_triple h (r_iri u)} else sabs (w_db w) h)) \<and>
    (\<forall>key. blob_key (e_path_from E) u = Some key \<longrightarrow> babs (w_blobs w') = (babs (w_blobs w))(key := None))"
proof -
  obtain reg unlink where reg: "set reg = {k. mk_triple (NamedNode (r_iri u)) SYS_HAS_SUBGRAPH (TermNamed k) \<in> sabs (w_db w) (sys_graph_iri (r_iri u))}"
    and un: "unlink = (case parent u of None \<Rightarrow> []
        | Some p \<Rightarrow> [DeleteData (container_iri p) [contains_triple (container_iri p) (r_iri u)]])"
    and G: "sabs (w_db w') = exec (delete_subject_ops u reg @ unlink) (sabs (w_db w))"
    and rest: "existed \<longleftrightarrow> pod.present sabs w (r_iri u)"
      "\<forall>k. blob_key (e_path_from E) u = Some k \<longrightarrow> babs (w_blobs w') = (babs (w_blobs w))(k := None)"
    using pod.delete_subject_outcome [OF assms(1,4,5)] by auto
  have "existed \<longleftrightarrow> presentG (sabs (w_db w)) (r_iri u)"
    using rest(1) by (simp add: pod.present_def [OF assms(1)] presentG_def)
  moreover have "sabs (w_db w') h =
      (if h \<in> {r_iri u, sys_graph_iri (r_iri u), a_iri (url_aux u Acl), sys_graph_iri (a_iri (url_aux u Acl))} \<or> h \<in> set reg
       then {} else if \<exists>p. parent u = Some p \<and> h = container_iri p
       then sabs (w_db w) h - {contains_triple h (r_iri u)} else sabs (w_db w) h)" for h
    by (cases "parent u") (auto simp: G un delete_subject_ops_exec)
  ultimately show ?thesis using rest(2) unfolding reg mem_Collect_eq by blast
qed

text \<open>C31: \<open>delete_subject\<close> takes everything of the subject and nothing else: its graph, its
  marker, every registered shelf, every auxiliary with its marker, its blob, and its
  membership in the parent; every other graph is as it was, and the answer is whether the
  subject existed.\<close>

theorem delete_subject_cascade:
  assumes "pod E sabs babs" and "pod_space sp" and "storage_url sp u"
    and "registry_ok (sabs (w_db w))" and "delete_subject E u w = (Inr existed, w')"
  shows "(existed \<longleftrightarrow> presentG (sabs (w_db w)) (r_iri u)) \<and>
    (\<forall>h. sabs (w_db w') h =
      (if h \<in> {r_iri u, sys_graph_iri (r_iri u), a_iri (url_aux u Acl), sys_graph_iri (a_iri (url_aux u Acl))}
          \<or> mk_triple (NamedNode (r_iri u)) SYS_HAS_SUBGRAPH (TermNamed h) \<in> sabs (w_db w) (sys_graph_iri (r_iri u))
       then {}
       else if \<exists>p. parent u = Some p \<and> h = container_iri p
       then sabs (w_db w) h - {contains_triple h (r_iri u)} else sabs (w_db w) h)) \<and>
    (\<forall>key. blob_key (e_path_from E) u = Some key \<longrightarrow> babs (w_blobs w') = (babs (w_blobs w))(key := None))"
  using delete_subject_effect [OF assms] .

theorem delete_subject_cascade_witness:
  "mem_abs (w_db (snd (delete_subject mem_env ex_url
     (snd (put_rdf mem_env (r_iri ex_url) [mk_triple (NamedNode ''s'') ''p'' (TermNamed ''o'')] mem_world))))) (r_iri ex_url) = {}"
proof -
  let ?w = "snd (put_rdf mem_env (r_iri ex_url) [mk_triple (NamedNode ''s'') ''p'' (TermNamed ''o'')] mem_world)"
  have reg: "registry_ok (mem_abs (w_db mem_world))"
    by (simp add: registry_ok_def mem_world_def mem_abs_def)
  have "steps_to (marking \<lparr>s_base = ''http://h/''\<rparr> ex_url) (mem_abs (w_db mem_world)) (mem_abs (w_db ?w))"
    by (rule mem_pod.put_rdf_step [OF ex_storage prod.collapse [symmetric]])
  then have "registry_ok (mem_abs (w_db ?w))"
    using reg registry_ok_marking [OF ex_space] by (auto simp: steps_to_def)
  moreover have "\<not> isl (fst (delete_subject mem_env ex_url ?w))" by code_simp
  then obtain b where "delete_subject mem_env ex_url ?w = (Inr b, snd (delete_subject mem_env ex_url ?w))"
    by (metis isl_def obj_sumE prod.collapse)
  ultimately show ?thesis
    using delete_subject_cascade [OF mem_pod.pod_axioms ex_space ex_storage] by simp
qed

end
