(* ===== verification/Codec.thy ===== *)
theory Codec
  imports Resources
begin

text \<open>
  Reading and writing representations, \<open>Format::parse\<close> and \<open>Format::serialize\<close> of
  \<^verbatim>\<open>src/rdf.rs\<close>. The RDF parsers and serializers of oxigraph are parameters:
  \<open>parser fmt base bytes\<close> is the quads of a document or the first parse error, and
  \<open>writer fmt quads\<close> the bytes or an error. \<open>show_quad\<close> is the N-Quads text of a quad, the
  key both the serializer and the entity tag sort by.
\<close>

type_synonym rdf_parser = "format \<Rightarrow> string \<Rightarrow> string \<Rightarrow> string + quad list"
type_synonym rdf_writer = "format \<Rightarrow> quad list \<Rightarrow> string + string"

definition format_parse ::
  "rdf_parser \<Rightarrow> format \<Rightarrow> string \<Rightarrow> string \<Rightarrow> rdf_version \<Rightarrow> rdf_error + dataset" where
  "format_parse parser fmt bytes base declared =
     res_bind (map_err ParseError (parser fmt base bytes)) (\<lambda>parsed.
       let found = dataset_version parsed in
       if declared < found then Inl (UnsupportedRdfVersion found declared) else Inr parsed)"

definition format_serialize ::
  "rdf_writer \<Rightarrow> (quad \<Rightarrow> string) \<Rightarrow> format \<Rightarrow> dataset \<Rightarrow> rdf_error + string" where
  "format_serialize writer show_quad fmt d =
     map_err SerializeError (writer fmt (sort_key show_quad d))"

lemma format_parse_Inr:
  "format_parse parser fmt bytes base declared = Inr d \<longleftrightarrow>
     parser fmt base bytes = Inr d \<and> dataset_version d \<le> declared"
  by (auto simp: format_parse_def res_bind_Inr Let_def not_less split: if_splits)

text \<open>The served dataset depends on the stored quads only as a multiset.\<close>

lemma dataset_version_set: "set d = set d' \<Longrightarrow> dataset_version d = dataset_version d'"
  by (rule antisym) (simp_all only: dataset_version_le, auto simp: dataset_version_le [THEN iffD1, OF order_refl])

lemma mset_map_filter:
  "mset xs = mset ys \<Longrightarrow> mset (List.map_filter f xs) = mset (List.map_filter f ys)"
  by (simp add: map_filter_def mset_map mset_filter)

lemma project_to_mset:
  assumes "mset d = mset d'"
  shows "mset (project_to d t) = mset (project_to d' t)"
proof -
  from assms have "set d = set d'" by (metis set_mset_mset)
  with assms dataset_version_set [of d d'] show ?thesis
    by (auto simp: project_to_def intro!: mset_map_filter)
qed

lemma deskolemize_mset: "mset sk = mset sk' \<Longrightarrow> mset (deskolemize vb sk) = mset (deskolemize vb sk')"
  by (simp add: deskolemize_def)

lemma format_serialize_mset:
  assumes "mset d = mset d'" and "inj_on show_quad (set d)"
  shows "format_serialize writer show_quad fmt d = format_serialize writer show_quad fmt d'"
proof -
  have "sort_key show_quad d = sort_key show_quad d'"
    by (rule sort_key_inj_key_eq) (use assms in \<open>auto\<close>)
  then show ?thesis by (simp add: format_serialize_def)
qed

text \<open>Parsing respects the declaration: a body is accepted exactly when the RDF parser
  accepts it and its content needs no later RDF version than the one it declared, and then
  the parser's quads are what the server works with; a richer body is refused with both
  versions named.\<close>

theorem format_parse_spec:
  "(format_parse parser fmt bytes base declared = Inr d \<longleftrightarrow>
      parser fmt base bytes = Inr d \<and> (\<forall>q \<in> set d. \<forall>v. object_version (q_object q) = Some v \<longrightarrow> v \<le> declared)) \<and>
   (format_parse parser fmt bytes base declared = Inl (UnsupportedRdfVersion found allowed) \<longleftrightarrow>
      (\<exists>d. parser fmt base bytes = Inr d \<and> found = dataset_version d \<and> allowed = declared \<and> declared < found)) \<and>
   (format_parse parser fmt bytes base declared = Inl (ParseError m) \<longleftrightarrow> parser fmt base bytes = Inl m)"
  by (cases "parser fmt base bytes")
     (auto simp: format_parse_Inr dataset_version_le, auto simp: format_parse_def Let_def split: if_splits)

theorem format_parse_spec_witness:
  "format_parse (\<lambda>f b s. Inr [\<lparr>q_subject = NamedNode ''s'', q_predicate = ''p'',
      q_object = TermTriple (NamedNode ''s'') ''p'' (TermNamed ''o''), q_graph = DefaultGraph\<rparr>]) Turtle [] ''b'' Rdf11
   = Inl (UnsupportedRdfVersion Rdf12 Rdf11)"
  unfolding format_parse_spec [THEN conjunct2, THEN conjunct1]
  by (intro exI conjI, rule refl) code_simp+


text \<open>Example: two orders of the same two quads.\<close>

definition ex_ground :: "string \<Rightarrow> ground_quad" where
  "ex_ground s = \<lparr>g_subject = s, g_predicate = ''p'', g_object = GroundNamed ''o'', g_graph = GroundDefault\<rparr>"


end
