(* ===== verification/Guards.thy ===== *)
theory Guards
  imports Auxiliaries Codec
begin

text \<open>
  The enforcement point of Web Access Control: retrieval of the access-control lists of a
  request's container chain (\<^verbatim>\<open>src/wac/prp.rs\<close>), the per-request guard
  (\<^verbatim>\<open>src/wac/guard.rs\<close>) and the bootstrap of the root's list
  (\<^verbatim>\<open>src/wac/provision.rs\<close>). The guard is probed once; its decisions are pure functions
  of what the probe saw, and \<open>materialize\<close> is the only writer.
\<close>

section \<open>Policy retrieval\<close>

text \<open>The lists of the chain that exist, with the resource each one governs.\<close>

definition governed_acls :: "resource_url list \<Rightarrow> iri set \<Rightarrow> (iri \<times> iri) list" where
  "governed_acls chain pres =
     map (\<lambda>u. (a_iri (url_aux u Acl), r_iri u)) (filter (\<lambda>u. a_iri (url_aux u Acl) \<in> pres) chain)"

text \<open>One row of the query appends a triple to the list it belongs to.\<close>

fun acl_rows :: "(iri \<rightharpoonup> iri) \<Rightarrow> (iri \<times> triple) list \<Rightarrow> (iri \<rightharpoonup> triple list) \<Rightarrow> (iri \<rightharpoonup> triple list)" where
  "acl_rows governed [] out = out"
| "acl_rows governed ((g, t) # rows) out =
     (case governed g of
        None \<Rightarrow> acl_rows governed rows out
      | Some key \<Rightarrow> acl_rows governed rows
          (out(key \<mapsto> (case out key of None \<Rightarrow> [] | Some ts \<Rightarrow> ts) @ [t])))"

definition load_chain_acls ::
  "('db, 'bl) env \<Rightarrow> resource_url list \<Rightarrow> iri set \<Rightarrow>
     (('db, 'bl) world, resource_error, iri \<rightharpoonup> triple list) op" where
  "load_chain_acls E chain pres =
     (let governed = governed_acls chain pres;
          out = (\<lambda>g. if g \<in> set (map snd governed) then Some [] else None)
      in if governed = [] then op_ok out
         else op_bind (st_read (\<lambda>db. b_graphs (e_store E) db (map fst governed))) (\<lambda>rows.
           op_ok (acl_rows (map_of (rev governed)) rows out)))"

section \<open>The guard\<close>

datatype denial =
    Unauthenticated
  | Forbidden
  | AuxSubjectMissing
  | SlashPair
  | StoreDenied resource_error

fun deny :: "agent \<Rightarrow> denial" where
  "deny Public = Unauthenticated"
| "deny (WebId _) = Forbidden"

fun required_mode_for_aux :: "aux_kind \<Rightarrow> mode" where
  "required_mode_for_aux Acl = Control"

record guard_rec =
  gu_agent :: agent
  gu_target :: target
  gu_chain :: "resource_url list"
  gu_present :: "iri set"
  gu_acls :: "iri \<rightharpoonup> triple list"

definition request_chain :: "target \<Rightarrow> resource_url list" where
  "request_chain t = target_subject t # map as_resource (ancestors (target_subject t))"

definition probe_candidates :: "resource_url list \<Rightarrow> iri list" where
  "probe_candidates chain =
     map r_iri chain
     @ concat (map (\<lambda>u. map (\<lambda>k. a_iri (url_aux u k)) aux_kind_all) chain)
     @ map r_iri (List.map_filter slash_counterpart chain)"

definition probe ::
  "('db, 'bl) env \<Rightarrow> agent \<Rightarrow> target \<Rightarrow> (('db, 'bl) world, denial, guard_rec) op" where
  "probe E ag t =
     (let chain = request_chain t in
      op_bind (op_map_err StoreDenied (exists_many E (probe_candidates chain))) (\<lambda>pres.
      op_bind (op_map_err StoreDenied (load_chain_acls E chain pres)) (\<lambda>acls.
        op_ok \<lparr>gu_agent = ag, gu_target = t, gu_chain = chain, gu_present = pres, gu_acls = acls\<rparr>)))"

text \<open>The first element of the chain with a list, its triples, and whether it is inherited.\<close>

fun nearest_acl ::
  "(iri \<rightharpoonup> triple list) \<Rightarrow> bool \<Rightarrow> resource_url list \<Rightarrow> (resource_url \<times> triple list \<times> bool) option" where
  "nearest_acl acls inherited [] = None"
| "nearest_acl acls inherited (u # us) =
     (case acls (r_iri u) of
        Some ts \<Rightarrow> Some (u, ts, inherited)
      | None \<Rightarrow> nearest_acl acls True us)"

definition decide_from :: "guard_rec \<Rightarrow> nat \<Rightarrow> mode \<Rightarrow> denial + decision" where
  "decide_from g start required =
     (case nearest_acl (gu_acls g) False (drop start (gu_chain g)) of
        None \<Rightarrow> Inl (deny (gu_agent g))
      | Some (u, ts, inherited) \<Rightarrow>
          (let held = decide ts (gu_agent g) (r_iri u) inherited;
               anyone = (case gu_agent g of
                  Public \<Rightarrow> held
                | WebId _ \<Rightarrow> decide ts Public (r_iri u) inherited)
           in if allows held required then Inr \<lparr>d_user = held, d_public = anyone\<rparr>
              else Inl (deny (gu_agent g))))"

definition required_mode :: "target \<Rightarrow> mode \<Rightarrow> mode" where
  "required_mode t m = (case t of Aux a \<Rightarrow> required_mode_for_aux (a_kind a) | _ \<Rightarrow> m)"

definition authorize :: "guard_rec \<Rightarrow> mode \<Rightarrow> denial + decision" where
  "authorize g m = decide_from g 0 (required_mode (gu_target g) m)"

definition authorize_parent :: "guard_rec \<Rightarrow> mode \<Rightarrow> denial + decision option" where
  "authorize_parent g m =
     (if length (gu_chain g) < 2 then Inr None
      else res_bind (decide_from g 1 m) (\<lambda>d. Inr (Some d)))"

definition authorize_aux :: "guard_rec \<Rightarrow> aux_kind \<Rightarrow> denial + decision option" where
  "authorize_aux g k =
     (if a_iri (url_aux (gu_chain g ! 0) k) \<notin> gu_present g then Inr None
      else res_bind (decide_from g 0 (required_mode_for_aux k)) (\<lambda>d. Inr (Some d)))"

definition guard_deny :: "guard_rec \<Rightarrow> denial" where
  "guard_deny g = deny (gu_agent g)"

definition target_exists :: "guard_rec \<Rightarrow> bool" where
  "target_exists g \<longleftrightarrow> target_iri (gu_target g) \<in> gu_present g"

definition counterpart_taken :: "iri set \<Rightarrow> resource_url \<Rightarrow> bool" where
  "counterpart_taken pres u \<longleftrightarrow>
     (case slash_counterpart u of None \<Rightarrow> False | Some c \<Rightarrow> r_iri c \<in> pres)"

definition is_taken :: "guard_rec \<Rightarrow> bool" where
  "is_taken g \<longleftrightarrow>
     (if target_iri (gu_target g) \<in> gu_present g then True
      else case gu_target g of
        Resource u \<Rightarrow> counterpart_taken (gu_present g) u
      | Container c \<Rightarrow> counterpart_taken (gu_present g) (as_resource c)
      | Aux _ \<Rightarrow> False)"

section \<open>Materialization\<close>

record materialized =
  m_created :: "resource_url list"
  m_linked :: "(container_url \<times> iri) list"

text \<open>
  The ancestor walk: the containers to ensure, each with the child to record in it, and the
  URLs the write would create. \<open>i\<close> is the position of the first ancestor.
\<close>

fun plan_ancestors ::
  "guard_rec \<Rightarrow> nat \<Rightarrow> container_url list \<Rightarrow> iri \<Rightarrow> bool \<Rightarrow>
     denial + (container_url \<times> iri option) list \<times> resource_url list" where
  "plan_ancestors g i [] child record_child = Inr ([], [])"
| "plan_ancestors g i (c # cs) child record_child =
     (let existed = container_iri c \<in> gu_present g in
      if existed \<and> \<not> record_child then Inr ([], [])
      else res_bind (decide_from g (Suc i) Append) (\<lambda>_.
        let entry = (c, if record_child then Some child else None) in
        if existed then Inr ([entry], [])
        else res_bind (plan_ancestors g (Suc i) cs (container_iri c) True) (\<lambda>(plan, created).
          Inr (entry # plan, gu_chain g ! Suc i # created))))"

fun run_plan ::
  "('db, 'bl) env \<Rightarrow> (container_url \<times> iri option) list \<Rightarrow>
     (('db, 'bl) world, denial, (container_url \<times> iri) list) op" where
  "run_plan E [] = op_ok []"
| "run_plan E ((c, child) # ps) =
     op_bind (op_map_err StoreDenied (ensure_container E c)) (\<lambda>_.
       case child of
         None \<Rightarrow> run_plan E ps
       | Some ch \<Rightarrow>
           op_bind (op_map_err StoreDenied (add_containment E c ch)) (\<lambda>_.
           op_bind (run_plan E ps) (\<lambda>linked. op_ok ((c, ch) # linked))))"

definition is_aux :: "target \<Rightarrow> bool" where
  "is_aux t = (case t of Aux _ \<Rightarrow> True | _ \<Rightarrow> False)"

definition materialize ::
  "('db, 'bl) env \<Rightarrow> guard_rec \<Rightarrow> (('db, 'bl) world, denial, materialized) op" where
  "materialize E g =
     (let subject = gu_chain g ! 0;
          target_existed = target_iri (gu_target g) \<in> gu_present g;
          is_member = (\<not> is_aux (gu_target g) \<and> \<not> target_existed)
      in op_bind (op_res (plan_ancestors g 0 (ancestors subject) (target_iri (gu_target g)) is_member))
          (\<lambda>(plan, above).
            let creations = (if is_member then [subject] else []) @ above in
            if is_aux (gu_target g) \<and> r_iri subject \<notin> gu_present g then op_err AuxSubjectMissing
            else if list_ex (counterpart_taken (gu_present g)) creations then op_err SlashPair
            else op_bind (run_plan E plan) (\<lambda>linked.
              op_ok \<lparr>m_created = creations, m_linked = linked\<rparr>)))"

section \<open>Provisioning\<close>

definition owner_acl_turtle :: "iri \<Rightarrow> iri \<Rightarrow> string" where
  "owner_acl_turtle owner root_iri =
     ''<#owner> a <'' @ ACL_AUTHORIZATION @ ''> ; <'' @ ACL_AGENT @ ''> <'' @ owner @ ''> ; <''
     @ ACL_ACCESS_TO @ ''> <'' @ root_iri @ ''> ; <'' @ ACL_DEFAULT @ ''> <'' @ root_iri @ ''> ; <''
     @ ACL_MODE @ ''> <'' @ ACL_READ @ ''>, <'' @ ACL_WRITE @ ''>, <'' @ ACL_CONTROL @ ''> .''"

definition provision_root_acl ::
  "('db, 'bl) env \<Rightarrow> rdf_parser \<Rightarrow> storage_space \<Rightarrow> iri \<Rightarrow> bool \<Rightarrow> (('db, 'bl) world, resource_error, unit) op" where
  "provision_root_acl E parser sp owner reset =
     (let c = space_root sp; acl = url_aux (as_resource c) Acl in
      op_bind (exists_op E (a_iri acl)) (\<lambda>there.
        if there \<and> \<not> reset then op_ok ()
        else op_bind (ensure_container E c) (\<lambda>_.
          op_bind (op_res (map_err RdfErr (format_parse parser Turtle
              (owner_acl_turtle owner (container_iri c)) (a_iri acl) Rdf11))) (\<lambda>dataset.
            op_map_err (\<lambda>e. case e of AuxResource r \<Rightarrow> r | _ \<Rightarrow> Panicked)
              (aux_put E acl (triples_of dataset))))))"

section \<open>What the probe sees\<close>

lemma decide_set: "set ts = set ts' \<Longrightarrow> decide ts a g i = decide ts' a g i"
  by (rule access_modes_eqI, cases a) (simp_all add: mode_bit_decide grants_def acl_says_def)

lemma acl_rows_map:
  "acl_rows m rows out k =
     (let new = map snd (filter (\<lambda>(g, t). m g = Some k) rows) in
      if out k = None \<and> new = [] then None
      else Some ((case out k of None \<Rightarrow> [] | Some ts \<Rightarrow> ts) @ new))"
  by (induction m rows out rule: acl_rows.induct) (auto simp: Let_def fun_upd_def split: option.splits)

lemma ancestors_storage:
  "pod_space sp \<Longrightarrow> storage_url sp u \<Longrightarrow> c \<in> set (ancestors u) \<Longrightarrow> storage_url sp (as_resource c)"
proof (induction u rule: ancestors.induct)
  case (1 u)
  show ?case
  proof (cases "parent u")
    case None
    with 1 show ?thesis by (simp add: ancestors.simps [of u])
  next
    case (Some p)
    with 1 have "storage_url sp (as_resource p)" by (blast intro: storage_parent)
    with 1 Some show ?thesis by (auto simp: ancestors.simps [of u])
  qed
qed

lemma request_chain_storage:
  "pod_space sp \<Longrightarrow> storage_url sp (target_subject t) \<Longrightarrow> u \<in> set (request_chain t) \<Longrightarrow> storage_url sp u"
  by (auto simp: request_chain_def dest: ancestors_storage)

abbreviation acl_iri :: "resource_url \<Rightarrow> iri" where "acl_iri u \<equiv> a_iri (url_aux u Acl)"

lemma acl_iri_eq_iff:
  assumes "pod_space sp" "storage_url sp u" "storage_url sp v"
  shows "acl_iri u = acl_iri v \<longleftrightarrow> r_iri u = r_iri v"
proof
  assume "r_iri u = r_iri v"
  then have "tl (r_path u) = tl (r_path v)" using assms by (simp add: storage_url_def in_space_def)
  moreover have "r_path u = CHR ''/'' # tl (r_path u)" "r_path v = CHR ''/'' # tl (r_path v)"
    using assms by (auto simp: storage_url_def in_space_def prefix_def)
  ultimately have "r_path u = r_path v" by metis
  then show "acl_iri u = acl_iri v" using assms by (simp add: aux_iri_eq)
qed (use assms aux_iri_inject in blast)

text \<open>
  A guard is a snapshot of the store when it lists exactly the probed graphs that are present
  and has exactly the lists of the chain that exist, with their triples.
\<close>

definition acl_snapshot :: "graphs \<Rightarrow> guard_rec \<Rightarrow> bool" where
  "acl_snapshot G g \<longleftrightarrow> (\<forall>u \<in> set (gu_chain g).
     case gu_acls g (r_iri u) of
       None \<Rightarrow> \<not> presentG G (acl_iri u)
     | Some ts \<Rightarrow> presentG G (acl_iri u) \<and> set ts = G (acl_iri u))"

definition snapshot :: "graphs \<Rightarrow> guard_rec \<Rightarrow> bool" where
  "snapshot G g \<longleftrightarrow> gu_chain g = request_chain (gu_target g)
     \<and> gu_present g = {h \<in> set (probe_candidates (gu_chain g)). presentG G h} \<and> acl_snapshot G g"

lemma probe_candidates_mem:
  "h \<in> set (probe_candidates chain) \<longleftrightarrow>
     (\<exists>u \<in> set chain. h = r_iri u \<or> h = acl_iri u \<or> (\<exists>c. slash_counterpart u = Some c \<and> h = r_iri c))"
proof -
  have "h \<in> r_iri ` set (List.map_filter slash_counterpart chain) \<longleftrightarrow>
      (\<exists>u \<in> set chain. \<exists>c. slash_counterpart u = Some c \<and> h = r_iri c)"
    by (force simp: set_map_filter_iff)
  then show ?thesis by (auto simp: probe_candidates_def aux_kind_all_def)
qed

lemma snapshot_present:
  "snapshot G g \<Longrightarrow> u \<in> set (gu_chain g) \<Longrightarrow> r_iri u \<in> gu_present g \<longleftrightarrow> presentG G (r_iri u)"
  "snapshot G g \<Longrightarrow> u \<in> set (gu_chain g) \<Longrightarrow> acl_iri u \<in> gu_present g \<longleftrightarrow> presentG G (acl_iri u)"
  "snapshot G g \<Longrightarrow> u \<in> set (gu_chain g) \<Longrightarrow> slash_counterpart u = Some c \<Longrightarrow>
     r_iri c \<in> gu_present g \<longleftrightarrow> presentG G (r_iri c)"
  by (auto simp: snapshot_def probe_candidates_mem)

context pod
begin

lemma load_chain_acls_ok:
  assumes inj: "\<And>u v. u \<in> set chain \<Longrightarrow> v \<in> set chain \<Longrightarrow> acl_iri u = acl_iri v \<longleftrightarrow> r_iri u = r_iri v"
    and load: "load_chain_acls E chain pres w = (Inr acls, w')" and u: "u \<in> set chain"
  shows "w' = w \<and> (case acls (r_iri u) of None \<Rightarrow> acl_iri u \<notin> pres
    | Some ts \<Rightarrow> acl_iri u \<in> pres \<and> set ts = sabs (w_db w) (acl_iri u))"
proof -
  let ?gov = "governed_acls chain pres"
  let ?out = "\<lambda>g. if g \<in> set (map snd ?gov) then Some [] else None :: triple list option"
  have gov_mem: "(a, k) \<in> set ?gov \<longleftrightarrow> (\<exists>v \<in> set chain. acl_iri v \<in> pres \<and> a = acl_iri v \<and> k = r_iri v)" for a k
    by (auto simp: governed_acls_def)
  have keys: "r_iri u \<in> set (map snd ?gov) \<longleftrightarrow> acl_iri u \<in> pres"
    using inj u by (fastforce simp: governed_acls_def)
  have map_gov: "map_of (rev ?gov) a = Some (r_iri u) \<longleftrightarrow> a = acl_iri u \<and> acl_iri u \<in> pres" for a
  proof
    assume "map_of (rev ?gov) a = Some (r_iri u)"
    then have "(a, r_iri u) \<in> set ?gov" by (auto dest: map_of_SomeD)
    then show "a = acl_iri u \<and> acl_iri u \<in> pres" using inj u unfolding gov_mem by metis
  next
    assume a: "a = acl_iri u \<and> acl_iri u \<in> pres"
    then have "(a, r_iri u) \<in> set (rev ?gov)" using u by (auto simp: gov_mem)
    then obtain k where k: "map_of (rev ?gov) a = Some k" by (metis map_of_eq_None_iff not_None_eq image_eqI fst_conv)
    then have "(a, k) \<in> set ?gov" by (auto dest: map_of_SomeD)
    with a k inj u show "map_of (rev ?gov) a = Some (r_iri u)" by (auto simp: gov_mem)
  qed
  show ?thesis
  proof (cases "?gov = []")
    case True
    with load keys show ?thesis by (auto simp: load_chain_acls_def Let_def)
  next
    case False
    with load obtain rows where rows: "b_graphs (e_store E) (w_db w) (map fst ?gov) = Inr rows"
      and acls: "acls = acl_rows (map_of (rev ?gov)) rows ?out" and w: "w' = w"
      by (auto simp: load_chain_acls_def Let_def elim!: op_bind_InrE dest!: st_read_ok)
    define new where "new = map snd (filter (\<lambda>(g, t). map_of (rev ?gov) g = Some (r_iri u)) rows)"
    have "set new = (if acl_iri u \<in> pres then sabs (w_db w) (acl_iri u) else {})"
    proof -
      have "set new = {t. acl_iri u \<in> pres \<and> (acl_iri u, t) \<in> set rows}"
        unfolding new_def map_gov by force
      moreover have "acl_iri u \<in> pres \<Longrightarrow> acl_iri u \<in> set (map fst ?gov)"
        using u by (auto simp: governed_acls_def)
      ultimately show ?thesis using graphs_ok [OF rows] by auto
    qed
    with w keys show ?thesis unfolding acls acl_rows_map Let_def new_def [symmetric] by auto
  qed
qed

lemma probe_ok:
  assumes sp: "pod_space sp" "storage_url sp (target_subject t)" and probe: "probe E ag t w = (Inr g, w')"
  shows "w' = w \<and> gu_agent g = ag \<and> gu_target g = t \<and> snapshot (sabs (w_db w)) g"
proof -
  let ?chain = "request_chain t"
  from probe obtain pres acls where ex: "exists_many E (probe_candidates ?chain) w = (Inr pres, w)"
    and acls: "load_chain_acls E ?chain pres w = (Inr acls, w')"
    and g: "g = \<lparr>gu_agent = ag, gu_target = t, gu_chain = ?chain, gu_present = pres, gu_acls = acls\<rparr>"
    unfolding probe_def Let_def by (auto elim!: op_bind_InrE simp: op_map_err_conv) (metis exists_many_ok)
  have pres: "pres = {h \<in> set (probe_candidates ?chain). presentG (sabs (w_db w)) h}"
    using exists_many_ok [OF ex] by (simp add: present_def presentG_def)
  have inj: "acl_iri u = acl_iri v \<longleftrightarrow> r_iri u = r_iri v" if "u \<in> set ?chain" "v \<in> set ?chain" for u v
    using that sp by (intro acl_iri_eq_iff [of sp]) (auto intro: request_chain_storage)
  have "w' = w" using load_chain_acls_ok [OF inj acls, of "target_subject t"] by (simp add: request_chain_def)
  moreover have "acl_snapshot (sabs (w_db w)) g"
    unfolding acl_snapshot_def
  proof
    fix u assume u: "u \<in> set (gu_chain g)"
    then have "acl_iri u \<in> pres \<longleftrightarrow> presentG (sabs (w_db w)) (acl_iri u)"
      unfolding pres g by (auto simp: probe_candidates_mem)
    with load_chain_acls_ok [OF inj acls, of u] u
    show "case gu_acls g (r_iri u) of None \<Rightarrow> \<not> presentG (sabs (w_db w)) (acl_iri u)
        | Some ts \<Rightarrow> presentG (sabs (w_db w)) (acl_iri u) \<and> set ts = sabs (w_db w) (acl_iri u)"
      by (simp add: g split: option.splits)
  qed
  ultimately show ?thesis by (simp add: snapshot_def g pres)
qed

end

section \<open>The decision\<close>

text \<open>Position \<open>i\<close> of a chain governs it: the nearest element that has a list.\<close>

definition governing :: "graphs \<Rightarrow> resource_url list \<Rightarrow> nat \<Rightarrow> bool" where
  "governing G us i \<longleftrightarrow> i < length us \<and> presentG G (acl_iri (us ! i)) \<and> (\<forall>j < i. \<not> presentG G (acl_iri (us ! j)))"

lemma governing_unique: "governing G us i \<Longrightarrow> governing G us j \<Longrightarrow> i = j"
  unfolding governing_def by (metis linorder_neqE_nat)

lemma nearest_acl_None: "nearest_acl acls b us = None \<longleftrightarrow> (\<forall>u \<in> set us. acls (r_iri u) = None)"
  by (induction us arbitrary: b) (auto split: option.splits)

lemma nearest_acl_Some:
  "nearest_acl acls b us = Some (u, ts, inh) \<Longrightarrow> \<exists>i < length us. us ! i = u \<and> acls (r_iri u) = Some ts
     \<and> (\<forall>j < i. acls (r_iri (us ! j)) = None) \<and> (inh \<longleftrightarrow> b \<or> 0 < i)"
proof (induction us arbitrary: b)
  case (Cons v us)
  show ?case
  proof (cases "acls (r_iri v)")
    case None
    with Cons.prems Cons.IH [of True] obtain i where "i < length us" "us ! i = u" "acls (r_iri u) = Some ts"
      "\<forall>j < i. acls (r_iri (us ! j)) = None" "inh" by auto
    with None show ?thesis
      by (intro exI [of _ "Suc i"]) (auto simp: less_Suc_eq_0_disj)
  next
    case (Some xs)
    with Cons.prems show ?thesis by (intro exI [of _ 0]) auto
  qed
qed simp

lemma acl_snapshot_None: "acl_snapshot G g \<Longrightarrow> u \<in> set (gu_chain g) \<Longrightarrow> gu_acls g (r_iri u) = None \<longleftrightarrow> \<not> presentG G (acl_iri u)"
  and acl_snapshot_Some: "acl_snapshot G g \<Longrightarrow> u \<in> set (gu_chain g) \<Longrightarrow> gu_acls g (r_iri u) = Some ts \<Longrightarrow> set ts = G (acl_iri u)"
  unfolding acl_snapshot_def by (auto split: option.splits)

lemma decide_from_denial: "decide_from g i m = Inl e \<Longrightarrow> e = deny (gu_agent g)"
  by (auto simp: decide_from_def Let_def split: option.splits if_splits)

text \<open>A decision at a level is the verdict of the one list that governs it.\<close>

lemma decide_from_governing:
  assumes snap: "acl_snapshot G g" and gov: "governing G (drop s (gu_chain g)) i"
  defines "u \<equiv> drop s (gu_chain g) ! i"
  shows "\<exists>ts. set ts = G (acl_iri u) \<and> decide_from g s m =
    (if allows (decide ts (gu_agent g) (r_iri u) (0 < i)) m
     then Inr \<lparr>d_user = decide ts (gu_agent g) (r_iri u) (0 < i), d_public = decide ts Public (r_iri u) (0 < i)\<rparr>
     else Inl (deny (gu_agent g)))"
proof -
  let ?us = "drop s (gu_chain g)"
  have mem: "v \<in> set (gu_chain g)" if "v \<in> set ?us" for v using that by (rule in_set_dropD)
  from gov have "?us ! i \<in> set ?us" "presentG G (acl_iri (?us ! i))" by (auto simp: governing_def)
  then have "\<exists>v \<in> set ?us. gu_acls g (r_iri v) \<noteq> None" using acl_snapshot_None [OF snap] mem by blast
  then obtain v ts inh where near: "nearest_acl (gu_acls g) False ?us = Some (v, ts, inh)"
    using nearest_acl_None [of "gu_acls g" False ?us]
    by (cases "nearest_acl (gu_acls g) False ?us") auto
  obtain j where j: "j < length ?us" "?us ! j = v" "gu_acls g (r_iri v) = Some ts"
    "\<forall>k < j. gu_acls g (r_iri (?us ! k)) = None" "inh \<longleftrightarrow> 0 < j"
    using nearest_acl_Some [OF near] by auto
  have mem_nth: "?us ! k \<in> set (gu_chain g)" if "k < length ?us" for k using that mem nth_mem by blast
  have "governing G ?us j"
    unfolding governing_def using j mem_nth acl_snapshot_None [OF snap]
    by (metis less_trans option.distinct(1))
  then have "j = i" using gov by (rule governing_unique)
  then have v: "v = u" "inh \<longleftrightarrow> 0 < i" using j by (auto simp: u_def)
  have "set ts = G (acl_iri u)" using acl_snapshot_Some [OF snap _ j(3)] mem_nth [OF j(1)] j(2) v by simp
  then show ?thesis using near v
    by (intro exI [of _ ts]) (cases "gu_agent g"; simp add: decide_from_def Let_def)
qed

lemma decide_from_ungoverned:
  assumes snap: "acl_snapshot G g" and gov: "\<And>i. \<not> governing G (drop s (gu_chain g)) i"
  shows "decide_from g s m = Inl (deny (gu_agent g))"
proof -
  have "\<not> presentG G (acl_iri u)" if "u \<in> set (drop s (gu_chain g))" for u
  proof
    assume "presentG G (acl_iri u)"
    with that have "\<exists>i. i < length (drop s (gu_chain g)) \<and> presentG G (acl_iri (drop s (gu_chain g) ! i))"
      by (metis in_set_conv_nth)
    from exists_least_iff [THEN iffD1, OF this] gov show False
      unfolding governing_def by (metis (no_types, lifting) order.strict_trans)
  qed
  then have "nearest_acl (gu_acls g) False (drop s (gu_chain g)) = None"
    unfolding nearest_acl_None using acl_snapshot_None [OF snap] in_set_dropD by fast
  then show ?thesis by (simp add: decide_from_def)
qed

text \<open>The verdict depends on the store only through the lists of the chain.\<close>

lemma decide_from_low:
  assumes "acl_snapshot G g" "acl_snapshot G' g'" "gu_chain g' = gu_chain g" "gu_agent g' = gu_agent g"
    and same: "\<And>u. u \<in> set (gu_chain g) \<Longrightarrow> presentG G (acl_iri u) = presentG G' (acl_iri u) \<and> G (acl_iri u) = G' (acl_iri u)"
  shows "decide_from g s m = decide_from g' s m"
proof -
  let ?us = "drop s (gu_chain g)"
  have nth: "?us ! k \<in> set (gu_chain g)" if "k < length ?us" for k using that by (meson in_set_dropD nth_mem)
  have pres: "presentG G (acl_iri (?us ! k)) = presentG G' (acl_iri (?us ! k))" if "k < length ?us" for k
    using same [OF nth [OF that]] by blast
  have gov: "governing G ?us i \<longleftrightarrow> governing G' ?us i" for i
    unfolding governing_def using pres by auto
  show ?thesis
  proof (cases "\<exists>i. governing G ?us i")
    case True
    then obtain i where i: "governing G ?us i" "governing G' ?us i" using gov by blast
    then have "?us ! i \<in> set (gu_chain g)" by (intro nth) (simp add: governing_def)
    then have eq: "G (acl_iri (?us ! i)) = G' (acl_iri (?us ! i))" using same by blast
    obtain ts where ts: "set ts = G (acl_iri (?us ! i))" and d: "decide_from g s m =
        (if allows (decide ts (gu_agent g) (r_iri (?us ! i)) (0 < i)) m
         then Inr \<lparr>d_user = decide ts (gu_agent g) (r_iri (?us ! i)) (0 < i), d_public = decide ts Public (r_iri (?us ! i)) (0 < i)\<rparr>
         else Inl (deny (gu_agent g)))"
      using decide_from_governing [OF assms(1) i(1)] by blast
    obtain ts' where ts': "set ts' = G (acl_iri (?us ! i))" and d': "decide_from g' s m =
        (if allows (decide ts' (gu_agent g) (r_iri (?us ! i)) (0 < i)) m
         then Inr \<lparr>d_user = decide ts' (gu_agent g) (r_iri (?us ! i)) (0 < i), d_public = decide ts' Public (r_iri (?us ! i)) (0 < i)\<rparr>
         else Inl (deny (gu_agent g)))"
      using decide_from_governing [OF assms(2), of s i m] i(2) eq unfolding assms(3,4) by metis
    have "set ts = set ts'" using ts ts' by simp
    from decide_set [OF this] show ?thesis unfolding d d' by presburger
  next
    case False
    with gov have "\<And>i. \<not> governing G ?us i" "\<And>i. \<not> governing G' ?us i" by auto
    then show ?thesis
      using decide_from_ungoverned [OF assms(1)] decide_from_ungoverned [OF assms(2)] assms(3,4) by simp
  qed
qed

section \<open>Writing along the chain\<close>

lemma target_iri_subject: "\<not> is_aux t \<Longrightarrow> target_iri t = r_iri (target_subject t)"
  by (cases t) (simp_all add: is_aux_def container_iri_def)

text \<open>
  The plan of the walk: every entry is an authorized level; every level below the first
  existing one links its child; and every level that does not exist is a creation.
\<close>

lemma plan_ancestors_entry:
  "plan_ancestors g i cs child rc = Inr (plan, created) \<Longrightarrow> (c, ch) \<in> set plan \<Longrightarrow>
     \<exists>k < length cs. c = cs ! k \<and> (\<exists>d. decide_from g (Suc (i + k)) Append = Inr d)"
proof (induction g i cs child rc arbitrary: plan created rule: plan_ancestors.induct)
  case (2 g i c0 cs child rc)
  show ?case
  proof (cases "c = c0 \<and> (\<exists>d. decide_from g (Suc i) Append = Inr d)")
    case True
    then show ?thesis by (intro exI [of _ 0]) auto
  next
    case False
    with "2.prems" obtain d plan' created' where sub: "container_iri c0 \<notin> gu_present g"
        "decide_from g (Suc i) Append = Inr d"
        "plan_ancestors g (Suc i) cs (container_iri c0) True = Inr (plan', created')" "(c, ch) \<in> set plan'"
      by (auto simp: Let_def res_bind_Inr split: if_splits prod.splits)
    from "2.IH" [OF refl _ refl _ sub(3,4)] sub(1)
    obtain k where "k < length cs" "c = cs ! k" "\<exists>d. decide_from g (Suc (Suc i + k)) Append = Inr d" by auto
    then show ?thesis by (intro exI [of _ "Suc k"]) auto
  qed
qed simp

lemma plan_ancestors_links:
  "plan_ancestors g i cs child rc = Inr (plan, created) \<Longrightarrow> k < length cs \<Longrightarrow>
     (\<forall>j < k. container_iri (cs ! j) \<notin> gu_present g) \<Longrightarrow> rc \<or> 0 < k \<Longrightarrow>
     (cs ! k, Some (if k = 0 then child else container_iri (cs ! (k - 1)))) \<in> set plan"
proof (induction g i cs child rc arbitrary: plan created k rule: plan_ancestors.induct)
  case (2 g i c0 cs child rc)
  show ?case
  proof (cases k)
    case 0
    with "2.prems" show ?thesis by (auto simp: Let_def res_bind_Inr split: if_splits prod.splits)
  next
    case (Suc k')
    then have new: "container_iri c0 \<notin> gu_present g" using "2.prems"(3) by (metis nth_Cons_0 zero_less_Suc)
    with "2.prems" obtain d plan' created' where sub: "decide_from g (Suc i) Append = Inr d"
        "plan_ancestors g (Suc i) cs (container_iri c0) True = Inr (plan', created')"
        "plan = (c0, if rc then Some child else None) # plan'"
      by (auto simp: Let_def res_bind_Inr split: if_splits prod.splits)
    have "(cs ! k', Some (if k' = 0 then container_iri c0 else container_iri (cs ! (k' - 1)))) \<in> set plan'"
      by (rule "2.IH" [OF refl _ refl _ sub(2)]) (use new "2.prems"(2,3) Suc in auto)
    then show ?thesis using Suc sub(3) by (cases k') auto
  qed
qed simp

lemma plan_ancestors_created:
  "plan_ancestors g i cs child rc = Inr (plan, created) \<Longrightarrow> (c, ch) \<in> set plan \<Longrightarrow>
     (\<forall>k < length cs. gu_chain g ! Suc (i + k) = as_resource (cs ! k)) \<Longrightarrow>
     container_iri c \<in> gu_present g \<or> as_resource c \<in> set created"
proof (induction g i cs child rc arbitrary: plan created rule: plan_ancestors.induct)
  case (2 g i c0 cs child rc)
  have c0: "gu_chain g ! Suc i = as_resource c0" using "2.prems"(3) by auto
  show ?case
  proof (cases "c = c0")
    case True
    with "2.prems"(1,2) c0 show ?thesis by (auto simp: Let_def res_bind_Inr split: if_splits prod.splits)
  next
    case False
    with "2.prems"(1,2) obtain d plan' created' where sub: "container_iri c0 \<notin> gu_present g"
        "decide_from g (Suc i) Append = Inr d"
        "plan_ancestors g (Suc i) cs (container_iri c0) True = Inr (plan', created')" "(c, ch) \<in> set plan'"
        "created = gu_chain g ! Suc i # created'"
      by (auto simp: Let_def res_bind_Inr split: if_splits prod.splits)
    have "container_iri c \<in> gu_present g \<or> as_resource c \<in> set created'"
      by (rule "2.IH" [OF refl _ refl _ sub(3,4)]) (use sub(1) "2.prems"(3) in auto)
    then show ?thesis using sub(5) by auto
  qed
qed simp

context pod
begin

text \<open>Running a plan only adds, only at the planned containers, and never touches blobs.\<close>

lemma insert_marked_grow:
  "http_iri g \<Longrightarrow> G h \<subseteq> exec (insert_marked_update g body) G h"
  "http_iri g \<Longrightarrow> exec (insert_marked_update g body) G h \<noteq> G h \<Longrightarrow> h = g \<or> h = sys_graph_iri g"
  by (auto simp: insert_marked_exec split: if_splits)

definition grows_at :: "iri set \<Rightarrow> ('db, 'bl) world \<Rightarrow> ('db, 'bl) world \<Rightarrow> bool" where
  "grows_at A w w' \<longleftrightarrow> w_blobs w' = w_blobs w \<and> (\<forall>h. sabs (w_db w) h \<subseteq> sabs (w_db w') h)
     \<and> (\<forall>h. sabs (w_db w') h \<noteq> sabs (w_db w) h \<longrightarrow> h \<in> A \<union> sys_graph_iri ` A)"

lemma grows_at_refl [simp]: "grows_at A w w"
  by (simp add: grows_at_def)

lemma grows_at_trans:
  assumes "grows_at A w w1" "grows_at B w1 w2" "A \<union> B \<subseteq> C"
  shows "grows_at C w w2"
  unfolding grows_at_def
proof (intro conjI allI impI)
  fix h assume "sabs (w_db w2) h \<noteq> sabs (w_db w) h"
  then consider "sabs (w_db w2) h \<noteq> sabs (w_db w1) h" | "sabs (w_db w1) h \<noteq> sabs (w_db w) h" by metis
  then have "h \<in> (A \<union> B) \<union> sys_graph_iri ` (A \<union> B)"
  proof cases
    case 1
    with assms(2) show ?thesis by (auto simp: grows_at_def)
  next
    case 2
    with assms(1) show ?thesis by (auto simp: grows_at_def)
  qed
  then show "h \<in> C \<union> sys_graph_iri ` C" using assms(3) by blast
next
  fix h show "sabs (w_db w) h \<subseteq> sabs (w_db w2) h"
    using assms(1,2) unfolding grows_at_def by blast
qed (use assms in \<open>simp add: grows_at_def\<close>)

lemma ensure_container_grows:
  assumes "http_iri (container_iri c)" "ensure_container E c w = (res, w')"
  shows "grows_at {container_iri c} w w' \<and> (res = Inr () \<longrightarrow> presentG (sabs (w_db w')) (container_iri c))"
  using ensure_container_cases [OF assms(2)] assms(1)
  by (auto simp: grows_at_def insert_marked_exec presentG_def split: if_splits)

lemma add_containment_grows:
  assumes "http_iri (container_iri c)" "add_containment E c child w = (res, w')"
  shows "grows_at {container_iri c} w w' \<and>
    (res = Inr () \<longrightarrow> contains_triple (container_iri c) child \<in> sabs (w_db w') (container_iri c))"
  using add_containment_cases [OF assms(2)] assms(1)
  by (auto simp: grows_at_def insert_marked_exec split: if_splits)

text \<open>What running a plan leaves, on whatever it returns.\<close>

definition planned ::
  "(container_url \<times> iri option) list \<Rightarrow> ('db, 'bl) world \<Rightarrow> ('db, 'bl) world \<Rightarrow> denial + 'a \<Rightarrow> bool" where
  "planned ps w w' res \<longleftrightarrow> grows_at (container_iri ` fst ` set ps) w w' \<and> (\<forall>e. res = Inl e \<longrightarrow> (\<exists>r. e = StoreDenied r)) \<and>
    (\<forall>l. res = Inr l \<longrightarrow> (\<forall>(c, ch) \<in> set ps. presentG (sabs (w_db w')) (container_iri c) \<and>
       (\<forall>i. ch = Some i \<longrightarrow> contains_triple (container_iri c) i \<in> sabs (w_db w') (container_iri c))))"

lemma grows_keeps: "grows_at A w w' \<Longrightarrow> t \<in> sabs (w_db w) h \<Longrightarrow> t \<in> sabs (w_db w') h"
  unfolding grows_at_def by blast

lemma grows_keeps_present: "grows_at A w w' \<Longrightarrow> presentG (sabs (w_db w)) h \<Longrightarrow> presentG (sabs (w_db w')) h"
  unfolding presentG_def by (rule grows_keeps)

lemma planned_error: "grows_at {container_iri c} w w' \<Longrightarrow> planned ((c, ch) # ps) w w' (Inl (StoreDenied r))"
  unfolding planned_def by (auto intro: grows_at_trans [OF _ grows_at_refl])

lemma planned_Cons:
  assumes "grows_at {container_iri c} w w1" and "presentG (sabs (w_db w1)) (container_iri c)"
    and "\<And>i. ch = Some i \<Longrightarrow> contains_triple (container_iri c) i \<in> sabs (w_db w1) (container_iri c)"
    and "planned ps w1 w' r" and "\<And>l. res = Inr l \<Longrightarrow> \<exists>l'. r = Inr l'" and "\<And>e. res = Inl e \<Longrightarrow> r = Inl e"
  shows "planned ((c, ch) # ps) w w' res"
proof -
  have g: "grows_at (container_iri ` fst ` set ps) w1 w'" using assms(4) by (simp add: planned_def)
  have "grows_at (container_iri ` fst ` set ((c, ch) # ps)) w w'" by (rule grows_at_trans [OF assms(1) g]) simp
  then show ?thesis
    using assms(3-6) grows_keeps [OF g] grows_keeps_present [OF g assms(2)] unfolding planned_def by auto
qed

lemma run_plan_planned:
  assumes "\<forall>c \<in> fst ` set ps. http_iri (container_iri c)" "run_plan E ps w = (res, w')"
  shows "planned ps w w' res"
  using assms
proof (induction ps arbitrary: w res)
  case Nil
  then show ?case by (auto simp: planned_def)
next
  case (Cons p ps)
  obtain c ch where p: "p = (c, ch)" by (cases p)
  have http: "http_iri (container_iri c)" using Cons.prems(1) p by simp
  have IH: "planned ps w2 w' r" if "run_plan E ps w2 = (r, w')" for w2 r
    by (rule Cons.IH [OF _ that]) (use Cons.prems(1) in simp)
  from Cons.prems(2) [unfolded p run_plan.simps] show ?case unfolding p
  proof (cases rule: op_bind_cases)
    case (err e)
    then obtain r where "ensure_container E c w = (Inl r, w')" "e = StoreDenied r" by (auto simp: op_map_err_Inl)
    with ensure_container_grows [OF http this(1)] err(2) show "planned ((c, ch) # ps) w w' res"
      by (auto intro: planned_error)
  next
    case (ok x w1)
    then have "ensure_container E c w = (Inr x, w1)" by (simp add: op_map_err_conv)
    from ensure_container_grows [OF http this] have g1: "grows_at {container_iri c} w w1"
      and p1: "presentG (sabs (w_db w1)) (container_iri c)" by simp_all
    show "planned ((c, ch) # ps) w w' res"
    proof (cases ch)
      case None
      with ok(2) IH show ?thesis by (intro planned_Cons [OF g1 p1]) auto
    next
      case (Some i)
      from ok(2) [unfolded Some option.case] show ?thesis
      proof (cases rule: op_bind_cases)
        case (err e)
        then obtain r where "add_containment E c i w1 = (Inl r, w')" "e = StoreDenied r" by (auto simp: op_map_err_Inl)
        with add_containment_grows [OF http this(1)] g1 err(2) show ?thesis
          by (auto intro!: planned_error intro: grows_at_trans)
      next
        case (ok y w2)
        then have "add_containment E c i w1 = (Inr y, w2)" by (simp add: op_map_err_conv)
        from add_containment_grows [OF http this] have g2: "grows_at {container_iri c} w1 w2"
          and t2: "contains_triple (container_iri c) i \<in> sabs (w_db w2) (container_iri c)" by simp_all
        have g12: "grows_at {container_iri c} w w2" by (rule grows_at_trans [OF g1 g2]) simp
        from ok(2) obtain r where r: "run_plan E ps w2 = (r, w')" and res: "\<And>l. res = Inr l \<Longrightarrow> \<exists>l'. r = Inr l'"
          "\<And>e. res = Inl e \<Longrightarrow> r = Inl e" by (auto elim!: op_bind_cases)
        show ?thesis
          by (rule planned_Cons [OF g12 grows_keeps_present [OF g2 p1] _ IH [OF r] res]) (use Some t2 in simp)
      qed
    qed
  qed
qed

lemmas run_plan_grows = run_plan_planned [unfolded planned_def]

end

lemma in_space_eqI: "in_space sp u \<Longrightarrow> in_space sp v \<Longrightarrow> r_iri u = r_iri v \<Longrightarrow> u = (v :: resource_url)"
  by (cases u; cases v) (auto simp: in_space_def prefix_def)

text \<open>The Solid rule that a URL and its trailing-slash counterpart never both exist.\<close>

definition slash_free :: "storage_space \<Rightarrow> graphs \<Rightarrow> bool" where
  "slash_free sp G \<longleftrightarrow> (\<forall>u c. storage_url sp u \<longrightarrow> is_normalization_stable (r_path u) \<longrightarrow>
     slash_counterpart u = Some c \<longrightarrow> \<not> (presentG G (r_iri u) \<and> presentG G (r_iri c)))"

lemma counterpart_not_container:
  assumes "is_normalization_stable (r_path u)" "prefix ''/'' (r_path u)"
    and "slash_counterpart u = Some c" and "suffix ''/'' (r_path u)"
  shows "\<not> suffix ''/'' (r_path c)"
proof -
  obtain p where p: "r_path u = p @ ''/''" using assms(4) by (auto simp: suffix_def)
  then have "r_path c = p" using assms(3) by (auto simp: slash_counterpart_def split: list.splits)
  then show ?thesis using stable_no_double_slash [OF assms(1,2)] p by (auto simp: suffix_def)
qed

lemma ancestors_suffix: "c \<in> set (ancestors u) \<Longrightarrow> suffix ''/'' (r_path (as_resource c))"
proof -
  assume "c \<in> set (ancestors u)"
  then have "container_path c \<in> set (slash_prefixes (r_path u))"
    unfolding ancestors_paths [symmetric] by simp
  then have "r_path (as_resource c) \<noteq> []" "last (r_path (as_resource c)) = CHR ''/''"
    by (auto simp: slash_prefixes_def container_path_def)
  then show ?thesis unfolding suffix_def by (metis append_butlast_last_id)
qed

lemma ancestors_shorter: "c \<in> set (ancestors u) \<Longrightarrow> length (r_path (as_resource c)) < length (r_path u)"
proof -
  assume "c \<in> set (ancestors u)"
  then have "container_path c \<in> set (slash_prefixes (r_path u))"
    unfolding ancestors_paths [symmetric] by simp
  then show ?thesis by (auto simp: slash_prefixes_def container_path_def)
qed

lemma request_chain_simps [simp]:
  "request_chain t ! 0 = target_subject t"
  "length (request_chain t) = Suc (length (ancestors (target_subject t)))"
  "k < length (ancestors (target_subject t)) \<Longrightarrow>
     request_chain t ! Suc k = as_resource (ancestors (target_subject t) ! k)"
  by (simp_all add: request_chain_def)

context pod
begin

text \<open>A refusal writes nothing; otherwise the plan of the walk has been run.\<close>

lemma materialize_cases:
  assumes "snapshot (sabs (w_db w)) g" and "materialize E g w = (res, w')"
  obtains (refused) e where "res = Inl e" "w' = w" "e \<in> {deny (gu_agent g), AuxSubjectMissing, SlashPair}"
  | (ran) plan above r where
      "plan_ancestors g 0 (ancestors (target_subject (gu_target g))) (target_iri (gu_target g))
         (\<not> is_aux (gu_target g) \<and> \<not> target_exists g) = Inr (plan, above)"
      "\<not> list_ex (counterpart_taken (gu_present g))
         ((if \<not> is_aux (gu_target g) \<and> \<not> target_exists g then [target_subject (gu_target g)] else []) @ above)"
      "run_plan E plan w = (r, w')" "\<And>m. res = Inr m \<Longrightarrow> \<exists>l. r = Inr l" "\<And>e. res = Inl e \<Longrightarrow> r = Inl e"
proof -
  have sub: "gu_chain g ! 0 = target_subject (gu_target g)" using assms(1) by (simp add: snapshot_def)
  let ?mem = "\<not> is_aux (gu_target g) \<and> \<not> target_exists g"
  let ?plan = "plan_ancestors g 0 (ancestors (target_subject (gu_target g))) (target_iri (gu_target g)) ?mem"
  have plan_denial: "e = deny (gu_agent g)" if "plan_ancestors g i cs child rc = Inl e" for i cs child rc e
    using that
    by (induction g i cs child rc rule: plan_ancestors.induct)
       (auto simp: Let_def res_bind_def dest: decide_from_denial split: if_splits sum.splits prod.splits)
  note m = assms(2) [unfolded materialize_def Let_def sub target_exists_def [symmetric] op_bind_res]
  show thesis
  proof (cases ?plan)
    case (Inl e)
    with m plan_denial [OF Inl] refused [of e] show ?thesis by auto
  next
    case (Inr pa)
    obtain plan above where pa: "pa = (plan, above)" by (cases pa)
    note m = m [unfolded Inr sum.case pa prod.case]
    show ?thesis
    proof (cases "is_aux (gu_target g) \<and> r_iri (target_subject (gu_target g)) \<notin> gu_present g")
      case True
      with m refused [of AuxSubjectMissing] show ?thesis by auto
    next
      case aux: False
      show ?thesis
      proof (cases "list_ex (counterpart_taken (gu_present g)) ((if ?mem then [target_subject (gu_target g)] else []) @ above)")
        case True
        then show ?thesis using m refused [of SlashPair] unfolding if_not_P [OF aux] if_P [OF True] by auto
      next
        case False
        from m [unfolded if_not_P [OF aux] if_not_P [OF False]] obtain r where "run_plan E plan w = (r, w')"
          "\<And>m. res = Inr m \<Longrightarrow> \<exists>l. r = Inr l" "\<And>e. res = Inl e \<Longrightarrow> r = Inl e" by (auto elim!: op_bind_cases)
        with ran [OF Inr [unfolded pa] False] show ?thesis by blast
      qed
    qed
  qed
qed

end

context pod
begin

text \<open>What running the plan adds: only at ancestors, a container that was absent only where its
  counterpart is absent too, and on success the links of the chain down to a new member.\<close>

lemma materialize_ran:
  assumes sp: "pod_space sp" "storage_url sp (target_subject t)"
    and snap: "snapshot (sabs (w_db w)) g" "gu_target g = t" and mat: "materialize E g w = (res, w')"
  obtains (refused) e where "res = Inl e" "w' = w"
  | (ran) plan above r where
      "plan_ancestors g 0 (ancestors (target_subject t)) (target_iri t) (\<not> is_aux t \<and> \<not> target_exists g) = Inr (plan, above)"
      "run_plan E plan w = (r, w')" "\<And>m. res = Inr m \<Longrightarrow> \<exists>l. r = Inr l"
      "\<And>c ch. (c, ch) \<in> set plan \<Longrightarrow> c \<in> set (ancestors (target_subject t))"
      "\<forall>c \<in> fst ` set plan. http_iri (container_iri c)"
      "\<And>v d. v \<in> set above \<or> \<not> is_aux t \<and> \<not> presentG (sabs (w_db w)) (target_iri t) \<and> v = target_subject t \<Longrightarrow>
         v \<in> set (request_chain t) \<Longrightarrow> slash_counterpart v = Some d \<Longrightarrow> \<not> presentG (sabs (w_db w)) (r_iri d)"
proof (rule materialize_cases [OF snap(1) mat, unfolded snap(2)])
  fix e assume "res = Inl e" "w' = w"
  then show thesis by (rule refused)
next
  fix plan above r
  assume plan: "plan_ancestors g 0 (ancestors (target_subject t)) (target_iri t) (\<not> is_aux t \<and> \<not> target_exists g) = Inr (plan, above)"
    and pair: "\<not> list_ex (counterpart_taken (gu_present g))
      ((if \<not> is_aux t \<and> \<not> target_exists g then [target_subject t] else []) @ above)"
    and run: "run_plan E plan w = (r, w')" "\<And>m. res = Inr m \<Longrightarrow> \<exists>l. r = Inr l"
  have chain: "gu_chain g = request_chain t" using snap by (simp add: snapshot_def)
  have anc: "c \<in> set (ancestors (target_subject t))" if "(c, ch) \<in> set plan" for c ch
    using plan_ancestors_entry [OF plan that] by auto
  then have http: "\<forall>c \<in> fst ` set plan. http_iri (container_iri c)"
    using ancestors_storage [OF sp] storage_http [OF sp(1)] by (force simp: container_iri_def)
  have ex: "target_exists g \<longleftrightarrow> presentG (sabs (w_db w)) (target_iri t)" if "\<not> is_aux t"
    using target_iri_subject [OF that] snapshot_present(1) [OF snap(1), of "target_subject t"]
    by (simp add: target_exists_def snap(2) chain request_chain_def)
  have untaken: "\<not> presentG (sabs (w_db w)) (r_iri d)"
    if "v \<in> set above \<or> \<not> is_aux t \<and> \<not> presentG (sabs (w_db w)) (target_iri t) \<and> v = target_subject t"
      "v \<in> set (request_chain t)" "slash_counterpart v = Some d" for v d
  proof -
    have "\<not> counterpart_taken (gu_present g) v" using that(1) pair ex by (auto simp: list_ex_iff)
    with that(2,3) snapshot_present(3) [OF snap(1)] show ?thesis by (simp add: counterpart_taken_def chain)
  qed
  show thesis by (rule ran [OF plan run anc http untaken]) assumption+
qed

text \<open>A graph of the space that materialization made present is a container of the chain above the
  target, and one the plan reckoned as created.\<close>

lemma materialize_new:
  assumes sp: "pod_space sp" "storage_url sp (target_subject t)"
    and snap: "snapshot (sabs (w_db w)) g" "gu_target g = t"
    and plan: "plan_ancestors g 0 (ancestors (target_subject t)) (target_iri t) (\<not> is_aux t \<and> \<not> target_exists g) = Inr (plan, cre)"
    and http: "\<forall>c \<in> fst ` set plan. http_iri (container_iri c)" and run: "run_plan E plan w = (r, w')"
    and v: "in_space sp v" "presentG (sabs (w_db w')) (r_iri v)" "\<not> presentG (sabs (w_db w)) (r_iri v)"
  shows "\<exists>c \<in> set (ancestors (target_subject t)). v = as_resource c \<and> v \<in> set cre \<and> suffix ''/'' (r_path v)"
proof -
  have chain: "gu_chain g = request_chain t" using snap by (simp add: snapshot_def)
  have "sabs (w_db w') (sys_graph_iri (r_iri v)) \<noteq> sabs (w_db w) (sys_graph_iri (r_iri v))"
    using v by (auto simp: presentG_def)
  then have "sys_graph_iri (r_iri v) \<in> container_iri ` fst ` set plan \<union> sys_graph_iri ` container_iri ` fst ` set plan"
    using run_plan_grows [OF http run] unfolding grows_at_def by blast
  then obtain c ch where c: "(c, ch) \<in> set plan" "r_iri v = container_iri c" using http by force
  have anc: "c \<in> set (ancestors (target_subject t))" using plan_ancestors_entry [OF plan c(1)] by auto
  then have "as_resource c \<in> set (gu_chain g)" by (simp add: chain request_chain_def)
  then have "as_resource c \<in> set cre"
    using plan_ancestors_created [OF plan c(1)] snapshot_present(1) [OF snap(1)] v(3) c(2)
    by (auto simp: chain container_iri_def)
  moreover have "v = as_resource c"
    using in_space_eqI [OF v(1), of "as_resource c"] ancestors_storage [OF sp anc] c(2)
    by (simp add: storage_url_def container_iri_def)
  ultimately show ?thesis using anc ancestors_suffix by auto
qed

lemma materialize_slash_free:
  assumes sp: "pod_space sp" "storage_url sp (target_subject t)"
    and snap: "snapshot (sabs (w_db w)) g" "gu_target g = t" and mat: "materialize E g w = (res, w')"
    and free: "slash_free sp (sabs (w_db w))"
  shows "slash_free sp (sabs (w_db w'))"
proof (rule materialize_ran [OF sp snap mat])
  assume "w' = w"
  with free show ?thesis by simp
next
  fix plan above r
  assume plan: "plan_ancestors g 0 (ancestors (target_subject t)) (target_iri t) (\<not> is_aux t \<and> \<not> target_exists g) = Inr (plan, above)"
    and run: "run_plan E plan w = (r, w')" and http: "\<forall>c \<in> fst ` set plan. http_iri (container_iri c)"
    and untaken: "\<And>v d. v \<in> set above \<or> \<not> is_aux t \<and> \<not> presentG (sabs (w_db w)) (target_iri t) \<and> v = target_subject t \<Longrightarrow>
         v \<in> set (request_chain t) \<Longrightarrow> slash_counterpart v = Some d \<Longrightarrow> \<not> presentG (sabs (w_db w)) (r_iri d)"
  note new = materialize_new [OF sp snap plan http run]
  show ?thesis unfolding slash_free_def
  proof (intro allI impI notI)
    fix u d
    assume u: "storage_url sp u" "is_normalization_stable (r_path u)" "slash_counterpart u = Some d"
      and both: "presentG (sabs (w_db w')) (r_iri u) \<and> presentG (sabs (w_db w')) (r_iri d)"
    have in_u: "in_space sp u" "prefix ''/'' (r_path u)" using u(1) by (auto simp: storage_url_def in_space_def)
    have inv: "in_space sp d" "slash_counterpart d = Some u"
      using slash_counterpart_involution [OF in_u(1) _ u(2,3)] sp(1) by (simp_all add: pod_space_def)
    consider "\<not> presentG (sabs (w_db w)) (r_iri u)" | "\<not> presentG (sabs (w_db w)) (r_iri d)"
      using free u unfolding slash_free_def by blast
    then have "\<not> presentG (sabs (w_db w)) (r_iri u) \<and> \<not> presentG (sabs (w_db w)) (r_iri d)"
    proof cases
      case 1
      then obtain a where "a \<in> set (ancestors (target_subject t))" "u = as_resource a" "u \<in> set above"
        using new in_u both by blast
      then show ?thesis using 1 untaken [of u d] u(3) by (auto simp: request_chain_def)
    next
      case 2
      then obtain a where "a \<in> set (ancestors (target_subject t))" "d = as_resource a" "d \<in> set above"
        using new inv both by blast
      then show ?thesis using 2 untaken [of d u] inv(2) by (auto simp: request_chain_def)
    qed
    then have "suffix ''/'' (r_path u)" "suffix ''/'' (r_path d)" using new in_u inv both by blast+
    with counterpart_not_container [OF u(2) in_u(2) u(3)] show False by simp
  qed
qed

text \<open>The counterpart of a new member is absent after a successful materialization as well.\<close>

lemma materialize_untaken:
  assumes sp: "pod_space sp" "storage_url sp (target_subject t)" and stable: "is_normalization_stable (r_path (target_subject t))"
    and snap: "snapshot (sabs (w_db w)) g" "gu_target g = t" and mat: "materialize E g w = (Inr m, w')"
    and t: "\<not> is_aux t" "\<not> presentG (sabs (w_db w)) (target_iri t)" "slash_counterpart (target_subject t) = Some c"
  shows "\<not> presentG (sabs (w_db w')) (r_iri c)"
proof (rule materialize_ran [OF sp snap mat])
  fix e assume "Inr m = (Inl e :: denial + materialized)"
  then show ?thesis by simp
next
  let ?s = "target_subject t"
  fix plan above r
  assume plan: "plan_ancestors g 0 (ancestors ?s) (target_iri t) (\<not> is_aux t \<and> \<not> target_exists g) = Inr (plan, above)"
    and run: "run_plan E plan w = (r, w')" and http: "\<forall>c \<in> fst ` set plan. http_iri (container_iri c)"
    and untaken: "\<And>v d. v \<in> set above \<or> \<not> is_aux t \<and> \<not> presentG (sabs (w_db w)) (target_iri t) \<and> v = ?s \<Longrightarrow>
         v \<in> set (request_chain t) \<Longrightarrow> slash_counterpart v = Some d \<Longrightarrow> \<not> presentG (sabs (w_db w)) (r_iri d)"
  show ?thesis
  proof
    assume pc: "presentG (sabs (w_db w')) (r_iri c)"
    have "\<not> presentG (sabs (w_db w)) (r_iri c)"
      using untaken [of ?s c] t by (simp add: request_chain_def)
    moreover have "in_space sp c"
      using slash_counterpart_involution [OF _ _ stable t(3)] sp by (auto simp: storage_url_def pod_space_def)
    ultimately obtain a where a: "a \<in> set (ancestors ?s)" "c = as_resource a" "suffix ''/'' (r_path c)"
      using materialize_new [OF sp snap plan http run] pc by blast
    have "prefix ''/'' (r_path ?s)" using sp(2) by (auto simp: storage_url_def in_space_def)
    then have "\<not> suffix ''/'' (r_path ?s)" using counterpart_not_container [OF stable _ t(3)] a(3) by blast
    then have "length (r_path ?s) < length (r_path c)"
      using t(3) by (auto simp: slash_counterpart_def strip_suffix_None split: option.splits list.splits)
        (simp add: suffix_def str_simps)
    with ancestors_shorter [OF a(1)] a(2) show False by simp
  qed
qed

text \<open>On success every container up to and including the first that existed is present and lists the
  element below it.\<close>

lemma materialize_links:
  assumes sp: "pod_space sp" "storage_url sp (target_subject t)"
    and snap: "snapshot (sabs (w_db w)) g" "gu_target g = t" and mat: "materialize E g w = (Inr m, w')"
    and t: "\<not> is_aux t" "\<not> presentG (sabs (w_db w)) (target_iri t)"
    and i: "i < length (ancestors (target_subject t))"
    and absent: "\<forall>j < i. \<not> presentG (sabs (w_db w)) (container_iri (ancestors (target_subject t) ! j))"
  shows "presentG (sabs (w_db w')) (container_iri (ancestors (target_subject t) ! i)) \<and>
    contains_triple (container_iri (ancestors (target_subject t) ! i)) (r_iri (request_chain t ! i)) \<in>
      sabs (w_db w') (container_iri (ancestors (target_subject t) ! i))"
proof (rule materialize_ran [OF sp snap mat])
  fix e assume "Inr m = (Inl e :: denial + materialized)"
  then show ?thesis by simp
next
  let ?cs = "ancestors (target_subject t)"
  fix plan above r
  assume plan: "plan_ancestors g 0 ?cs (target_iri t) (\<not> is_aux t \<and> \<not> target_exists g) = Inr (plan, above)"
    and run: "run_plan E plan w = (r, w')" and http: "\<forall>c \<in> fst ` set plan. http_iri (container_iri c)"
    and ok: "\<And>x. Inr m = (Inr x :: denial + materialized) \<Longrightarrow> \<exists>l. r = Inr l"
  have chain: "gu_chain g = request_chain t" using snap by (simp add: snapshot_def)
  have tgt: "target_iri t = r_iri (target_subject t)" using t(1) by (rule target_iri_subject)
  have new: "\<not> target_exists g"
    using snapshot_present(1) [OF snap(1), of "target_subject t"] t(2) tgt
    by (simp add: target_exists_def snap(2) chain request_chain_def)
  have "container_iri (?cs ! j) \<notin> gu_present g" if "j < i" for j
    using snapshot_present(1) [OF snap(1), of "as_resource (?cs ! j)"] absent that i
    by (simp add: chain request_chain_def container_iri_def)
  then have "(?cs ! i, Some (if i = 0 then target_iri t else container_iri (?cs ! (i - 1)))) \<in> set plan"
    by (intro plan_ancestors_links [OF plan i]) (use t(1) new in auto)
  moreover have "(if i = 0 then target_iri t else container_iri (?cs ! (i - 1))) = r_iri (request_chain t ! i)"
    using i by (cases i) (simp_all add: tgt container_iri_def)
  ultimately have "(?cs ! i, Some (r_iri (request_chain t ! i))) \<in> set plan" by simp
  moreover obtain l where "r = Inr l" using ok by blast
  ultimately show ?thesis using run_plan_grows [OF http run] by auto
qed

end

section \<open>Properties\<close>

text \<open>C9: The guard decides by the nearest access-control list and by nothing else. With no list
  at or above the target every request is refused; otherwise the verdict, for the mode the
  handler asked for or for Control when the target is an access-control list itself, is the
  policy decision on the one nearest list, through \<open>acl:accessTo\<close> at the target and
  \<open>acl:default\<close> above it, so an ancestor's rules are never merged in. A refusal only tells
  whether credentials were missing or insufficient.\<close>

theorem authorize_nearest_acl:
  assumes "pod E sabs babs" and "pod_space sp" and "storage_url sp (target_subject t)"
    and "probe E ag t w = (Inr g, w')"
  shows "w' = w \<and>
    ((\<forall>u \<in> set (request_chain t). \<not> presentG (sabs (w_db w)) (acl_iri u)) \<longrightarrow> authorize g m = Inl (deny ag)) \<and>
    (\<forall>i. governing (sabs (w_db w)) (request_chain t) i \<longrightarrow>
      (\<exists>acl. set acl = sabs (w_db w) (acl_iri (request_chain t ! i)) \<and>
        authorize g m =
          (let u = r_iri (request_chain t ! i); held = decide acl ag u (0 < i) in
           if allows held (case t of Aux a \<Rightarrow> Control | _ \<Rightarrow> m)
           then Inr \<lparr>d_user = held, d_public = decide acl Public u (0 < i)\<rparr>
           else Inl (deny ag))))"
proof -
  have g: "w' = w" "gu_agent g = ag" "gu_target g = t" "snapshot (sabs (w_db w)) g"
    using pod.probe_ok [OF assms] by simp_all
  then have snap: "acl_snapshot (sabs (w_db w)) g" and chain: "gu_chain g = request_chain t"
    by (simp_all add: snapshot_def)
  have req: "required_mode t m = (case t of Aux a \<Rightarrow> Control | _ \<Rightarrow> m)"
    by (auto simp: required_mode_def split: target.splits) (metis aux_kind.exhaust required_mode_for_aux.simps)
  have "authorize g m = Inl (deny ag)" if "\<forall>u \<in> set (request_chain t). \<not> presentG (sabs (w_db w)) (acl_iri u)"
  proof -
    have "\<not> governing (sabs (w_db w)) (drop 0 (gu_chain g)) i" for i
      using that nth_mem [of i "request_chain t"] by (auto simp: governing_def chain)
    from decide_from_ungoverned [OF snap this] show ?thesis by (simp add: authorize_def g)
  qed
  moreover have "\<exists>acl. set acl = sabs (w_db w) (acl_iri (request_chain t ! i)) \<and> authorize g m =
      (let u = r_iri (request_chain t ! i); held = decide acl ag u (0 < i) in
       if allows held (case t of Aux a \<Rightarrow> Control | _ \<Rightarrow> m)
       then Inr \<lparr>d_user = held, d_public = decide acl Public u (0 < i)\<rparr> else Inl (deny ag))"
    if "governing (sabs (w_db w)) (request_chain t) i" for i
    unfolding authorize_def g Let_def req
    by (rule decide_from_governing [OF snap, of 0 i, unfolded drop_0 chain g(2), OF that])
  ultimately show ?thesis using g(1) by blast
qed

text \<open>Example: a pod whose root has a list that lets one agent write below it.\<close>

definition ex_acl :: "triple list" where
  "ex_acl = [mk_triple (NamedNode ''#o'') ACL_AGENT (TermNamed ''http://w/me''),
     mk_triple (NamedNode ''#o'') ACL_ACCESS_TO (TermNamed ''http://h/''),
     mk_triple (NamedNode ''#o'') ACL_DEFAULT (TermNamed ''http://h/''),
     mk_triple (NamedNode ''#o'') ACL_MODE (TermNamed ACL_WRITE)]"

definition ex_root :: container_url where "ex_root = space_root \<lparr>s_base = ''http://h/''\<rparr>"

definition acl_world :: "(mem_db, mem_bl) world" where
  "acl_world = mem_world\<lparr>w_db :=
     [(sys_graph_iri ''http://h/'', present_triple ''http://h/''),
      (sys_graph_iri (acl_iri (as_resource ex_root)), present_triple (acl_iri (as_resource ex_root)))]
     @ map (Pair (acl_iri (as_resource ex_root))) ex_acl\<rparr>"

definition ex_guard :: "agent \<Rightarrow> guard_rec" where
  "ex_guard ag = projr (fst (probe mem_env ag (Resource ex_url) acl_world))"

lemma ex_probe_ok: "\<not> isl (fst (probe mem_env ag (Resource ex_url) acl_world))"
  by code_simp

lemma ex_probe: "probe mem_env ag (Resource ex_url) acl_world =
    (Inr (ex_guard ag), snd (probe mem_env ag (Resource ex_url) acl_world))"
  using ex_probe_ok [of ag] by (simp add: ex_guard_def prod_eq_iff)

lemma ex_target: "storage_url \<lparr>s_base = ''http://h/''\<rparr> (target_subject (Resource ex_url))"
  by (simp add: ex_storage)

lemma presentG_mem: "presentG (mem_abs db) g \<longleftrightarrow> (sys_graph_iri g, present_triple g) \<in> set db"
  by (simp add: presentG_def mem_abs_def)

lemma ex_chain: "request_chain (Resource ex_url) = [ex_url, as_resource ex_root]"
  by code_simp

lemma ex_governing: "governing (mem_abs (w_db acl_world)) (request_chain (Resource ex_url)) 1"
proof -
  have "(sys_graph_iri (acl_iri (as_resource ex_root)), present_triple (acl_iri (as_resource ex_root))) \<in> set (w_db acl_world)"
    "(sys_graph_iri (acl_iri ex_url), present_triple (acl_iri ex_url)) \<notin> set (w_db acl_world)" by code_simp+
  then show ?thesis by (simp add: governing_def presentG_mem ex_chain)
qed

lemma ex_acl_graph: "mem_abs (w_db acl_world) (acl_iri (as_resource ex_root)) = set ex_acl"
proof -
  have "mem_graph (w_db acl_world) (acl_iri (as_resource ex_root)) = ex_acl" by code_simp
  then show ?thesis by (metis set_mem_graph)
qed

theorem authorize_nearest_acl_witness:
  "authorize (ex_guard Public) Write = Inl Unauthenticated \<and>
   (\<exists>d. authorize (ex_guard (WebId ''http://w/me'')) Write = Inr d)"
proof -
  have auth: "\<exists>acl. set acl = set ex_acl \<and> authorize (ex_guard ag) Write =
      (if allows (decide acl ag (r_iri (as_resource ex_root)) True) Write
       then Inr \<lparr>d_user = decide acl ag (r_iri (as_resource ex_root)) True,
                 d_public = decide acl Public (r_iri (as_resource ex_root)) True\<rparr>
       else Inl (deny ag))" for ag
    using authorize_nearest_acl [OF mem_pod.pod_axioms ex_space ex_target ex_probe, of ag Write,
        THEN conjunct2, THEN conjunct2, rule_format, OF ex_governing]
    unfolding Let_def ex_chain
    by (simp only: nth_Cons_Suc One_nat_def nth_Cons_0 ex_acl_graph zero_less_Suc target.case)
  have "\<not> allows (decide ex_acl Public (r_iri (as_resource ex_root)) True) Write"
    "allows (decide ex_acl (WebId ''http://w/me'') (r_iri (as_resource ex_root)) True) Write" by code_simp+
  then have "\<not> allows (decide acl Public (r_iri (as_resource ex_root)) True) Write"
    "allows (decide acl (WebId ''http://w/me'') (r_iri (as_resource ex_root)) True) Write" if "set acl = set ex_acl" for acl
    using decide_set [OF that] by simp_all
  with auth [of Public] auth [of "WebId ''http://w/me''"] show ?thesis by (metis deny.simps(1))
qed

text \<open>C33: A verdict leaks nothing but the access-control lists of the chain. In two stores that agree on
  which lists of the target's chain exist and on what they say, the same agent asking the
  same of the same target gets the same answer, whatever exists or not otherwise, the target
  included.\<close>

theorem verdict_noninterference:
  assumes "pod E sabs babs" and "pod_space sp" and "storage_url sp (target_subject t)"
    and "probe E ag t w1 = (Inr g1, w1')" and "probe E ag t w2 = (Inr g2, w2')"
    and "\<And>u. u \<in> set (request_chain t) \<Longrightarrow>
      presentG (sabs (w_db w1)) (acl_iri u) = presentG (sabs (w_db w2)) (acl_iri u) \<and>
      sabs (w_db w1) (acl_iri u) = sabs (w_db w2) (acl_iri u)"
  shows "authorize g1 m = authorize g2 m \<and> authorize_parent g1 m = authorize_parent g2 m
    \<and> authorize_aux g1 k = authorize_aux g2 k"
proof -
  have g: "gu_agent g1 = ag" "gu_target g1 = t" "snapshot (sabs (w_db w1)) g1"
    "gu_agent g2 = ag" "gu_target g2 = t" "snapshot (sabs (w_db w2)) g2"
    using pod.probe_ok [OF assms(1-4)] pod.probe_ok [OF assms(1-3,5)] by simp_all
  then have snap: "acl_snapshot (sabs (w_db w1)) g1" "acl_snapshot (sabs (w_db w2)) g2"
    and chain: "gu_chain g1 = request_chain t" "gu_chain g2 = request_chain t"
    by (simp_all add: snapshot_def)
  have dec: "decide_from g1 s x = decide_from g2 s x" for s x
    by (rule decide_from_low [OF snap]) (use assms(6) g chain in auto)
  have "acl_iri (target_subject t) \<in> gu_present g1 \<longleftrightarrow> acl_iri (target_subject t) \<in> gu_present g2"
    using snapshot_present(2) [OF g(3), of "target_subject t"] snapshot_present(2) [OF g(6), of "target_subject t"]
      assms(6) [of "target_subject t"] chain by (simp add: request_chain_def)
  then show ?thesis
    by (cases k) (simp add: authorize_def authorize_parent_def authorize_aux_def dec g chain)
qed

theorem verdict_noninterference_witness:
  "authorize (projr (fst (probe mem_env Public (Resource ex_url) mem_world))) Read =
   authorize (projr (fst (probe mem_env Public (Resource ex_url) (snd (put_rdf mem_env (r_iri ex_url) [] mem_world))))) Read"
proof -
  let ?w = "snd (put_rdf mem_env (r_iri ex_url) [] mem_world)"
  have ok: "\<not> isl (fst (probe mem_env Public (Resource ex_url) mem_world))"
    "\<not> isl (fst (probe mem_env Public (Resource ex_url) ?w))" by code_simp+
  have "w_db ?w = [(sys_graph_iri (r_iri ex_url), present_triple (r_iri ex_url))]" by code_simp
  moreover have "acl_iri u \<noteq> r_iri ex_url \<and> acl_iri u \<noteq> sys_graph_iri (r_iri ex_url)" if "u \<in> set (request_chain (Resource ex_url))" for u
  proof -
    have "list_all (\<lambda>u. acl_iri u \<noteq> r_iri ex_url \<and> acl_iri u \<noteq> sys_graph_iri (r_iri ex_url)) (request_chain (Resource ex_url))"
      by code_simp
    with that show ?thesis by (simp add: list_all_iff)
  qed
  ultimately have same: "presentG (mem_abs (w_db mem_world)) (acl_iri u) = presentG (mem_abs (w_db ?w)) (acl_iri u) \<and>
      mem_abs (w_db mem_world) (acl_iri u) = mem_abs (w_db ?w) (acl_iri u)" if "u \<in> set (request_chain (Resource ex_url))" for u
    using that by (auto simp: presentG_mem mem_abs_def mem_world_def)
  show ?thesis
    using verdict_noninterference [OF mem_pod.pod_axioms ex_space ex_target _ _ same,
        of Public "projr (fst (probe mem_env Public (Resource ex_url) mem_world))" "snd (probe mem_env Public (Resource ex_url) mem_world)"
          "projr (fst (probe mem_env Public (Resource ex_url) ?w))" "snd (probe mem_env Public (Resource ex_url) ?w)" Read Acl] ok
    by (simp add: prod_eq_iff)
qed

text \<open>C34: Materialization never writes above its authority: every graph it changes belongs to a
  container of the chain at which the agent may append, blobs are untouched, and a refusal,
  for missing rights, a missing subject or a slash pair, leaves the world exactly as it was.\<close>

theorem materialize_authorized:
  assumes "pod E sabs babs" and "pod_space sp" and "storage_url sp (target_subject t)"
    and "probe E ag t w0 = (Inr g, w)" and "materialize E g w = (res, w')"
  shows "w_blobs w' = w_blobs w \<and>
    (\<forall>h. sabs (w_db w') h \<noteq> sabs (w_db w) h \<longrightarrow>
      (\<exists>i d. 0 < i \<and> i < length (request_chain t) \<and> decide_from g i Append = Inr d \<and>
        h \<in> {r_iri (request_chain t ! i), sys_graph_iri (r_iri (request_chain t ! i))})) \<and>
    (\<forall>e. res = Inl e \<longrightarrow> e \<in> {deny ag, AuxSubjectMissing, SlashPair} \<and> w' = w \<or> (\<exists>r. e = StoreDenied r))"
proof -
  have p: "w = w0" "gu_agent g = ag" "gu_target g = t" "snapshot (sabs (w_db w)) g"
    using pod.probe_ok [OF assms(1-4)] by simp_all
  show ?thesis
  proof (rule pod.materialize_cases [OF assms(1) p(4) assms(5)])
    fix e assume "res = Inl e" "w' = w" "e \<in> {deny (gu_agent g), AuxSubjectMissing, SlashPair}"
    then show ?thesis using p by auto
  next
    fix plan above r
    assume plan: "plan_ancestors g 0 (ancestors (target_subject (gu_target g))) (target_iri (gu_target g))
         (\<not> is_aux (gu_target g) \<and> \<not> target_exists g) = Inr (plan, above)"
      and run: "run_plan E plan w = (r, w')" "\<And>e. res = Inl e \<Longrightarrow> r = Inl e"
    have entry: "\<exists>k < length (ancestors (target_subject t)). c = ancestors (target_subject t) ! k \<and>
        (\<exists>d. decide_from g (Suc k) Append = Inr d)" if "(c, ch) \<in> set plan" for c ch
      using plan_ancestors_entry [OF plan that] p(3) by simp
    have http: "\<forall>c \<in> fst ` set plan. http_iri (container_iri c)"
      using entry ancestors_storage [OF assms(2,3)] storage_http [OF assms(2)]
      by (fastforce simp: container_iri_def)
    note grow = pod.run_plan_grows [OF assms(1) http run(1)]
    show ?thesis
    proof (intro conjI allI impI)
      show "w_blobs w' = w_blobs w" using grow by (simp add: pod.grows_at_def [OF assms(1)])
    next
      fix h assume "sabs (w_db w') h \<noteq> sabs (w_db w) h"
      with grow have "h \<in> container_iri ` fst ` set plan \<union> sys_graph_iri ` container_iri ` fst ` set plan"
        unfolding pod.grows_at_def [OF assms(1)] by blast
      then obtain c ch where c: "(c, ch) \<in> set plan" "h = container_iri c \<or> h = sys_graph_iri (container_iri c)"
        by auto
      from entry [OF c(1)] obtain k d where "k < length (ancestors (target_subject t))"
        "c = ancestors (target_subject t) ! k" "decide_from g (Suc k) Append = Inr d" by blast
      with c(2) show "\<exists>i d. 0 < i \<and> i < length (request_chain t) \<and> decide_from g i Append = Inr d \<and>
          h \<in> {r_iri (request_chain t ! i), sys_graph_iri (r_iri (request_chain t ! i))}"
        by (intro exI [of _ "Suc k"] exI [of _ d]) (auto simp: container_iri_def)
    next
      fix e assume "res = Inl e"
      with run(2) grow show "e \<in> {deny ag, AuxSubjectMissing, SlashPair} \<and> w' = w \<or> (\<exists>r. e = StoreDenied r)" by blast
    qed
  qed
qed

abbreviation ex_writer :: agent where "ex_writer \<equiv> WebId ''http://w/me''"

abbreviation ex_materialized :: "(mem_db, mem_bl) world" where
  "ex_materialized \<equiv> snd (materialize mem_env (ex_guard ex_writer) acl_world)"

lemma ex_guard_probe: "probe mem_env ag (Resource ex_url) acl_world = (Inr (ex_guard ag), acl_world)"
  using mem_pod.probe_ok [OF ex_space ex_target ex_probe] ex_probe by metis

lemma ex_materialize: "\<exists>m. materialize mem_env (ex_guard ex_writer) acl_world = (Inr m, ex_materialized)"
proof -
  have "\<not> isl (fst (materialize mem_env (ex_guard ex_writer) acl_world))" by code_simp
  then show ?thesis by (metis isl_def obj_sumE prod.collapse)
qed

theorem materialize_authorized_witness:
  "snd (materialize mem_env (ex_guard Public) acl_world) = acl_world"
proof -
  have "fst (materialize mem_env (ex_guard Public) acl_world) = Inl Unauthenticated" by code_simp
  with materialize_authorized [OF mem_pod.pod_axioms ex_space ex_target ex_guard_probe prod.collapse [symmetric], of Public]
  show ?thesis by simp
qed

text \<open>What the Turtle document of the root's list says.\<close>

definition owner_acl :: "iri \<Rightarrow> iri \<Rightarrow> iri \<Rightarrow> triple list" where
  "owner_acl subject owner root_iri = map (\<lambda>(p, x). mk_triple (NamedNode subject) p (TermNamed x))
     [(RDF_TYPE, ACL_AUTHORIZATION), (ACL_AGENT, owner), (ACL_ACCESS_TO, root_iri), (ACL_DEFAULT, root_iri),
      (ACL_MODE, ACL_READ), (ACL_MODE, ACL_WRITE), (ACL_MODE, ACL_CONTROL)]"

lemma owner_acl_quads: "triples_of (as_quads ts) = ts"
  by (induction ts) (simp_all add: triples_of_def as_quads_def)

lemma owner_acl_ground:
  "serialize_for_insert (skolemize mint (as_quads (owner_acl s ow r))) = owner_acl s ow r"
  by (simp add: owner_acl_def as_quads_def skolemize_def skolem_quad_def serialize_for_insert_def ground_triple_def
      split: prod.splits)

lemma owner_acl_version: "dataset_version (as_quads (owner_acl s ow r)) \<le> Rdf11"
  by (simp add: dataset_version_le owner_acl_def as_quads_def object_version_def)

lemma owner_acl_says:
  "acl_says (owner_acl s ow r) v p x \<longleftrightarrow> v = NamedNode s \<and>
     (p, x) \<in> {(RDF_TYPE, ACL_AUTHORIZATION), (ACL_AGENT, ow), (ACL_ACCESS_TO, r), (ACL_DEFAULT, r),
        (ACL_MODE, ACL_READ), (ACL_MODE, ACL_WRITE), (ACL_MODE, ACL_CONTROL)}"
  by (auto simp: acl_says_def owner_acl_def)

lemmas acl_vocabulary = ACL_AGENT_def ACL_AGENT_CLASS_def ACL_ACCESS_TO_def ACL_DEFAULT_def ACL_MODE_def
  ACL_READ_def ACL_WRITE_def ACL_APPEND_def ACL_CONTROL_def ACL_AUTHORIZATION_def RDF_TYPE_def

lemma owner_acl_grants:
  "grants (owner_acl s ow r) (WebId ow) r inh m \<longleftrightarrow> m \<noteq> Append"
  "\<not> grants (owner_acl s ow r) Public r inh m"
  by (cases m; simp add: grants_def owner_acl_says; simp add: acl_vocabulary)
     (simp add: grants_def owner_acl_says acl_vocabulary)

lemma owner_acl_decide:
  assumes "set acl = set (owner_acl s ow r)"
  shows "allows (decide acl (WebId ow) r inh) m \<and> \<not> allows (decide acl Public r inh) m"
  unfolding decide_set [OF assms] by (simp add: allows_decide owner_acl_grants)

lemma aux_put_size: "aux_put E a ts w = (Inl (TooLarge n), w') \<Longrightarrow> length ts > MAX_AUX_TRIPLES"
  by (rule ccontr) (auto simp: aux_put_def op_map_err_Inl elim!: op_bind_cases split: if_splits)

lemma aux_put_no_panic: "aux_put E a ts w \<noteq> (Inl (AuxResource Panicked), w')"
  by (auto simp: aux_put_def op_map_err_Inl st_update_def exists_op_def st_read_def w_skolemize_def Let_def map_err_def
      elim!: op_bind_cases split: if_splits prod.splits sum.splits)

lemma space_root_storage: "pod_space sp \<Longrightarrow> storage_url sp (as_resource (space_root sp))"
  by (simp add: space_root_def storage_url_def in_space_def) code_simp

lemma put_owner_acl:
  fixes sp owner
  defines "acl \<equiv> owner_acl (acl_iri (as_resource (space_root sp)) @ ''#owner'') owner (s_base sp)"
  assumes "pod E sabs babs" and "pod_space sp" and "presentG (sabs (w_db w)) (r_iri (as_resource (space_root sp)))"
    and "aux_put E (url_aux (as_resource (space_root sp)) Acl) acl w = (ar, w')"
  shows "sabs (w_db w') (acl_iri (as_resource (space_root sp))) = set acl \<and>
      presentG (sabs (w_db w')) (acl_iri (as_resource (space_root sp))) \<and> ar = Inr ()
    \<or> (\<exists>e. ar = Inl (AuxResource e) \<and> e \<noteq> Panicked)"
proof -
  have root: "storage_url sp (as_resource (space_root sp))" using assms(3) by (rule space_root_storage)
  have "length acl \<le> MAX_AUX_TRIPLES" by (simp add: acl_def owner_acl_def MAX_AUX_TRIPLES_def)
  then have "ar \<noteq> Inl (TooLarge n)" for n using aux_put_size assms(5) by fastforce
  moreover have "ar \<noteq> Inl (AuxResource Panicked)" using aux_put_no_panic assms(5) by metis
  ultimately show ?thesis
    using pod.aux_put_outcome [OF assms(2,3) root assms(5)] assms(4) aux_http [OF assms(3) root]
    by (auto simp: aux_put_exec owner_acl_ground presentG_def acl_def)
qed

text \<open>Provisioning makes a fresh pod its owner's and changes nothing on a provisioned one. If the
  root's list exists and no reset was asked for, nothing is written; otherwise success
  leaves a root list that allows the owner every mode at the root and below and the public
  none; and, reading Turtle as it is defined, it never hits one of its unreachable arms.\<close>

theorem provision_root_owner:
  assumes "pod E sabs babs" and "pod_space sp"
    and "parser Turtle (acl_iri (as_resource (space_root sp)))
        (owner_acl_turtle owner (container_iri (space_root sp))) =
      Inr (as_quads (owner_acl (acl_iri (as_resource (space_root sp)) @ ''#owner'') owner (s_base sp)))"
    and "provision_root_acl E parser sp owner reset w = (res, w')"
  shows "res \<noteq> Inl Panicked \<and>
    (presentG (sabs (w_db w)) (acl_iri (as_resource (space_root sp))) \<and> \<not> reset \<longrightarrow> w' = w) \<and>
    (res = Inr () \<and> (reset \<or> \<not> presentG (sabs (w_db w)) (acl_iri (as_resource (space_root sp)))) \<longrightarrow>
      presentG (sabs (w_db w')) (acl_iri (as_resource (space_root sp))) \<and>
      (\<forall>acl inherited m. set acl = sabs (w_db w') (acl_iri (as_resource (space_root sp))) \<longrightarrow>
         allows (decide acl (WebId owner) (s_base sp) inherited) m \<and>
         \<not> allows (decide acl Public (s_base sp) inherited) m))"
proof -
  let ?c = "space_root sp" and ?r = "as_resource (space_root sp)" and ?G = "sabs (w_db w)"
  let ?acl = "owner_acl (acl_iri ?r @ ''#owner'') owner (s_base sp)"
  have root: "storage_url sp ?r" using assms(2) by (rule space_root_storage)
  have http: "http_iri (container_iri ?c)" using storage_http [OF assms(2) root] by (simp add: container_iri_def)
  have parse: "format_parse parser Turtle (owner_acl_turtle owner (container_iri ?c)) (acl_iri ?r) Rdf11 = Inr (as_quads ?acl)"
    using assms(3) owner_acl_version by (simp add: format_parse_Inr)
  from assms(4) [unfolded provision_root_acl_def Let_def] show ?thesis
  proof (cases rule: op_bind_cases)
    case (err e)
    then show ?thesis using pod.exists_op_err [OF assms(1) err(1)] by auto
  next
    case (ok there w1)
    have there: "w1 = w" "there \<longleftrightarrow> presentG ?G (acl_iri ?r)"
      using pod.exists_op_ok [OF assms(1) ok(1)] by (auto simp: pod.present_def [OF assms(1)] presentG_def)
    show ?thesis
    proof (cases "there \<and> \<not> reset")
      case True
      with ok(2) there show ?thesis by auto
    next
      case False
      from ok(2) [unfolded if_not_P [OF False] there(1)] show ?thesis
      proof (cases rule: op_bind_cases)
        case (err e)
        have "e \<noteq> Panicked"
          using err(1) by (auto simp: ensure_container_def op_bind_res node_of_def insert_marked_def st_update_def
              split: if_splits sum.splits)
        with err False there show ?thesis by auto
      next
        case ens: (ok x w2)
        have pr: "presentG (sabs (w_db w2)) (r_iri ?r)"
          using pod.ensure_container_grows [OF assms(1) http ens(1)] by (simp add: container_iri_def)
        from ens(2) have "op_map_err (\<lambda>e. case e of AuxResource r \<Rightarrow> r | _ \<Rightarrow> Panicked) (aux_put E (url_aux ?r Acl) ?acl) w2 = (res, w')"
          by (simp add: op_bind_res parse owner_acl_quads)
        then obtain ar where ap: "aux_put E (url_aux ?r Acl) ?acl w2 = (ar, w')"
          and res: "res = map_err (\<lambda>e. case e of AuxResource r \<Rightarrow> r | _ \<Rightarrow> Panicked) ar"
          by (auto simp: op_map_err_def split: prod.splits)
        have "sabs (w_db w') (acl_iri ?r) = set ?acl \<and> presentG (sabs (w_db w')) (acl_iri ?r) \<and> res = Inr ()
            \<or> (\<exists>e. ar = Inl (AuxResource e) \<and> e \<noteq> Panicked)"
          using put_owner_acl [OF assms(1,2) pr ap] res by auto
        moreover have "(\<exists>e. ar = Inl (AuxResource e) \<and> e \<noteq> Panicked) \<Longrightarrow> res \<noteq> Inr () \<and> res \<noteq> Inl Panicked" using res by auto
        ultimately show ?thesis using False there owner_acl_decide by auto
      qed
    qed
  qed
qed

theorem provision_root_owner_witness:
  "\<not> allows (decide (mem_graph (w_db (snd (provision_root_acl mem_env
       (\<lambda>f base bytes. Inr (as_quads (owner_acl (base @ ''#owner'') ''http://w/me'' ''http://h/'')))
       \<lparr>s_base = ''http://h/''\<rparr> ''http://w/me'' False mem_world))) (acl_iri (as_resource (space_root \<lparr>s_base = ''http://h/''\<rparr>))))
     Public ''http://h/'' True) Read"
proof -
  let ?sp = "\<lparr>s_base = ''http://h/''\<rparr>"
  let ?parser = "\<lambda>f base bytes. Inr (as_quads (owner_acl (base @ ''#owner'') ''http://w/me'' ''http://h/''))"
  let ?w = "provision_root_acl mem_env ?parser ?sp ''http://w/me'' False mem_world"
  have w: "?w = (Inr (), snd ?w)"
  proof -
    have "fst ?w = Inr ()" by code_simp
    then show ?thesis by (simp add: prod_eq_iff)
  qed
  have absent: "\<not> presentG (mem_abs (w_db mem_world)) h" for h
    by (simp add: presentG_mem mem_world_def)
  have "?parser Turtle (acl_iri (as_resource (space_root ?sp))) (owner_acl_turtle ''http://w/me'' (container_iri (space_root ?sp))) =
      Inr (as_quads (owner_acl (acl_iri (as_resource (space_root ?sp)) @ ''#owner'') ''http://w/me'' (s_base ?sp)))" by simp
  from provision_root_owner [OF mem_pod.pod_axioms ex_space this w, THEN conjunct2, THEN conjunct2, THEN mp,
      THEN conjunct2, rule_format, OF conjI [OF refl disjI2 [OF absent]] set_mem_graph]
  show ?thesis by (simp only: storage_space.select_convs) blast
qed

end
