(* ===== verification/Fetch.thy ===== *)
theory Fetch
  imports Prelude "HOL-Library.Word"
begin

text \<open>
  The outbound fetcher, \<^verbatim>\<open>src/auth/safe_fetch.rs\<close>: classification of addresses, the
  operator's exception list, screening of resolved addresses and the guarded \<open>GET\<close>.
  Addresses are words of their width. \<open>Url::parse\<close>, the address parsers, the system
  resolver and the HTTP client are parameters; the client is a state transformer, so that
  "the network is not contacted" is a statement about its state.
\<close>

unbundle bit_operations_syntax

datatype auth_error =
    Malformed string
  | BadSignature
  | Expired
  | UnknownIssuer
  | DpopInvalid string
  | Binding
  | MissingKey
  | UnsupportedKeyType
  | FetchBlocked string
  | IssuerNotAuthorized
  | UntrustedIssuer
  | WrongAudience

section \<open>Addresses\<close>

type_synonym ipv4 = "32 word"
type_synonym ipv6 = "128 word"

datatype ip_addr = V4 ipv4 | V6 ipv6

definition octet :: "nat \<Rightarrow> ipv4 \<Rightarrow> 8 word" where
  "octet i a = ucast (drop_bit (8 * (3 - i)) a)"

definition segment :: "nat \<Rightarrow> ipv6 \<Rightarrow> 16 word" where
  "segment i a = ucast (drop_bit (16 * (7 - i)) a)"

text \<open>The classifications of the standard library the code uses.\<close>

definition v4_loopback :: "ipv4 \<Rightarrow> bool" where "v4_loopback a \<longleftrightarrow> octet 0 a = 127"
definition v4_unspecified :: "ipv4 \<Rightarrow> bool" where "v4_unspecified a \<longleftrightarrow> a = 0"
definition v4_private :: "ipv4 \<Rightarrow> bool" where
  "v4_private a \<longleftrightarrow> octet 0 a = 10
     \<or> octet 0 a = 172 \<and> 16 \<le> octet 1 a \<and> octet 1 a \<le> 31
     \<or> octet 0 a = 192 \<and> octet 1 a = 168"
definition v4_link_local :: "ipv4 \<Rightarrow> bool" where
  "v4_link_local a \<longleftrightarrow> octet 0 a = 169 \<and> octet 1 a = 254"
definition v6_loopback :: "ipv6 \<Rightarrow> bool" where "v6_loopback a \<longleftrightarrow> a = 1"
definition v6_unspecified :: "ipv6 \<Rightarrow> bool" where "v6_unspecified a \<longleftrightarrow> a = 0"

definition v4_of_octets :: "8 word \<Rightarrow> 8 word \<Rightarrow> 8 word \<Rightarrow> 8 word \<Rightarrow> ipv4" where
  "v4_of_octets a b c d =
     push_bit 24 (ucast a) OR push_bit 16 (ucast b) OR push_bit 8 (ucast c) OR ucast d"

definition v4_of_segments :: "16 word \<Rightarrow> 16 word \<Rightarrow> ipv4" where
  "v4_of_segments h l =
     v4_of_octets (ucast (drop_bit 8 h)) (ucast h) (ucast (drop_bit 8 l)) (ucast l)"

definition to_ipv4_mapped :: "ipv6 \<Rightarrow> ipv4 option" where
  "to_ipv4_mapped a =
     (if map (\<lambda>i. segment i a) [0..<6] = [0, 0, 0, 0, 0, 0xffff]
      then Some (v4_of_segments (segment 6 a) (segment 7 a)) else None)"

definition is_cgnat :: "ipv4 \<Rightarrow> bool" where
  "is_cgnat a \<longleftrightarrow> octet 0 a = 100 \<and> octet 1 a AND 0b11000000 = 0b01000000"

definition is_unique_local :: "ipv6 \<Rightarrow> bool" where
  "is_unique_local a \<longleftrightarrow> segment 0 a AND 0xfe00 = 0xfc00"

definition is_link_local_v6 :: "ipv6 \<Rightarrow> bool" where
  "is_link_local_v6 a \<longleftrightarrow> segment 0 a AND 0xffc0 = 0xfe80"

definition forbidden_v4 :: "ipv4 \<Rightarrow> bool" where
  "forbidden_v4 a \<longleftrightarrow> v4_loopback a \<or> v4_unspecified a \<or> v4_private a \<or> v4_link_local a \<or> is_cgnat a"

definition is_forbidden_ip :: "ip_addr \<Rightarrow> bool" where
  "is_forbidden_ip ip =
     (case ip of
        V4 a \<Rightarrow> forbidden_v4 a
      | V6 a \<Rightarrow>
          (case to_ipv4_mapped a of
             Some v4 \<Rightarrow> forbidden_v4 v4
           | None \<Rightarrow>
               if map (\<lambda>i. segment i a) [0..<6] = [0, 0, 0, 0, 0, 0] \<and> \<not> (v6_loopback a \<or> v6_unspecified a)
               then forbidden_v4 (v4_of_segments (segment 6 a) (segment 7 a))
               else v6_loopback a \<or> v6_unspecified a \<or> is_unique_local a \<or> is_link_local_v6 a))"

section \<open>Words as numbers\<close>

lemma take_bit_unat: "take_bit LENGTH('a) (unat (w :: 'a::len word)) = unat w"
  by (rule take_bit_nat_eq_self) (rule unsigned_less)

lemma unat_bound_v4: "unat (a :: ipv4) < 4294967296" and unat_bound_v6: "unat (b :: ipv6) < 340282366920938463463374607431768211456"
  using unsigned_less [of a, where ?'a = nat] unsigned_less [of b, where ?'a = nat] by simp_all

lemma unat_octet: "unat (octet i a) = unat a div 2 ^ (8 * (3 - i)) mod 256"
proof -
  have "unat (octet i a) = take_bit 8 (drop_bit (8 * (3 - i)) (unat a))"
    using take_bit_unat [of a] by (simp add: octet_def unsigned_ucast_eq unsigned_drop_bit_eq)
  then show ?thesis by (simp add: take_bit_eq_mod drop_bit_eq_div)
qed

lemma unat_segment: "unat (segment i a) = unat a div 2 ^ (16 * (7 - i)) mod 65536"
proof -
  have "unat (segment i a) = take_bit 16 (drop_bit (16 * (7 - i)) (unat a))"
    using take_bit_unat [of a] by (simp add: segment_def unsigned_ucast_eq unsigned_drop_bit_eq)
  then show ?thesis by (simp add: take_bit_eq_mod drop_bit_eq_div)
qed

lemma octet_eq_iff: "octet i a = b \<longleftrightarrow> unat a div 2 ^ (8 * (3 - i)) mod 256 = unat b"
  by (simp add: unat_octet [symmetric] unsigned_word_eqI word_unat_eq_iff)

lemma segment_eq_iff: "segment i a = b \<longleftrightarrow> unat a div 2 ^ (16 * (7 - i)) mod 65536 = unat b"
  by (simp add: unat_segment [symmetric] word_unat_eq_iff)

text \<open>The ranges as intervals of the address space.\<close>

definition in_range :: "'a::len word \<Rightarrow> nat \<Rightarrow> nat \<Rightarrow> bool" where
  "in_range a lo hi \<longleftrightarrow> lo \<le> unat a \<and> unat a \<le> hi"

text \<open>The bits a mask keeps, as a division.\<close>

lemma and_not_mask: "a AND NOT (mask k) = push_bit k (drop_bit k a)" for a :: "'a::len word"
  by (rule bit_word_eqI) (auto simp: bit_simps)

lemma unat_high_bits: "unat (a AND NOT (mask k)) = unat a div 2 ^ k * 2 ^ k" for a :: "'a::len word"
proof -
  have "unat (push_bit k (drop_bit k a)) = take_bit LENGTH('a) (push_bit k (drop_bit k (unat a)))"
    by (simp add: unsigned_push_bit_eq unsigned_drop_bit_eq take_bit_unat)
  also have "push_bit k (drop_bit k (unat a)) = unat a div 2 ^ k * 2 ^ k"
    by (simp add: push_bit_eq_mult drop_bit_eq_div)
  also have "take_bit LENGTH('a) (unat a div 2 ^ k * 2 ^ k) = unat a div 2 ^ k * 2 ^ k"
    using unsigned_less [of a, where ?'a = nat] by (intro take_bit_nat_eq_self) (rule le_less_trans [OF div_times_less_eq_dividend])
  finally show ?thesis by (simp add: and_not_mask)
qed

lemma masked_eq_iff:
  assumes "m = NOT (mask k :: 'a::len word)"
  shows "a AND m = b \<longleftrightarrow> unat a div 2 ^ k * 2 ^ k = unat b"
  using unat_high_bits [of a k] by (simp add: assms word_unat_eq_iff)

lemma v4_split:
  "unat a = 16777216 * unat (octet 0 a) + 65536 * unat (octet 1 a) + unat a mod 65536"
proof -
  let ?n = "unat a"
  have n: "?n < 4294967296" by (rule unat_bound_v4)
  have "?n = 65536 * (?n div 65536) + ?n mod 65536" by simp
  moreover have "?n div 65536 = 256 * (?n div 65536 div 256) + ?n div 65536 mod 256" by simp
  moreover have "?n div 65536 div 256 = ?n div 16777216" by (simp add: div_mult2_eq [symmetric])
  moreover have "unat (octet 0 a) = ?n div 16777216" "unat (octet 1 a) = ?n div 65536 mod 256"
    using n by (simp_all add: unat_octet)
  ultimately show ?thesis by linarith
qed

lemma octet_bound: "unat (octet i a) < 256"
  using unsigned_less [of "octet i a", where ?'a = nat] by simp

text \<open>Comparing an address with a bound is comparing its leading octets.\<close>

lemma lexi_le:
  fixes p q u r s :: nat
  assumes "r < 256" "u < 256" "s < 65536"
  shows "16777216 * p + 65536 * u \<le> 16777216 * q + 65536 * r + s \<longleftrightarrow> p < q \<or> p = q \<and> u \<le> r"
proof (cases p q rule: linorder_cases)
  case less
  then have "16777216 * (p + 1) \<le> 16777216 * q" by simp
  with less assms show ?thesis by linarith
next
  case greater
  then have "16777216 * (q + 1) \<le> 16777216 * p" by simp
  with greater assms show ?thesis by linarith
next
  case equal
  then have "16777216 * p + 65536 * u \<le> 16777216 * q + 65536 * r + s \<longleftrightarrow> 65536 * u \<le> 65536 * r + s" by simp
  also have "\<dots> \<longleftrightarrow> u \<le> r"
  proof
    assume le: "65536 * u \<le> 65536 * r + s"
    show "u \<le> r"
    proof (rule ccontr)
      assume "\<not> u \<le> r"
      then have "65536 * (r + 1) \<le> 65536 * u" by simp
      with le assms(3) show False by simp
    qed
  qed simp
  finally show ?thesis using equal by simp
qed

lemma lexi_ge:
  fixes p q u r s :: nat
  assumes "r < 256" "u < 256" "s < 65536"
  shows "16777216 * q + 65536 * r + s \<le> 16777216 * p + 65536 * u + 65535 \<longleftrightarrow> q < p \<or> q = p \<and> r \<le> u"
proof -
  have "16777216 * q + 65536 * r + s \<le> 16777216 * p + 65536 * u + 65535 \<longleftrightarrow>
      16777216 * q + 65536 * r \<le> 16777216 * p + 65536 * u + 0"
  proof
    assume "16777216 * q + 65536 * r + s \<le> 16777216 * p + 65536 * u + 65535"
    then have "65536 * (256 * q + r) < 65536 * (256 * p + u + 1)" by simp
    then have "256 * q + r < 256 * p + u + 1" by (simp only: mult_less_cancel1)
    then show "16777216 * q + 65536 * r \<le> 16777216 * p + 65536 * u + 0" by simp
  qed (use assms in simp)
  also have "\<dots> \<longleftrightarrow> q < p \<or> q = p \<and> r \<le> u" by (rule lexi_le) (use assms in simp_all)
  finally show ?thesis .
qed

lemma in_range_octets:
  assumes "u < 256" "v < 256"
  shows "in_range a (16777216 * p + 65536 * u) (16777216 * q + 65536 * v + 65535) \<longleftrightarrow>
    (p < unat (octet 0 a) \<or> p = unat (octet 0 a) \<and> u \<le> unat (octet 1 a)) \<and>
    (unat (octet 0 a) < q \<or> unat (octet 0 a) = q \<and> unat (octet 1 a) \<le> v)"
proof -
  have s: "unat a mod 65536 < 65536" by simp
  show ?thesis
    unfolding in_range_def
    using lexi_le [OF octet_bound [of 1 a] assms(1) s, of p "unat (octet 0 a)", folded v4_split]
      lexi_ge [OF octet_bound [of 1 a] assms(2) s, of "unat (octet 0 a)" q, folded v4_split]
    by metis
qed

lemma v4_loopback_range: "v4_loopback a \<longleftrightarrow> in_range a 0x7F000000 0x7FFFFFFF"
  using in_range_octets [of 0 255 a 127 127] octet_bound [of 1 a]
  by (auto simp: v4_loopback_def word_unat_eq_iff)

lemma v4_link_local_range: "v4_link_local a \<longleftrightarrow> in_range a 0xA9FE0000 0xA9FEFFFF"
  using in_range_octets [of 254 254 a 169 169]
  by (auto simp: v4_link_local_def word_unat_eq_iff)

lemma v4_private_range:
  "v4_private a \<longleftrightarrow> in_range a 0x0A000000 0x0AFFFFFF \<or> in_range a 0xAC100000 0xAC1FFFFF \<or> in_range a 0xC0A80000 0xC0A8FFFF"
proof -
  have "octet 0 a = 10 \<longleftrightarrow> in_range a 0x0A000000 0x0AFFFFFF"
    using in_range_octets [of 0 255 a 10 10] octet_bound [of 1 a] by (auto simp: word_unat_eq_iff)
  moreover have "octet 0 a = 172 \<and> 16 \<le> octet 1 a \<and> octet 1 a \<le> 31 \<longleftrightarrow> in_range a 0xAC100000 0xAC1FFFFF"
    using in_range_octets [of 16 31 a 172 172] by (auto simp: word_unat_eq_iff word_le_nat_alt)
  moreover have "octet 0 a = 192 \<and> octet 1 a = 168 \<longleftrightarrow> in_range a 0xC0A80000 0xC0A8FFFF"
    using in_range_octets [of 168 168 a 192 192] by (auto simp: word_unat_eq_iff)
  ultimately show ?thesis by (simp only: v4_private_def)
qed

lemma is_cgnat_range: "is_cgnat a \<longleftrightarrow> in_range a 0x64400000 0x647FFFFF"
proof -
  have "octet 1 a AND 0b11000000 = 0b01000000 \<longleftrightarrow> unat (octet 1 a) div 2 ^ 6 * 2 ^ 6 = unat (0b01000000 :: 8 word)"
    by (rule masked_eq_iff) (simp add: mask_eq_exp_minus_1)
  also have "\<dots> \<longleftrightarrow> unat (octet 1 a) div 64 = 1" by auto
  also have "\<dots> \<longleftrightarrow> 64 \<le> unat (octet 1 a) \<and> unat (octet 1 a) \<le> 127" by linarith
  finally show ?thesis
    using in_range_octets [of 64 127 a 100 100] by (auto simp: is_cgnat_def word_unat_eq_iff)
qed

text \<open>The forbidden part of the IPv4 space: this network, the private blocks, the carrier-grade
  NAT block, loopback and link-local.\<close>

definition forbidden_v4_range :: "ipv4 \<Rightarrow> bool" where
  "forbidden_v4_range a \<longleftrightarrow> in_range a 0 0 \<or> in_range a 0x0A000000 0x0AFFFFFF \<or> in_range a 0x64400000 0x647FFFFF
     \<or> in_range a 0x7F000000 0x7FFFFFFF \<or> in_range a 0xA9FE0000 0xA9FEFFFF \<or> in_range a 0xAC100000 0xAC1FFFFF
     \<or> in_range a 0xC0A80000 0xC0A8FFFF"

lemma forbidden_v4_ranges: "forbidden_v4 a \<longleftrightarrow> forbidden_v4_range a"
proof -
  have "v4_unspecified a \<longleftrightarrow> in_range a 0 0" by (simp add: v4_unspecified_def in_range_def unat_eq_0)
  then show ?thesis
    unfolding forbidden_v4_def forbidden_v4_range_def v4_loopback_range v4_private_range v4_link_local_range is_cgnat_range
    by blast
qed

lemma low_segments: "v4_of_segments (segment 6 a) (segment 7 a) = ucast a"
  by (rule bit_word_eqI)
     (auto simp: v4_of_segments_def v4_of_octets_def segment_def bit_simps)

text \<open>The leading six segments are the digits of the top 96 bits.\<close>

lemma top_digits:
  fixes a :: ipv6
  defines "t \<equiv> unat a div 4294967296"
  shows "t = 65536 * (65536 * (65536 * (65536 * (65536 * unat (segment 0 a) + unat (segment 1 a))
    + unat (segment 2 a)) + unat (segment 3 a)) + unat (segment 4 a)) + unat (segment 5 a)"
proof -
  have bound: "unat a < 340282366920938463463374607431768211456" by (rule unat_bound_v6)
  define t1 where "t1 = t div 65536"
  define t2 where "t2 = t1 div 65536"
  define t3 where "t3 = t2 div 65536"
  define t4 where "t4 = t3 div 65536"
  define t5 where "t5 = t4 div 65536"
  have "unat (segment 5 a) = t mod 65536" by (simp add: unat_segment t_def)
  moreover have "unat (segment 4 a) = t1 mod 65536" by (simp add: unat_segment t1_def t_def div_mult2_eq [symmetric])
  moreover have "unat (segment 3 a) = t2 mod 65536" by (simp add: unat_segment t2_def t1_def t_def div_mult2_eq [symmetric])
  moreover have "unat (segment 2 a) = t3 mod 65536" by (simp add: unat_segment t3_def t2_def t1_def t_def div_mult2_eq [symmetric])
  moreover have "unat (segment 1 a) = t4 mod 65536" by (simp add: unat_segment t4_def t3_def t2_def t1_def t_def div_mult2_eq [symmetric])
  moreover have "unat (segment 0 a) = t5"
    using bound by (simp add: unat_segment t5_def t4_def t3_def t2_def t1_def t_def div_mult2_eq [symmetric])
  moreover have "t = 65536 * t1 + t mod 65536" "t1 = 65536 * t2 + t1 mod 65536" "t2 = 65536 * t3 + t2 mod 65536"
    "t3 = 65536 * t4 + t3 mod 65536" "t4 = 65536 * t5 + t4 mod 65536"
    by (simp_all add: t1_def t2_def t3_def t4_def t5_def)
  ultimately show ?thesis by metis
qed

lemma segment_bound: "unat (segment i a) < 65536"
  using unsigned_less [of "segment i a", where ?'a = nat] by simp

lemma segments_upto: "map (\<lambda>i. segment i a) [0..<6] =
    [segment 0 a, segment 1 a, segment 2 a, segment 3 a, segment 4 a, segment 5 a]"
  by (simp add: upt_rec numeral_nat)

lemma compatible_iff: "map (\<lambda>i. segment i a) [0..<6] = [0, 0, 0, 0, 0, 0] \<longleftrightarrow> unat a div 4294967296 = 0"
  unfolding segments_upto top_digits by (auto simp: unat_eq_0)

lemma last_digit: "65536 * y + s = 65535 \<Longrightarrow> y = 0 \<and> s = 65535" for y s :: nat
  by (cases y) simp_all

lemma mapped_iff: "map (\<lambda>i. segment i a) [0..<6] = [0, 0, 0, 0, 0, 0xffff] \<longleftrightarrow> unat a div 4294967296 = 0xffff"
proof
  assume "unat a div 4294967296 = 0xffff"
  then have "65536 * (65536 * (65536 * (65536 * (65536 * unat (segment 0 a) + unat (segment 1 a))
      + unat (segment 2 a)) + unat (segment 3 a)) + unat (segment 4 a)) + unat (segment 5 a) = 0xffff"
    using top_digits [of a] by metis
  from last_digit [OF this] have "unat (segment 0 a) = 0 \<and> unat (segment 1 a) = 0 \<and> unat (segment 2 a) = 0 \<and>
      unat (segment 3 a) = 0 \<and> unat (segment 4 a) = 0 \<and> unat (segment 5 a) = 0xffff"
    by simp
  then show "map (\<lambda>i. segment i a) [0..<6] = [0, 0, 0, 0, 0, 0xffff]"
    unfolding segments_upto by (simp add: unat_eq_0 word_unat_eq_iff [of "segment 5 a"])
qed (simp only: segments_upto top_digits list.inject, simp)

lemma segment0: "unat (segment 0 a) = unat a div 5192296858534827628530496329220096"
  using unat_bound_v6 [of a] by (simp add: unat_segment)

lemma is_unique_local_range:
  "is_unique_local a \<longleftrightarrow> in_range a 0xfc000000000000000000000000000000 0xfdffffffffffffffffffffffffffffff"
proof -
  have "is_unique_local a \<longleftrightarrow> unat (segment 0 a) div 2 ^ 9 * 2 ^ 9 = unat (0xfc00 :: 16 word)"
    unfolding is_unique_local_def by (rule masked_eq_iff) (simp add: mask_eq_exp_minus_1)
  also have "\<dots> \<longleftrightarrow> unat (segment 0 a) div 512 = 126" by auto
  also have "\<dots> \<longleftrightarrow> 0xfc00 \<le> unat (segment 0 a) \<and> unat (segment 0 a) < 0xfe00" by linarith
  finally show ?thesis
    unfolding segment0 in_range_def
    by (simp add: less_eq_div_iff_mult_less_eq div_less_iff_less_mult) linarith
qed

lemma is_link_local_v6_range:
  "is_link_local_v6 a \<longleftrightarrow> in_range a 0xfe800000000000000000000000000000 0xfebfffffffffffffffffffffffffffff"
proof -
  have "is_link_local_v6 a \<longleftrightarrow> unat (segment 0 a) div 2 ^ 6 * 2 ^ 6 = unat (0xfe80 :: 16 word)"
    unfolding is_link_local_v6_def by (rule masked_eq_iff) (simp add: mask_eq_exp_minus_1)
  also have "\<dots> \<longleftrightarrow> unat (segment 0 a) div 64 = 1018" by auto
  also have "\<dots> \<longleftrightarrow> 0xfe80 \<le> unat (segment 0 a) \<and> unat (segment 0 a) < 0xfec0" by linarith
  finally show ?thesis
    unfolding segment0 in_range_def
    by (simp add: less_eq_div_iff_mult_less_eq div_less_iff_less_mult) linarith
qed

text \<open>C36: An address is refused exactly when it lies in one of the documented ranges: the seven
  IPv4 blocks; for IPv6, loopback, unspecified, \<open>fc00::/7\<close> and \<open>fe80::/10\<close>; and an
  IPv4-mapped or IPv4-compatible address exactly when the IPv4 address it embeds is.\<close>

theorem forbidden_ip_ranges:
  "(is_forbidden_ip (V4 a) \<longleftrightarrow> forbidden_v4_range a) \<and>
   (is_forbidden_ip (V6 b) \<longleftrightarrow>
     (if unat b div 2 ^ 32 = 0xffff \<or> unat b div 2 ^ 32 = 0 \<and> 1 < unat b then forbidden_v4_range (ucast b)
      else unat b \<le> 1
        \<or> in_range b 0xfc000000000000000000000000000000 0xfdffffffffffffffffffffffffffffff
        \<or> in_range b 0xfe800000000000000000000000000000 0xfebfffffffffffffffffffffffffffff))"
proof -
  have "v6_loopback b \<or> v6_unspecified b \<longleftrightarrow> unat b \<le> 1"
  proof -
    have "b = 0 \<longleftrightarrow> unat b = 0" "b = 1 \<longleftrightarrow> unat b = 1" by (simp_all add: unat_eq_0 word_unat_eq_iff [of b 1])
    then show ?thesis unfolding v6_loopback_def v6_unspecified_def by linarith
  qed
  then have v6: "is_forbidden_ip (V6 b) \<longleftrightarrow>
      (if unat b div 4294967296 = 0xffff then forbidden_v4_range (ucast b)
       else if unat b div 4294967296 = 0 \<and> \<not> unat b \<le> 1 then forbidden_v4_range (ucast b)
       else unat b \<le> 1
        \<or> in_range b 0xfc000000000000000000000000000000 0xfdffffffffffffffffffffffffffffff
        \<or> in_range b 0xfe800000000000000000000000000000 0xfebfffffffffffffffffffffffffffff)"
    unfolding is_forbidden_ip_def to_ipv4_mapped_def compatible_iff mapped_iff low_segments
      forbidden_v4_ranges is_unique_local_range is_link_local_v6_range
    by (simp split: if_splits) blast
  have "(2 :: nat) ^ 32 = 4294967296" by simp
  then show ?thesis unfolding v6
    by (simp add: is_forbidden_ip_def forbidden_v4_ranges not_le del: power_numeral)
qed

section \<open>The fetch policy\<close>

text \<open>A parsed URL: what the accessors of \<open>url::Url\<close> return; \<open>u_port\<close> is
  \<open>port_or_known_default\<close>.\<close>

record url =
  u_scheme :: string
  u_host :: "string option"
  u_port :: "nat option"
  u_path :: string
  u_username :: string
  u_password :: "string option"
  u_query :: "string option"
  u_fragment :: "string option"

record response =
  rs_status :: nat
  rs_content_type :: "string option"
  rs_length :: "nat option"
  rs_chunks :: "(string + string) list"

datatype resolve_error = LookupFailed string | Screened auth_error

text \<open>
  The network: parsers, the system resolver and the HTTP client. The client is built with a
  resolver of the program's own, so \<open>n_send\<close> receives it.
\<close>

record 'n network =
  n_url :: "string \<Rightarrow> string + url"
  n_ip :: "string \<Rightarrow> ip_addr option"
  n_utf8 :: "string \<Rightarrow> bool"
  n_lookup :: "'n \<Rightarrow> string \<Rightarrow> nat \<Rightarrow> (string + ip_addr list) \<times> 'n"
  n_send :: "('n \<Rightarrow> string \<Rightarrow> (resolve_error + ip_addr list) \<times> 'n) \<Rightarrow> 'n \<Rightarrow> url \<Rightarrow> string \<Rightarrow>
     (string + response) \<times> 'n"

definition MAX_BODY_BYTES :: nat where "MAX_BODY_BYTES = 1024 * 1024"

record fetch_policy =
  allow_http :: bool
  allow_private_ips :: bool
  insecure_hosts :: "(string \<times> nat option) set"

definition permits_insecure :: "fetch_policy \<Rightarrow> string \<Rightarrow> nat \<Rightarrow> bool" where
  "permits_insecure pol host port \<longleftrightarrow> (host, None) \<in> insecure_hosts pol \<or> (host, Some port) \<in> insecure_hosts pol"

definition permits_insecure_host :: "fetch_policy \<Rightarrow> string \<Rightarrow> bool" where
  "permits_insecure_host pol host \<longleftrightarrow> host \<in> fst ` insecure_hosts pol"

text \<open>\<open>str::parse::<u16>\<close>: digits, an optional leading plus sign, no overflow.\<close>

fun digits_value :: "nat \<Rightarrow> string \<Rightarrow> nat option" where
  "digits_value acc [] = Some acc"
| "digits_value acc (c # cs) =
     (if 48 \<le> (of_char c :: nat) \<and> (of_char c :: nat) \<le> 57
      then digits_value (10 * acc + (of_char c - 48)) cs else None)"

definition parse_u16 :: "string \<Rightarrow> nat option" where
  "parse_u16 s =
     (let ds = (case strip_prefix ''+'' s of Some r \<Rightarrow> r | None \<Rightarrow> s) in
      if ds = [] then None
      else case digits_value 0 ds of
        Some n \<Rightarrow> if n < 65536 then Some n else None
      | None \<Rightarrow> None)"

definition is_ipv6_text :: "'n network \<Rightarrow> string \<Rightarrow> bool" where
  "is_ipv6_text N s = (case n_ip N s of Some (V6 _) \<Rightarrow> True | _ \<Rightarrow> False)"

definition insecure_authority :: "'n network \<Rightarrow> string \<Rightarrow> (string \<times> nat option) option" where
  "insecure_authority N entry =
     (case strip_prefix ''['' entry of
        Some rest \<Rightarrow>
          (case split_once (CHR '']'') rest of
             None \<Rightarrow> None
           | Some (_, tail) \<Rightarrow>
               if tail = [] then Some (entry, None)
               else (case strip_prefix '':'' tail of
                  None \<Rightarrow> None
                | Some p \<Rightarrow> (case parse_u16 p of None \<Rightarrow> None | Some port \<Rightarrow> Some (entry, Some port))))
      | None \<Rightarrow>
          if is_ipv6_text N entry then Some (''['' @ entry @ '']'', None)
          else (case rfind (CHR '':'') entry of
             Some i \<Rightarrow> (case parse_u16 (drop (Suc i) entry) of None \<Rightarrow> None | Some port \<Rightarrow> Some (entry, Some port))
           | None \<Rightarrow> Some (entry, None)))"

definition ambiguous_ipv6 :: "'n network \<Rightarrow> string \<Rightarrow> bool" where
  "ambiguous_ipv6 N entry \<longleftrightarrow> is_ipv6_text N entry \<and>
     (case rfind (CHR '':'') entry of
        None \<Rightarrow> False
      | Some i \<Rightarrow> is_ipv6_text N (take i entry) \<and> parse_u16 (drop (Suc i) entry) \<noteq> None)"

definition parse_insecure_host_entry :: "'n network \<Rightarrow> string \<Rightarrow> (string \<times> nat option) option" where
  "parse_insecure_host_entry N entry0 =
     (let entry = trim entry0 in
      if entry = [] then None
      else if ambiguous_ipv6 N entry then None
      else case insecure_authority N entry of
        None \<Rightarrow> None
      | Some (authority, port) \<Rightarrow>
          (case n_url N (''http://'' @ authority @ ''/'') of
             Inl _ \<Rightarrow> None
           | Inr u \<Rightarrow>
               if u_path u \<noteq> ''/'' \<or> u_username u \<noteq> [] \<or> u_password u \<noteq> None \<or> u_query u \<noteq> None \<or> u_fragment u \<noteq> None
               then None
               else (case u_host u of None \<Rightarrow> None | Some host \<Rightarrow> Some (host, port))))"

definition try_with_insecure_hosts :: "'n network \<Rightarrow> string list \<Rightarrow> fetch_policy \<times> string list" where
  "try_with_insecure_hosts N hosts =
     (\<lparr>allow_http = False, allow_private_ips = False,
       insecure_hosts = set (List.map_filter (parse_insecure_host_entry N) hosts)\<rparr>,
      filter (\<lambda>e. parse_insecure_host_entry N e = None) hosts)"

definition with_insecure_hosts :: "'n network \<Rightarrow> string list \<Rightarrow> fetch_policy" where
  "with_insecure_hosts N hosts = fst (try_with_insecure_hosts N hosts)"

section \<open>Resolution and the guarded fetch\<close>

definition screen_addresses :: "ip_addr list \<Rightarrow> bool \<Rightarrow> auth_error + ip_addr list" where
  "screen_addresses resolved allow_private =
     (if resolved = [] then Inl (FetchBlocked ''host resolved to no addresses'')
      else if \<not> allow_private \<and> list_ex is_forbidden_ip resolved
      then Inl (FetchBlocked ''target resolves to a forbidden (private/loopback/link-local) IP'')
      else Inr resolved)"

definition resolve_allowed ::
  "'n network \<Rightarrow> fetch_policy \<Rightarrow> string \<Rightarrow> nat \<Rightarrow> ('n, auth_error, ip_addr list) op" where
  "resolve_allowed N pol host port =
     op_bind
       (case n_ip N (trim_end_matches (CHR '']'') (trim_start_matches (CHR ''['') host)) of
          Some ip \<Rightarrow> op_ok [ip]
        | None \<Rightarrow> op_map_err (\<lambda>e. FetchBlocked (''DNS resolution failed: '' @ e)) (\<lambda>n. n_lookup N n host port))
       (\<lambda>resolved. op_res (screen_addresses resolved (allow_private_ips pol \<or> permits_insecure pol host port)))"

definition policy_resolve ::
  "'n network \<Rightarrow> fetch_policy \<Rightarrow> 'n \<Rightarrow> string \<Rightarrow> (resolve_error + ip_addr list) \<times> 'n" where
  "policy_resolve N pol n host =
     op_bind (op_map_err LookupFailed (\<lambda>n. n_lookup N n host 0)) (\<lambda>resolved.
       op_res (map_err Screened (screen_addresses resolved (allow_private_ips pol \<or> permits_insecure_host pol host)))) n"

fun read_body :: "string \<Rightarrow> (string + string) list \<Rightarrow> auth_error + string" where
  "read_body buf [] = Inr buf"
| "read_body buf (Inl e # cs) = Inl (FetchBlocked (''failed to read body: '' @ e))"
| "read_body buf (Inr chunk # cs) =
     (if length buf + length chunk > MAX_BODY_BYTES then Inl (FetchBlocked ''response exceeds size cap'')
      else read_body (buf @ chunk) cs)"

definition read_response :: "'n network \<Rightarrow> response \<Rightarrow> auth_error + (string \<times> string option)" where
  "read_response N rs =
     (if \<not> (200 \<le> rs_status rs \<and> rs_status rs < 300) then Inl (FetchBlocked ''non-success status'')
      else if (case rs_length rs of Some len \<Rightarrow> len > MAX_BODY_BYTES | None \<Rightarrow> False)
      then Inl (FetchBlocked ''response exceeds size cap'')
      else res_bind (read_body [] (rs_chunks rs)) (\<lambda>body.
        if n_utf8 N body then Inr (body, rs_content_type rs)
        else Inl (FetchBlocked ''response was not valid UTF-8'')))"

definition guarded_get ::
  "'n network \<Rightarrow> fetch_policy \<Rightarrow> string \<Rightarrow> string \<Rightarrow> ('n, auth_error, string \<times> string option) op" where
  "guarded_get N pol url accept =
     op_bind (op_res (map_err (\<lambda>e. FetchBlocked (''invalid URL: '' @ e)) (n_url N url))) (\<lambda>parsed.
     op_bind (op_res (ok_or (FetchBlocked ''URL has no host'') (u_host parsed))) (\<lambda>host.
     op_bind (op_res (ok_or (FetchBlocked ''URL has no port'') (u_port parsed))) (\<lambda>port.
       if u_scheme parsed = ''https''
          \<or> u_scheme parsed = ''http'' \<and> (allow_http pol \<or> permits_insecure pol host port)
       then op_bind (resolve_allowed N pol host port) (\<lambda>_.
            op_bind (op_map_err (\<lambda>e. FetchBlocked (''request failed: '' @ e))
                (\<lambda>n. n_send N (policy_resolve N pol) n parsed accept)) (\<lambda>rs.
              op_res (read_response N rs)))
       else op_err (FetchBlocked (''refusing non-https scheme: '' @ u_scheme parsed)))))"

lemma screen_addresses_Inr:
  "screen_addresses as b = Inr bs \<longleftrightarrow> bs = as \<and> as \<noteq> [] \<and> (b \<or> (\<forall>a \<in> set as. \<not> is_forbidden_ip a))"
  by (auto simp: screen_addresses_def list_ex_iff)

lemma read_body_bound:
  "read_body buf cs = Inr body \<Longrightarrow> length buf \<le> MAX_BODY_BYTES \<Longrightarrow> length body \<le> MAX_BODY_BYTES"
  by (induction buf cs rule: read_body.induct) (auto split: if_splits)

text \<open>The resolver handed to the client: no forbidden address leaves it for a host the operator
  did not name.\<close>

lemma policy_resolve_public:
  assumes "policy_resolve N pol n host = (Inr as, n')" "\<not> allow_private_ips pol" "\<not> permits_insecure_host pol host"
  shows "as \<noteq> [] \<and> (\<forall>a \<in> set as. \<not> is_forbidden_ip a)"
  using assms unfolding policy_resolve_def
  by (auto simp: screen_addresses_Inr op_res_def elim!: op_bind_InrE)

lemma resolve_allowed_Inr:
  assumes "resolve_allowed N pol host port n = (Inr as, n')"
  shows "as \<noteq> [] \<and> (allow_private_ips pol \<or> permits_insecure pol host port \<or> (\<forall>a \<in> set as. \<not> is_forbidden_ip a))"
  using assms unfolding resolve_allowed_def
  by (auto simp: screen_addresses_Inr op_res_def elim!: op_bind_InrE)

lemma resolve_allowed_state:
  "resolve_allowed N pol host port n = (r, n1) \<Longrightarrow> n1 = n \<or> (\<exists>host port. n1 = snd (n_lookup N n host port))"
  unfolding resolve_allowed_def
  by (auto simp: op_res_def op_map_err_def split: option.splits prod.splits elim!: op_bind_cases) (metis snd_conv)+

text \<open>A request is refused before anything is looked up, or its URL passed the checks on its scheme.\<close>

lemma guarded_get_cases:
  assumes "guarded_get N pol url accept n = (res, n')" and "\<not> allow_http pol"
  obtains (refused) e where "res = Inl e" "n' = n"
    | (admitted) u host port where "n_url N url = Inr u" "u_host u = Some host" "u_port u = Some port"
      "u_scheme u = ''https'' \<or> u_scheme u = ''http'' \<and> permits_insecure pol host port"
      "op_bind (resolve_allowed N pol host port) (\<lambda>_.
         op_bind (op_map_err (\<lambda>e. FetchBlocked (''request failed: '' @ e)) (\<lambda>n. n_send N (policy_resolve N pol) n u accept))
           (\<lambda>rs. op_res (read_response N rs))) n = (res, n')"
proof (cases "n_url N url")
  case (Inl e)
  with assms show thesis by (intro refused) (auto simp: guarded_get_def op_bind_def)
next
  case url: (Inr u)
  show thesis
  proof (cases "u_host u = None \<or> u_port u = None")
    case True
    with assms url have "\<exists>e. res = Inl e \<and> n' = n" by (auto simp: guarded_get_def op_bind_def ok_or_def split: option.splits)
    with refused show thesis by blast
  next
    case False
    then obtain host port where hp: "u_host u = Some host" "u_port u = Some port" by auto
    show thesis
    proof (cases "u_scheme u = ''https'' \<or> u_scheme u = ''http'' \<and> permits_insecure pol host port")
      case False
      with assms url hp have "\<exists>e. res = Inl e \<and> n' = n" by (auto simp: guarded_get_def op_bind_def)
      with refused show thesis by blast
    next
      case True
      with assms url hp show thesis by (intro admitted [OF url hp True]) (auto simp: guarded_get_def op_bind_def)
    qed
  qed
qed


text \<open>Example: a URL whose host is the literal address 10.0.0.1; the state counts requests.\<close>

definition ex_network :: "nat network" where
  "ex_network = \<lparr>n_url = (\<lambda>s. Inr \<lparr>u_scheme = ''https'', u_host = Some ''10.0.0.1'', u_port = Some 443,
       u_path = ''/'', u_username = [], u_password = None, u_query = None, u_fragment = None\<rparr>),
     n_ip = (\<lambda>s. Some (V4 0x0A000001)), n_utf8 = (\<lambda>_. True), n_lookup = (\<lambda>n h p. (Inr [], n)),
     n_send = (\<lambda>r n u a. (Inl ''down'', Suc n))\<rparr>"


end
