(* ===== verification/Replay.thy ===== *)
theory Replay
  imports Fetch
begin

text \<open>
  The replay set of DPoP proofs, the first half of \<^verbatim>\<open>src/auth/dpop.rs\<close>. Times are \<open>i64\<close>
  seconds, two's complement words with the saturating arithmetic written out. The trait
  \<open>JtiReplayStore\<close> is a locale with its documented obligations, its in-memory
  implementation an interpretation of it.
\<close>

type_synonym i64 = "64 word"

definition clamp64 :: "int \<Rightarrow> int" where
  "clamp64 x = max (- (2 ^ 63)) (min (2 ^ 63 - 1) x)"

definition sat_sub :: "i64 \<Rightarrow> i64 \<Rightarrow> i64" where
  "sat_sub a b = word_of_int (clamp64 (sint a - sint b))"

definition sat_abs :: "i64 \<Rightarrow> i64" where
  "sat_abs a = word_of_int (clamp64 \<bar>sint a\<bar>)"

definition MAX_AGE_SECONDS :: i64 where "MAX_AGE_SECONDS = 300"
definition FUTURE_SKEW_SECONDS :: i64 where "FUTURE_SKEW_SECONDS = 5"
definition EVICTION_INTERVAL_SECONDS :: i64 where "EVICTION_INTERVAL_SECONDS = 60"

record replay_set =
  jtis :: "string \<rightharpoonup> i64"
  last_eviction :: i64

definition new_replay_set :: replay_set where
  "new_replay_set = \<lparr>jtis = (\<lambda>_. None), last_eviction = 0\<rparr>"

definition evict :: "replay_set \<Rightarrow> i64 \<Rightarrow> replay_set" where
  "evict rs now =
     (if sint EVICTION_INTERVAL_SECONDS \<le> sint (sat_abs (sat_sub now (last_eviction rs)))
      then (let cutoff = sat_sub now (MAX_AGE_SECONDS + FUTURE_SKEW_SECONDS) in
        \<lparr>jtis = (\<lambda>h. case jtis rs h of
             None \<Rightarrow> None
           | Some at \<Rightarrow> if sint cutoff \<le> sint at then Some at else None),
         last_eviction = now\<rparr>)
      else rs)"

definition record_or_reject ::
  "(string \<Rightarrow> string) \<Rightarrow> replay_set \<Rightarrow> string \<Rightarrow> i64 \<Rightarrow> (auth_error + unit) \<times> replay_set" where
  "record_or_reject sha rs jti now =
     (let rs = evict rs now; h = sha jti in
      case jtis rs h of
        None \<Rightarrow> (Inr (), rs\<lparr>jtis := (jtis rs)(h \<mapsto> now)\<rparr>)
      | Some _ \<Rightarrow> (Inl (DpopInvalid ''dpop proof replayed''), rs))"

section \<open>Saturating arithmetic\<close>

lemma clamp64_range: "- (2 ^ 63) \<le> clamp64 x \<and> clamp64 x < 2 ^ 63"
  by (auto simp: clamp64_def)

lemma sint_range64: "- (2 ^ 63) \<le> sint (a :: i64) \<and> sint a < 2 ^ 63"
  using sint_greater_eq [of a] sint_less [of a] by simp

lemma sint_clamp64: "sint (word_of_int (clamp64 x) :: i64) = clamp64 x"
  using clamp64_range [of x] by (simp add: sint_sbintrunc' signed_take_bit_int_eq_self)

lemma sint_sat_sub: "sint (sat_sub a b) = clamp64 (sint a - sint b)"
  by (simp add: sat_sub_def sint_clamp64)

lemma sat_sub_le: "k < 2 ^ 63 - 1 \<Longrightarrow> - (2 ^ 63) \<le> k \<Longrightarrow> sint (sat_sub a b) \<le> k \<longleftrightarrow> sint a - sint b \<le> k"
  by (auto simp: sint_sat_sub clamp64_def)

lemma sint_seconds [simp]: "sint MAX_AGE_SECONDS = 300" "sint FUTURE_SKEW_SECONDS = 5"
  "sint (MAX_AGE_SECONDS + FUTURE_SKEW_SECONDS) = 305"
  by (simp_all add: MAX_AGE_SECONDS_def FUTURE_SKEW_SECONDS_def)

section \<open>The replay contract\<close>

text \<open>\<open>seen p j s\<close>: the store remembers that \<open>j\<close> was accepted at time \<open>s\<close>. It may forget that
  once the freshness window has passed.\<close>

locale jti_replay_store =
  fixes ror :: "'p \<Rightarrow> string \<Rightarrow> i64 \<Rightarrow> (auth_error + unit) \<times> 'p"
    and seen :: "'p \<Rightarrow> string \<Rightarrow> i64 \<Rightarrow> bool"
  assumes records: "fst (ror p j now) = Inr () \<Longrightarrow> seen (snd (ror p j now)) j now"
    and keeps: "seen p j s \<Longrightarrow> sint now \<le> sint s + 305 \<Longrightarrow> seen (snd (ror p j' now)) j s"
    and rejects: "seen p j s \<Longrightarrow> sint now \<le> sint s + 305 \<Longrightarrow> fst (ror p j now) \<noteq> Inr ()"
begin

text \<open>Histories of the store: its state after any sequence of calls.\<close>

fun after :: "'p \<Rightarrow> (string \<times> i64) list \<Rightarrow> 'p" where
  "after p [] = p"
| "after p ((j, t) # cs) = after (snd (ror p j t)) cs"

lemma seen_after:
  "seen p j s \<Longrightarrow> (\<forall>(j', t) \<in> set cs. sint t \<le> sint s + 305) \<Longrightarrow> seen (after p cs) j s"
  by (induction p cs rule: after.induct) (auto intro: keeps)

lemma no_second_accept:
  assumes "fst (ror p j s) = Inr ()" "\<forall>(j', t) \<in> set cs. sint t \<le> sint s + 305" "sint now \<le> sint s + 305"
  shows "fst (ror (after (snd (ror p j s)) cs) j now) \<noteq> Inr ()"
  by (rule rejects [OF seen_after [OF records]]) (use assms in auto)

end

definition remembers :: "(string \<Rightarrow> string) \<Rightarrow> replay_set \<Rightarrow> string \<Rightarrow> i64 \<Rightarrow> bool" where
  "remembers sha rs j s \<longleftrightarrow> jtis rs (sha j) = Some s"

lemma evict_keeps: "jtis rs h = Some s \<Longrightarrow> sint now \<le> sint s + 305 \<Longrightarrow> jtis (evict rs now) h = Some s"
  using sint_range64 [of s] by (auto simp: evict_def Let_def sint_sat_sub clamp64_def)

interpretation in_memory: jti_replay_store "record_or_reject sha" "remembers sha" for sha
proof
  fix p j now j' s
  show "fst (record_or_reject sha p j now) = Inr () \<Longrightarrow> remembers sha (snd (record_or_reject sha p j now)) j now"
    by (auto simp: record_or_reject_def remembers_def Let_def split: option.splits)
  assume "remembers sha p j s" "sint now \<le> sint s + 305"
  then have kept: "jtis (evict p now) (sha j) = Some s" by (simp add: remembers_def evict_keeps)
  then show "remembers sha (snd (record_or_reject sha p j' now)) j s"
    by (auto simp: record_or_reject_def remembers_def Let_def split: option.splits)
  from kept show "fst (record_or_reject sha p j now) \<noteq> Inr ()"
    by (simp add: record_or_reject_def Let_def)
qed

text \<open>The contract needs a clock that does not step back: an entry evicted while the clock was ahead
  is accepted again once it returns, although its proof is then fresh again.\<close>

lemma accepted_again_after_clock_step:
  "let r1 = record_or_reject id new_replay_set ''j'' 1000;
       r2 = record_or_reject id (snd r1) ''k'' 1400;
       r3 = record_or_reject id (snd r2) ''j'' 1100
   in fst r1 = Inr () \<and> fst r2 = Inr () \<and> fst r3 = Inr ()"
  by code_simp

text \<open>The set stays within the window: after a sweep nothing older than the cutoff is left.\<close>

lemma evict_bounded:
  assumes "60 \<le> sint (sat_abs (sat_sub now (last_eviction rs)))" "jtis (evict rs now) h = Some at"
  shows "sint now - sint at \<le> 305"
  using assms sint_range64 [of at] sint_range64 [of now]
  by (auto simp: evict_def Let_def sint_sat_sub clamp64_def EVICTION_INTERVAL_SECONDS_def min_def max_def
      split: option.splits if_splits)

end
