(* ===== verification/Discovery.thy ===== *)
theory Discovery
  imports Codec Replay "HOL-Library.AList"
begin

text \<open>
  What the pod learns about token issuers over the network: the bounded caches of
  \<^verbatim>\<open>src/auth/cache.rs\<close>, the key resolvers of \<^verbatim>\<open>src/auth/jwks.rs\<close> and
  \<^verbatim>\<open>src/auth/http_jwks.rs\<close>, and the WebID profiles of \<^verbatim>\<open>src/auth/webid_issuer.rs\<close>. An
  \<open>Instant\<close> is a number of nanoseconds, read off the state of the network by \<open>clock\<close>; \<open>elapsed\<close>
  saturates at zero as subtraction on \<open>nat\<close> does. A hash map is an association list with
  distinct keys, and \<open>iter\<close> the unspecified order in which it is iterated.
\<close>

section \<open>JSON values\<close>

text \<open>\<open>serde_json::Value\<close>; a number is kept the way the crate keeps it.\<close>

datatype json_number = PosInt "64 word" | NegInt i64 | Float string

datatype json =
    JNull
  | JBool bool
  | JNumber json_number
  | JString string
  | JArray "json list"
  | JObject "(string \<times> json) list"

definition as_str :: "json \<Rightarrow> string option" where
  "as_str v = (case v of JString s \<Rightarrow> Some s | _ \<Rightarrow> None)"

definition as_object :: "json \<Rightarrow> (string \<times> json) list option" where
  "as_object v = (case v of JObject m \<Rightarrow> Some m | _ \<Rightarrow> None)"

definition as_array :: "json \<Rightarrow> json list option" where
  "as_array v = (case v of JArray xs \<Rightarrow> Some xs | _ \<Rightarrow> None)"

definition as_i64 :: "json \<Rightarrow> i64 option" where
  "as_i64 v = (case v of
       JNumber (PosInt u) \<Rightarrow> if unat u < 2 ^ 63 then Some u else None
     | JNumber (NegInt i) \<Rightarrow> Some i
     | _ \<Rightarrow> None)"

definition json_get :: "string \<Rightarrow> json \<Rightarrow> json option" where
  "json_get k v = (case v of JObject m \<Rightarrow> map_of m k | _ \<Rightarrow> None)"

definition get_str :: "string \<Rightarrow> json \<Rightarrow> string option" where
  "get_str k v = Option.bind (json_get k v) as_str"

section \<open>Bounded caches\<close>

definition from_secs :: "nat \<Rightarrow> nat" where
  "from_secs s = s * 1000000000"

definition MAX_CACHE_ENTRIES :: nat where "MAX_CACHE_ENTRIES = 1024"

fun first_min :: "('a \<Rightarrow> nat) \<Rightarrow> 'a list \<Rightarrow> 'a option" where
  "first_min f [] = None"
| "first_min f (x # xs) = (case first_min f xs of
      None \<Rightarrow> Some x
    | Some y \<Rightarrow> if f x \<le> f y then Some x else Some y)"

definition insert_bounded ::
  "(string list \<Rightarrow> string list) \<Rightarrow> nat \<Rightarrow> (string \<times> 'v) list \<Rightarrow> string \<Rightarrow> 'v \<Rightarrow> nat \<Rightarrow> ('v \<Rightarrow> nat) \<Rightarrow>
     (string \<times> 'v) list" where
  "insert_bounded iter now m key value ttl stamp =
     AList.update key value
       (if MAX_CACHE_ENTRIES \<le> length m \<and> map_of m key = None
        then (let live = filter (\<lambda>(_, v). now - stamp v < ttl) m in
          if MAX_CACHE_ENTRIES \<le> length live
          then (case first_min (\<lambda>k. stamp (the (map_of live k))) (iter (map fst live)) of
                  Some oldest \<Rightarrow> AList.delete oldest live
                | None \<Rightarrow> live)
          else live)
        else m)"

record 'v cache_state =
  c_positive :: "(string \<times> ('v \<times> nat)) list"
  c_negative :: "(string \<times> nat) list"

definition empty_cache :: "'v cache_state" where
  "empty_cache = \<lparr>c_positive = [], c_negative = []\<rparr>"

text \<open>The shape \<open>HttpJwksResolver::resolve\<close> and \<open>HttpWebIdIssuers::authorizes\<close> share: a fresh
  positive entry answers, a fresh negative entry refuses, otherwise one fetch whose outcome
  is remembered either way.\<close>

definition cached_fetch ::
  "(string list \<Rightarrow> string list) \<Rightarrow> ('n \<Rightarrow> nat) \<Rightarrow> nat \<Rightarrow> nat \<Rightarrow> auth_error \<Rightarrow>
     (string \<Rightarrow> ('n, auth_error, 'v) op) \<Rightarrow> string \<Rightarrow> ('n \<times> 'v cache_state, auth_error, 'v) op" where
  "cached_fetch iter clock ttl nttl recent fetch key = (\<lambda>(n, st).
     case (case map_of (c_positive st) key of
             Some (v, since) \<Rightarrow> if clock n - since < ttl then Some v else None
           | None \<Rightarrow> None) of
       Some v \<Rightarrow> (Inr v, (n, st))
     | None \<Rightarrow>
        if (case map_of (c_negative st) key of Some since \<Rightarrow> clock n - since < nttl | None \<Rightarrow> False)
        then (Inl recent, (n, st))
        else (case fetch key n of
            (Inr v, n') \<Rightarrow> (Inr v, (n', st\<lparr>
                c_positive := insert_bounded iter (clock n') (c_positive st) key (v, clock n') ttl snd,
                c_negative := AList.delete key (c_negative st)\<rparr>))
          | (Inl e, n') \<Rightarrow> (Inl e, (n', st\<lparr>
                c_negative := insert_bounded iter (clock n') (c_negative st) key (clock n') nttl id\<rparr>))))"

section \<open>Issuer keys\<close>

text \<open>A \<open>josekit::jwk::Jwk\<close> is a value of the type variable \<open>'k\<close>; what is read off it and verified with it
  are parameters, in \<open>Credentials\<close>.\<close>

definition static_jwks_resolve :: "(string \<times> 'k list) list \<Rightarrow> string \<Rightarrow> ('w, auth_error, 'k list) op" where
  "static_jwks_resolve m issuer = op_res (ok_or UnknownIssuer (map_of m issuer))"

definition JWKS_CACHE_TTL :: nat where "JWKS_CACHE_TTL = from_secs 300"
definition NEGATIVE_CACHE_TTL :: nat where "NEGATIVE_CACHE_TTL = from_secs 30"

definition http_jwks_fetch ::
  "'n network \<Rightarrow> fetch_policy \<Rightarrow> (string \<Rightarrow> json option) \<Rightarrow> (json \<Rightarrow> 'k list option) \<Rightarrow>
     string \<Rightarrow> ('n, auth_error, 'k list) op" where
  "http_jwks_fetch N pol json_from keys_from issuer =
     (let discovery_url =
        (if ends_with ''/'' issuer then issuer @ ''.well-known/openid-configuration''
         else issuer @ ''/.well-known/openid-configuration'') in
      op_bind (op_map_err (\<lambda>_. UnknownIssuer) (guarded_get N pol discovery_url ''application/json''))
        (\<lambda>(discovery_body, _).
      op_bind (op_res (ok_or UnknownIssuer (json_from discovery_body))) (\<lambda>discovery.
      op_bind (op_res (ok_or UnknownIssuer (get_str ''jwks_uri'' discovery))) (\<lambda>jwks_uri.
      op_bind (op_map_err (\<lambda>_. UnknownIssuer) (guarded_get N pol jwks_uri ''application/json''))
        (\<lambda>(jwks_body, _).
      op_bind (op_res (ok_or UnknownIssuer (json_from jwks_body))) (\<lambda>jwks_doc.
      op_bind (op_res (ok_or UnknownIssuer (json_get ''keys'' jwks_doc))) (\<lambda>keys_value.
      op_res (ok_or UnknownIssuer (keys_from keys_value)))))))))"

definition http_jwks_resolve ::
  "'n network \<Rightarrow> fetch_policy \<Rightarrow> (string \<Rightarrow> json option) \<Rightarrow> (json \<Rightarrow> 'k list option) \<Rightarrow>
     (string list \<Rightarrow> string list) \<Rightarrow> ('n \<Rightarrow> nat) \<Rightarrow>
     string \<Rightarrow> ('n \<times> 'k list cache_state, auth_error, 'k list) op" where
  "http_jwks_resolve N pol json_from keys_from iter clock issuer =
     cached_fetch iter clock JWKS_CACHE_TTL NEGATIVE_CACHE_TTL UnknownIssuer
       (http_jwks_fetch N pol json_from keys_from) issuer"

section \<open>WebID profiles\<close>

definition SOLID_OIDC_ISSUER :: iri where
  "SOLID_OIDC_ISSUER = ''http://www.w3.org/ns/solid/terms#oidcIssuer''"

definition WEBID_CACHE_TTL :: nat where "WEBID_CACHE_TTL = from_secs 120"

definition issuer_matches :: "string \<Rightarrow> string \<Rightarrow> bool" where
  "issuer_matches a b \<longleftrightarrow> trim_end_matches (CHR ''/'') a = trim_end_matches (CHR ''/'') b"

type_synonym webid_issuers = "(string \<times> string list) list"

definition allow_issuer :: "webid_issuers \<Rightarrow> string \<Rightarrow> string \<Rightarrow> webid_issuers" where
  "allow_issuer m webid issuer =
     AList.update webid ((case map_of m webid of Some is \<Rightarrow> is | None \<Rightarrow> []) @ [issuer]) m"

definition static_authorizes :: "webid_issuers \<Rightarrow> string \<Rightarrow> string \<Rightarrow> ('w, auth_error, bool) op" where
  "static_authorizes m webid issuer = op_ok
     (case map_of m webid of Some is \<Rightarrow> list_ex (\<lambda>i. issuer_matches i issuer) is | None \<Rightarrow> False)"

definition declared_issuers :: "string \<Rightarrow> dataset \<Rightarrow> string list" where
  "declared_issuers webid d = List.map_filter
     (\<lambda>t. case q_object t of TermNamed n \<Rightarrow> Some n | _ \<Rightarrow> None)
     (filter (\<lambda>t. q_subject t = NamedNode webid \<and> q_predicate t = SOLID_OIDC_ISSUER) d)"

definition fetch_issuers ::
  "'n network \<Rightarrow> fetch_policy \<Rightarrow> rdf_parser \<Rightarrow> (rdf_error \<Rightarrow> string) \<Rightarrow>
     string \<Rightarrow> ('n, auth_error, string list) op" where
  "fetch_issuers N pol parser show_err webid =
     (let doc_url = hd (split_on (CHR ''#'') webid) in
      op_bind (guarded_get N pol doc_url ''text/turtle, application/ld+json;q=0.9'') (\<lambda>(body, content_type).
        let fmt = (case Option.bind content_type from_content_type of Some f \<Rightarrow> f | None \<Rightarrow> Turtle) in
        op_bind (op_res (map_err (\<lambda>e. FetchBlocked (''invalid profile document: '' @ show_err e))
            (format_parse parser fmt body doc_url Rdf12))) (\<lambda>dataset.
          op_ok (declared_issuers webid dataset))))"

definition http_authorizes ::
  "'n network \<Rightarrow> fetch_policy \<Rightarrow> rdf_parser \<Rightarrow> (rdf_error \<Rightarrow> string) \<Rightarrow>
     (string list \<Rightarrow> string list) \<Rightarrow> ('n \<Rightarrow> nat) \<Rightarrow>
     string \<Rightarrow> string \<Rightarrow> ('n \<times> string list cache_state, auth_error, bool) op" where
  "http_authorizes N pol parser show_err iter clock webid issuer =
     op_bind (cached_fetch iter clock WEBID_CACHE_TTL NEGATIVE_CACHE_TTL
         (FetchBlocked ''webid profile document recently failed to resolve'')
         (fetch_issuers N pol parser show_err) webid)
       (\<lambda>is. op_ok (list_ex (\<lambda>i. issuer_matches i issuer) is))"

section \<open>The caches stay bounded\<close>

definition bounded_cache :: "(string \<times> 'v) list \<Rightarrow> bool" where
  "bounded_cache m \<longleftrightarrow> distinct (map fst m) \<and> length m \<le> MAX_CACHE_ENTRIES"

lemma first_min_None: "first_min f xs = None \<longleftrightarrow> xs = []"
  by (induction xs) (auto split: option.splits)

lemma first_min_Some: "first_min f xs = Some x \<Longrightarrow> x \<in> set xs \<and> (\<forall>y \<in> set xs. f x \<le> f y)"
  by (induction xs arbitrary: x) (force simp: first_min_None split: option.splits if_splits)+

lemma delete_shorter: "k \<in> fst ` set m \<Longrightarrow> length (AList.delete k m) < length m"
  by (induction m) (force simp: AList.delete_eq less_Suc_eq_le)+

lemma length_update: "length (AList.update k v m) = (if k \<in> fst ` set m then length m else Suc (length m))"
  by (induction m) auto

lemma distinct_filter_keys: "distinct (map fst m) \<Longrightarrow> distinct (map fst (filter P m))"
  by (induction m) auto

text \<open>Making room: either an entry leaves, or there was room already.\<close>

definition make_room ::
  "(string list \<Rightarrow> string list) \<Rightarrow> nat \<Rightarrow> (string \<times> 'v) list \<Rightarrow> nat \<Rightarrow> ('v \<Rightarrow> nat) \<Rightarrow> (string \<times> 'v) list" where
  "make_room iter now m ttl stamp =
     (let live = filter (\<lambda>(_, v). now - stamp v < ttl) m in
      if MAX_CACHE_ENTRIES \<le> length live
      then (case first_min (\<lambda>k. stamp (the (map_of live k))) (iter (map fst live)) of
              Some oldest \<Rightarrow> AList.delete oldest live
            | None \<Rightarrow> live)
      else live)"

lemma insert_bounded_alt:
  "insert_bounded iter now m key value ttl stamp = AList.update key value
     (if MAX_CACHE_ENTRIES \<le> length m \<and> map_of m key = None then make_room iter now m ttl stamp else m)"
  by (simp add: insert_bounded_def make_room_def Let_def)

lemma make_room_subset: "set (make_room iter now m ttl stamp) \<subseteq> set m"
  by (auto simp: make_room_def Let_def AList.delete_eq split: option.splits)

lemma make_room_distinct: "distinct (map fst m) \<Longrightarrow> distinct (map fst (make_room iter now m ttl stamp))"
  by (auto simp: make_room_def Let_def intro: distinct_filter_keys distinct_delete split: option.splits)

lemma make_room_length:
  assumes "\<And>ks. set (iter ks) = set ks" "bounded_cache m"
  shows "length (make_room iter now m ttl stamp) < MAX_CACHE_ENTRIES"
proof -
  let ?live = "filter (\<lambda>(_, v). now - stamp v < ttl) m"
  have len: "length ?live \<le> MAX_CACHE_ENTRIES"
    using assms(2) by (auto simp: bounded_cache_def intro: order_trans [OF length_filter_le])
  show ?thesis
  proof (cases "MAX_CACHE_ENTRIES \<le> length ?live")
    case False
    then show ?thesis by (simp add: make_room_def)
  next
    case True
    then have "map fst ?live \<noteq> []" by (auto simp: MAX_CACHE_ENTRIES_def)
    then have "iter (map fst ?live) \<noteq> []" using assms(1) by (metis set_empty)
    then obtain k where k: "first_min (\<lambda>k. stamp (the (map_of ?live k))) (iter (map fst ?live)) = Some k"
      by (metis first_min_None not_Some_eq)
    then have "k \<in> fst ` set ?live" using assms(1) first_min_Some [OF k] by auto
    with delete_shorter [of k ?live] k True len show ?thesis by (fastforce simp: make_room_def)
  qed
qed

lemma insert_bounded_bounded:
  assumes "\<And>ks. set (iter ks) = set ks" "bounded_cache m"
  shows "bounded_cache (insert_bounded iter now m key value ttl stamp)"
  using assms(2) make_room_length [OF assms, of now ttl stamp] make_room_distinct [of m iter now ttl stamp]
  by (auto simp: insert_bounded_alt bounded_cache_def length_update distinct_update map_of_eq_None_iff Suc_le_eq)

lemma insert_bounded_lookup: "map_of (insert_bounded iter now m key value ttl stamp) key = Some value"
  by (simp add: insert_bounded_alt update_conv')

lemma insert_bounded_kept:
  assumes "distinct (map fst m)" "map_of (insert_bounded iter now m key value ttl stamp) k = Some v" "k \<noteq> key"
  shows "map_of m k = Some v"
proof -
  let ?m = "if MAX_CACHE_ENTRIES \<le> length m \<and> map_of m key = None then make_room iter now m ttl stamp else m"
  from assms(2,3) have "map_of ?m k = Some v" by (simp add: insert_bounded_alt update_conv')
  then have "(k, v) \<in> set m"
    using make_room_subset [of iter now m ttl stamp] by (auto dest!: map_of_SomeD split: if_splits)
  with assms(1) show ?thesis by simp
qed

definition cache_ok :: "'v cache_state \<Rightarrow> bool" where
  "cache_ok st \<longleftrightarrow> bounded_cache (c_positive st) \<and> bounded_cache (c_negative st)"

lemma empty_cache_ok: "cache_ok empty_cache"
  by (simp add: cache_ok_def empty_cache_def bounded_cache_def)

lemma delete_bounded: "bounded_cache m \<Longrightarrow> bounded_cache (AList.delete k m)"
  by (auto simp: bounded_cache_def distinct_delete intro: order_trans [OF length_delete_le])

lemma cached_fetch_ok:
  assumes "\<And>ks. set (iter ks) = set ks" "cache_ok st" "cached_fetch iter clock ttl nttl recent fetch key (n, st) = (r, (n', st'))"
  shows "cache_ok st'"
  using assms(2,3)
  by (auto simp: cached_fetch_def cache_ok_def insert_bounded_bounded [OF assms(1)] delete_bounded
      split: option.splits if_splits prod.splits sum.splits)

text \<open>What a cached answer is: either remembered and still fresh, or fetched now.\<close>

lemma cached_fetch_Inr:
  assumes "cached_fetch iter clock ttl nttl recent fetch key (n, st) = (Inr v, (n', st'))"
  shows "(\<exists>since. map_of (c_positive st) key = Some (v, since) \<and> clock n - since < ttl \<and> n' = n \<and> st' = st) \<or>
    fetch key n = (Inr v, n') \<and> map_of (c_positive st') key = Some (v, clock n')"
  using assms
  by (auto simp: cached_fetch_def insert_bounded_lookup split: option.splits if_splits prod.splits sum.splits)

lemma cached_fetch_again:
  assumes "cached_fetch iter clock ttl nttl recent fetch key (n, st) = (Inr v, (n', st'))"
    and "fetch key n = (Inr v, n')" "n' \<noteq> n" "clock n2 - clock n' < ttl"
  shows "cached_fetch iter clock ttl nttl recent fetch key (n2, st') = (Inr v, (n2, st'))"
proof -
  have "map_of (c_positive st') key = Some (v, clock n')"
    using cached_fetch_Inr [OF assms(1)] assms(3) by auto
  with assms(4) show ?thesis by (simp add: cached_fetch_def)
qed

lemma cached_fetch_negative:
  assumes "cached_fetch iter clock ttl nttl recent fetch key (n, st) = (Inl e, (n', st'))"
    and "n' \<noteq> n" "clock n2 - clock n' < nttl"
    and "\<And>v since. map_of (c_positive st) key = Some (v, since) \<Longrightarrow> ttl \<le> clock n2 - since"
  shows "cached_fetch iter clock ttl nttl recent fetch key (n2, st') = (Inl recent, (n2, st'))"
proof -
  from assms(1,2) have "map_of (c_negative st') key = Some (clock n')" "c_positive st' = c_positive st"
    by (auto simp: cached_fetch_def insert_bounded_lookup split: option.splits if_splits prod.splits sum.splits)
  with assms(3,4) show ?thesis
    by (auto simp: cached_fetch_def leD split: option.splits)
qed

section \<open>Where answers come from\<close>

text \<open>What the traits \<open>JwksResolver\<close> and \<open>WebIdIssuerVerifier\<close> stand for: an answer is one the
  source of truth gives for that very key, whatever was asked before.\<close>

fun asked :: "(string \<Rightarrow> ('w, 'e, 'a) op) \<Rightarrow> 'w \<Rightarrow> string list \<Rightarrow> 'w" where
  "asked ask w [] = w"
| "asked ask w (k # ks) = asked ask (snd (ask k w)) ks"

locale issuer_source =
  fixes ask :: "string \<Rightarrow> ('w, auth_error, 'a) op"
    and ok :: "'w \<Rightarrow> bool"
    and genuine :: "string \<Rightarrow> 'a \<Rightarrow> bool"
  assumes sound: "ok w \<Longrightarrow> ask k w = (Inr v, w') \<Longrightarrow> genuine k v"
    and keeps: "ok w \<Longrightarrow> ask k w = (r, w') \<Longrightarrow> ok w'"
begin

lemma ok_asked: "ok w \<Longrightarrow> ok (asked ask w ks)"
  by (induction ks arbitrary: w) (auto intro: keeps [OF _ prod.collapse [symmetric]])

lemma sound_after: "ok w \<Longrightarrow> ask k (asked ask w ks) = (Inr v, w') \<Longrightarrow> genuine k v"
  by (rule sound [OF ok_asked])

end

definition fetches :: "(string \<Rightarrow> ('n, auth_error, 'v) op) \<Rightarrow> string \<Rightarrow> 'v \<Rightarrow> bool" where
  "fetches fetch k v \<longleftrightarrow> (\<exists>n n'. fetch k n = (Inr v, n'))"

definition cache_genuine :: "(string \<Rightarrow> ('n, auth_error, 'v) op) \<Rightarrow> 'n \<times> 'v cache_state \<Rightarrow> bool" where
  "cache_genuine fetch w \<longleftrightarrow> distinct (map fst (c_positive (snd w))) \<and>
     (\<forall>k v since. map_of (c_positive (snd w)) k = Some (v, since) \<longrightarrow> fetches fetch k v)"

lemma cached_fetch_positive:
  assumes "cached_fetch iter clock ttl nttl recent fetch key (n, st) = (r, (n', st'))"
  shows "c_positive st' = c_positive st \<or>
    (\<exists>v. fetch key n = (Inr v, n') \<and>
       c_positive st' = insert_bounded iter (clock n') (c_positive st) key (v, clock n') ttl snd)"
  using assms by (auto simp: cached_fetch_def split: option.splits if_splits prod.splits sum.splits)

lemma insert_bounded_distinct:
  "distinct (map fst m) \<Longrightarrow> distinct (map fst (insert_bounded iter now m key value ttl stamp))"
  by (simp add: insert_bounded_alt distinct_update make_room_distinct)

lemma cache_genuine_insert:
  assumes "cache_genuine fetch (n, st)" "fetches fetch key v"
    and "c_positive st' = insert_bounded iter now (c_positive st) key (v, since) ttl snd"
  shows "cache_genuine fetch (n', st')"
  unfolding cache_genuine_def
proof (intro conjI allI impI; simp only: snd_conv)
  have d: "distinct (map fst (c_positive st))" using assms(1) by (simp add: cache_genuine_def)
  then show "distinct (map fst (c_positive st'))" by (simp add: assms(3) insert_bounded_distinct)
  fix k u t
  assume look: "map_of (c_positive st') k = Some (u, t)"
  show "fetches fetch k u"
  proof (cases "k = key")
    case True
    with look assms(2,3) show ?thesis by (simp add: insert_bounded_lookup)
  next
    case False
    with insert_bounded_kept [OF d look [unfolded assms(3)]] assms(1) show ?thesis by (auto simp: cache_genuine_def)
  qed
qed

interpretation cached: issuer_source "cached_fetch iter clock ttl nttl recent fetch" "cache_genuine fetch" "fetches fetch"
  for iter clock ttl nttl recent fetch
proof
  fix w w' :: "'a \<times> 'b cache_state" and k v r
  obtain n st n' st' where w: "w = (n, st)" "w' = (n', st')" by (metis prod.collapse)
  assume ok: "cache_genuine fetch w"
  show "fetches fetch k v" if "cached_fetch iter clock ttl nttl recent fetch k w = (Inr v, w')"
    using cached_fetch_Inr [OF that [unfolded w]] ok unfolding cache_genuine_def w fetches_def snd_conv by blast
  show "cache_genuine fetch w'" if "cached_fetch iter clock ttl nttl recent fetch k w = (r, w')"
    using cached_fetch_positive [OF that [unfolded w]]
  proof
    assume "c_positive st' = c_positive st"
    with ok show ?thesis by (simp add: cache_genuine_def w)
  next
    assume "\<exists>v. fetch k n = (Inr v, n') \<and>
       c_positive st' = insert_bounded iter (clock n') (c_positive st) k (v, clock n') ttl snd"
    then obtain v where v: "fetch k n = (Inr v, n')"
      "c_positive st' = insert_bounded iter (clock n') (c_positive st) k (v, clock n') ttl snd" by blast
    then have "fetches fetch k v" unfolding fetches_def by blast
    from cache_genuine_insert [OF ok [unfolded w] this v(2)] show ?thesis unfolding w .
  qed
qed

interpretation static_jwks: issuer_source "static_jwks_resolve m" "\<lambda>_. True" "\<lambda>k v. map_of m k = Some v" for m
  by unfold_locales (auto simp: static_jwks_resolve_def ok_or_def split: option.splits)

interpretation http_jwks: issuer_source "http_jwks_resolve N pol json_from keys_from iter clock"
  "cache_genuine (http_jwks_fetch N pol json_from keys_from)" "fetches (http_jwks_fetch N pol json_from keys_from)"
  for N pol json_from keys_from iter clock
  unfolding http_jwks_resolve_def by (rule cached.issuer_source_axioms)

text \<open>C37: No caller can grow the resolver's memory: from an empty cache, after resolving any
  sequence of issuers, with any network and clock, at most 1024 key sets and 1024 failures
  are remembered, and what is answered for an issuer is always a key set that the two
  guarded discovery requests for that issuer returned, at one time or another.\<close>

theorem jwks_cache_bounded:
  assumes "\<And>ks. set (iter ks) = set ks"
    and "asked (http_jwks_resolve N pol json_from keys_from iter clock) (n, empty_cache) issuers = (n', st)"
  shows "length (c_positive st) \<le> 1024 \<and> length (c_negative st) \<le> 1024 \<and>
    (\<forall>issuer keys w'. http_jwks_resolve N pol json_from keys_from iter clock issuer (n', st) = (Inr keys, w') \<longrightarrow>
       (\<exists>n1 n2. http_jwks_fetch N pol json_from keys_from issuer n1 = (Inr keys, n2)))"
proof -
  let ?ask = "http_jwks_resolve N pol json_from keys_from iter clock"
  have step: "cache_ok (snd w) \<Longrightarrow> cache_ok (snd (snd (?ask k w)))" for w k
    unfolding http_jwks_resolve_def
    by (rule cached_fetch_ok [OF assms(1), where n = "fst w" and n' = "fst (snd (?ask k w))" and r = "fst (?ask k w)"])
       (auto simp: http_jwks_resolve_def)
  have "cache_ok (snd w) \<Longrightarrow> cache_ok (snd (asked ?ask w issuers))" for w
    by (induction issuers arbitrary: w) (use step in \<open>simp_all\<close>)
  from this [of "(n, empty_cache)"] have ok: "cache_ok st"
    by (simp add: empty_cache_ok assms(2))
  have "cache_genuine (http_jwks_fetch N pol json_from keys_from) (n, empty_cache)"
    by (simp add: cache_genuine_def empty_cache_def)
  from http_jwks.sound_after [OF this] have
    "?ask issuer (n', st) = (Inr keys, w') \<Longrightarrow> fetches (http_jwks_fetch N pol json_from keys_from) issuer keys" for issuer keys w'
    by (metis assms(2))
  with ok show ?thesis by (auto simp: cache_ok_def bounded_cache_def MAX_CACHE_ENTRIES_def fetches_def)
qed

text \<open>Example: a network that is down, whose state counts requests; the failure is remembered.\<close>

theorem jwks_cache_bounded_witness:
  "let st = snd (asked (http_jwks_resolve ex_network (with_insecure_hosts ex_network []) (\<lambda>_. None) (\<lambda>_. None :: nat list option) id id)
        (0, empty_cache) [''https://a'', ''https://b'']) in
   length (c_positive st) \<le> 1024 \<and> length (c_negative st) \<le> 1024"
  using jwks_cache_bounded [OF _ prod.collapse [symmetric], of id ex_network "with_insecure_hosts ex_network []"
      "\<lambda>_. None" "\<lambda>_. None :: nat list option" id 0 "[''https://a'', ''https://b'']"]
  by (simp add: Let_def)

section \<open>The WebID-issuer binding\<close>

locale webid_issuer_verifier =
  fixes authorizes :: "string \<Rightarrow> string \<Rightarrow> ('w, auth_error, bool) op"
    and ok :: "'w \<Rightarrow> bool"
    and declares :: "string \<Rightarrow> string \<Rightarrow> bool"
  assumes sound: "ok w \<Longrightarrow> authorizes webid issuer w = (Inr True, w') \<Longrightarrow> \<exists>i. declares webid i \<and> issuer_matches i issuer"
    and keeps: "ok w \<Longrightarrow> authorizes webid issuer w = (r, w') \<Longrightarrow> ok w'"
begin

text \<open>A WebID whose profile names no issuer is never authorized, however often it is asked.\<close>

lemma undeclared_refused:
  "ok w \<Longrightarrow> \<forall>i. \<not> declares webid i \<Longrightarrow> fst (authorizes webid issuer w) \<noteq> Inr True"
  by (metis sound prod.collapse)

end

definition profile_declares ::
  "'n network \<Rightarrow> fetch_policy \<Rightarrow> rdf_parser \<Rightarrow> string \<Rightarrow> string \<Rightarrow> bool" where
  "profile_declares N pol parser webid i \<longleftrightarrow> (\<exists>n n' body ct fmt d q.
     guarded_get N pol (hd (split_on (CHR ''#'') webid)) ''text/turtle, application/ld+json;q=0.9'' n = (Inr (body, ct), n') \<and>
     parser fmt (hd (split_on (CHR ''#'') webid)) body = Inr d \<and> q \<in> set d \<and>
     q_subject q = NamedNode webid \<and> q_predicate q = SOLID_OIDC_ISSUER \<and> q_object q = TermNamed i)"

lemma declared_issuers_iff:
  "i \<in> set (declared_issuers webid d) \<longleftrightarrow>
     (\<exists>q \<in> set d. q_subject q = NamedNode webid \<and> q_predicate q = SOLID_OIDC_ISSUER \<and> q_object q = TermNamed i)"
proof -
  have obj: "(case x of TermNamed n \<Rightarrow> Some n | _ \<Rightarrow> None) = Some i \<longleftrightarrow> x = TermNamed i" for x
    by (cases x) auto
  show ?thesis
    by (auto simp: declared_issuers_def map_filter_def obj image_iff) (metis obj option.sel option.distinct(1))+
qed

lemma fetch_issuers_declares:
  assumes "fetch_issuers N pol parser show_err webid n = (Inr is, n')" "i \<in> set is"
  shows "profile_declares N pol parser webid i"
proof -
  let ?doc = "hd (split_on (CHR ''#'') webid)"
  from assms(1) obtain body ct n1 fmt d where
    "guarded_get N pol ?doc ''text/turtle, application/ld+json;q=0.9'' n = (Inr (body, ct), n1)"
    "format_parse parser fmt body ?doc Rdf12 = Inr d" and d: "is = declared_issuers webid d"
    by (auto simp: fetch_issuers_def Let_def map_err_def elim!: op_bind_InrE split: sum.splits)
  moreover from assms(2) obtain q where "q \<in> set d" "q_subject q = NamedNode webid"
    "q_predicate q = SOLID_OIDC_ISSUER" "q_object q = TermNamed i"
    unfolding d declared_issuers_iff by blast
  ultimately show ?thesis unfolding profile_declares_def format_parse_Inr by blast
qed

lemma http_authorizes_step:
  assumes "http_authorizes N pol parser show_err iter clock webid issuer w = (r, w')"
  obtains r1 where "cached_fetch iter clock WEBID_CACHE_TTL NEGATIVE_CACHE_TTL
       (FetchBlocked ''webid profile document recently failed to resolve'')
       (fetch_issuers N pol parser show_err) webid w = (r1, w')"
    and "r = Inr True \<Longrightarrow> \<exists>is. r1 = Inr is \<and> (\<exists>i \<in> set is. issuer_matches i issuer)"
  using assms unfolding http_authorizes_def
  by (auto simp: list_ex_iff elim!: op_bind_cases)

interpretation static_webids: webid_issuer_verifier "static_authorizes m" "\<lambda>_. True"
  "\<lambda>webid i. \<exists>is. map_of m webid = Some is \<and> i \<in> set is" for m
  by unfold_locales (auto simp: static_authorizes_def list_ex_iff split: option.splits)

interpretation http_webids: webid_issuer_verifier "http_authorizes N pol parser show_err iter clock"
  "cache_genuine (fetch_issuers N pol parser show_err)" "profile_declares N pol parser"
  for N pol parser show_err iter clock
proof
  fix w w' webid issuer r
  assume ok: "cache_genuine (fetch_issuers N pol parser show_err) w"
  show "cache_genuine (fetch_issuers N pol parser show_err) w'"
    if "http_authorizes N pol parser show_err iter clock webid issuer w = (r, w')"
    using that by (elim http_authorizes_step) (rule cached.keeps [OF ok])
  assume "http_authorizes N pol parser show_err iter clock webid issuer w = (Inr True, w')"
  then obtain "is" i where run: "cached_fetch iter clock WEBID_CACHE_TTL NEGATIVE_CACHE_TTL
       (FetchBlocked ''webid profile document recently failed to resolve'')
       (fetch_issuers N pol parser show_err) webid w = (Inr is, w')" and i: "i \<in> set is" "issuer_matches i issuer"
    by (elim http_authorizes_step) blast
  from cached.sound [OF ok run] i fetch_issuers_declares show "\<exists>i. profile_declares N pol parser webid i \<and> issuer_matches i issuer"
    unfolding fetches_def by metis
qed

end
