(* ===== verification/Credentials.thy ===== *)
theory Credentials
  imports Discovery
begin

text \<open>
  From two headers to an agent: DPoP proofs (the second half of \<^verbatim>\<open>src/auth/dpop.rs\<close>), access
  tokens (\<^verbatim>\<open>src/auth/access_token.rs\<close>), their combination (\<^verbatim>\<open>src/auth/authenticate.rs\<close>) and the
  layer in front of every handler (\<^verbatim>\<open>src/auth/middleware.rs\<close>). Everything the crates
  \<open>base64\<close>, \<open>serde_json\<close>, \<open>sha2\<close>, \<open>josekit\<close>, \<open>dpop-verifier\<close> and \<open>url\<close> compute is a field of the
  record \<open>jose\<close>: keys \<open>'k\<close>, verifiers \<open>'v\<close>, and the functions the sources call on them.
\<close>

record verified_dpop =
  vd_jkt :: string
  vd_jti :: string
  vd_iat :: i64

record ('k, 'v) jose =
  b64_decode :: "string \<Rightarrow> string option"
  b64_encode :: "string \<Rightarrow> string"
  json_from :: "string \<Rightarrow> json option"
  sha256 :: "string \<Rightarrow> string"
  jwk_from_map :: "(string \<times> json) list \<Rightarrow> 'k option"
  key_type :: "'k \<Rightarrow> string"
  curve :: "'k \<Rightarrow> string option"
  key_id :: "'k \<Rightarrow> string option"
  key_use :: "'k \<Rightarrow> string option"
  is_for_key_operation :: "'k \<Rightarrow> string \<Rightarrow> bool"
  rs256_verifier :: "'k \<Rightarrow> 'v option"
  es256_verifier :: "'k \<Rightarrow> 'v option"
  jws_verify :: "'v \<Rightarrow> string \<Rightarrow> string \<Rightarrow> bool"
  jwt_decode :: "string \<Rightarrow> 'v \<Rightarrow> (string \<times> json) list option"
  dpop_verifier :: "i64 \<Rightarrow> i64 \<Rightarrow> string \<Rightarrow> string \<Rightarrow> string \<Rightarrow> string + verified_dpop"
  normalize_method :: "string \<Rightarrow> string + string"
  normalize_htu :: "string \<Rightarrow> string + string"
  url_parse :: "string \<Rightarrow> string + url"

section \<open>DPoP proofs\<close>

definition DISABLE_INTERNAL_CLOCK_CHECK_SECONDS :: i64 where
  "DISABLE_INTERNAL_CLOCK_CHECK_SECONDS = 999999999999"

definition RS256_ALG :: string where "RS256_ALG = ''RS256''"
definition JTI_MAX_LENGTH :: nat where "JTI_MAX_LENGTH = 512"

abbreviation dpop_err :: "string \<Rightarrow> auth_error + 'a" where
  "dpop_err m \<equiv> Inl (DpopInvalid m)"

definition dpop_ok_or :: "string \<Rightarrow> 'a option \<Rightarrow> auth_error + 'a" where
  "dpop_ok_or m x = ok_or (DpopInvalid m) x"

definition decode_jws_segment :: "('k, 'v, 'z) jose_scheme \<Rightarrow> string \<Rightarrow> string \<Rightarrow> auth_error + json" where
  "decode_jws_segment J seg what =
     res_bind (dpop_ok_or (''dpop proof '' @ what @ '' is not base64url'') (b64_decode J seg)) (\<lambda>bytes.
       dpop_ok_or (''dpop proof '' @ what @ '' is not JSON'') (json_from J bytes))"

definition verified_htu_claim :: "('k, 'v, 'z) jose_scheme \<Rightarrow> string \<Rightarrow> auth_error + string" where
  "verified_htu_claim J proof =
     (case split_on (CHR ''.'') proof of
        [_, payload_part, _] \<Rightarrow>
          res_bind (dpop_ok_or ''dpop proof payload is not base64url'' (b64_decode J payload_part)) (\<lambda>bytes.
          res_bind (dpop_ok_or ''dpop proof payload is not JSON'' (json_from J bytes)) (\<lambda>payload.
            dpop_ok_or ''dpop proof has no htu claim'' (get_str ''htu'' payload)))
      | _ \<Rightarrow> dpop_err ''dpop proof is not a compact JWS'')"

definition wire_path :: "('k, 'v, 'z) jose_scheme \<Rightarrow> string \<Rightarrow> string option" where
  "wire_path J s = (case url_parse J s of Inr u \<Rightarrow> Some (u_path u) | Inl _ \<Rightarrow> None)"

definition htu_names_the_same_resource :: "('k, 'v, 'z) jose_scheme \<Rightarrow> string \<Rightarrow> string \<Rightarrow> bool" where
  "htu_names_the_same_resource J proof_htu expected =
     (case (wire_path J proof_htu, wire_path J expected) of
        (Some p, Some e) \<Rightarrow> p = e
      | _ \<Rightarrow> False)"

definition proof_alg_is_rs256 :: "('k, 'v, 'z) jose_scheme \<Rightarrow> string \<Rightarrow> bool" where
  "proof_alg_is_rs256 J proof =
     (case split_on (CHR ''.'') proof of
        [] \<Rightarrow> False
      | header_b64 # _ \<Rightarrow> (case decode_jws_segment J header_b64 ''header'' of
          Inl _ \<Rightarrow> False
        | Inr header \<Rightarrow> get_str ''alg'' header = Some RS256_ALG))"

text \<open>The text \<open>serde_json::to_string\<close> gives a map of strings: JSON's escapes, members in key
  order, no space.\<close>

definition hex_digit :: "nat \<Rightarrow> char" where
  "hex_digit n = ''0123456789abcdef'' ! n"

definition json_escape_char :: "char \<Rightarrow> string" where
  "json_escape_char c =
     (let n = of_char c :: nat; bs = CHR 0x5C in
      if n = 0x22 then [bs, CHR 0x22]
      else if n = 0x5C then [bs, bs]
      else if n = 8 then [bs, CHR ''b'']
      else if n = 9 then [bs, CHR ''t'']
      else if n = 10 then [bs, CHR ''n'']
      else if n = 12 then [bs, CHR ''f'']
      else if n = 13 then [bs, CHR ''r'']
      else if n < 32 then [bs, CHR ''u'', CHR ''0'', CHR ''0'', hex_digit (n div 16), hex_digit (n mod 16)]
      else [c])"

definition json_quote :: "string \<Rightarrow> string" where
  "json_quote s = [CHR 0x22] @ concat (map json_escape_char s) @ [CHR 0x22]"

definition json_string_map :: "(string \<times> string) list \<Rightarrow> string" where
  "json_string_map m =
     ''{'' @ join_with '','' (map (\<lambda>(k, v). json_quote k @ '':'' @ json_quote v) m) @ ''}''"

definition thumbprint_rsa :: "('k, 'v, 'z) jose_scheme \<Rightarrow> string \<Rightarrow> string \<Rightarrow> string" where
  "thumbprint_rsa J n_b64 e_b64 =
     b64_encode J (sha256 J (json_string_map [(''e'', e_b64), (''kty'', ''RSA''), (''n'', n_b64)]))"

definition normalized :: "string + string \<Rightarrow> auth_error + string" where
  "normalized r = map_err DpopInvalid r"

definition rs256_key :: "('k, 'v, 'z) jose_scheme \<Rightarrow> json \<Rightarrow> auth_error + (string \<times> string \<times> 'v)" where
  "rs256_key J header =
     (if get_str ''typ'' header \<noteq> Some ''dpop+jwt'' then dpop_err ''dpop proof typ is not dpop+jwt''
      else if get_str ''alg'' header \<noteq> Some RS256_ALG then dpop_err ''dpop proof alg is not RS256''
      else res_bind (dpop_ok_or ''dpop proof header has no jwk'' (json_get ''jwk'' header)) (\<lambda>jwk_value.
        if json_get ''d'' jwk_value \<noteq> None then dpop_err ''dpop proof jwk must not include private key material''
        else if get_str ''kty'' jwk_value \<noteq> Some ''RSA'' then dpop_err ''dpop proof alg RS256 requires an RSA jwk''
        else res_bind (dpop_ok_or ''dpop proof RSA jwk has no n'' (get_str ''n'' jwk_value)) (\<lambda>n.
          res_bind (dpop_ok_or ''dpop proof RSA jwk has no e'' (get_str ''e'' jwk_value)) (\<lambda>e.
          res_bind (dpop_ok_or ''dpop proof jwk is not a JSON object'' (as_object jwk_value)) (\<lambda>jwk_map.
          res_bind (dpop_ok_or ''dpop proof jwk is not a valid JWK'' (jwk_from_map J jwk_map)) (\<lambda>jwk.
          res_bind (dpop_ok_or ''dpop proof jwk is not a usable RS256 verification key'' (rs256_verifier J jwk)) (\<lambda>verifier.
            Inr (n, e, verifier))))))))"

definition rs256_claims :: "('k, 'v, 'z) jose_scheme \<Rightarrow> json \<Rightarrow> auth_error + (string \<times> i64 \<times> string \<times> string)" where
  "rs256_claims J claims =
     res_bind (dpop_ok_or ''dpop proof has no jti claim'' (get_str ''jti'' claims)) (\<lambda>jti.
       if length jti > JTI_MAX_LENGTH then dpop_err ''dpop proof jti is too long''
       else res_bind (dpop_ok_or ''dpop proof has no integer iat claim'' (Option.bind (json_get ''iat'' claims) as_i64)) (\<lambda>iat.
         res_bind (dpop_ok_or ''dpop proof has no htm claim'' (get_str ''htm'' claims)) (\<lambda>htm.
         res_bind (dpop_ok_or ''dpop proof has no htu claim'' (get_str ''htu'' claims)) (\<lambda>htu.
           Inr (jti, iat, htm, htu)))))"

definition verify_rs256_proof ::
  "('k, 'v, 'z) jose_scheme \<Rightarrow> string \<Rightarrow> string \<Rightarrow> string \<Rightarrow> auth_error + verified_dpop" where
  "verify_rs256_proof J proof expected_htu expected_htm =
     (case split_on (CHR ''.'') proof of
        [header_b64, payload_b64, signature_b64] \<Rightarrow>
          res_bind (decode_jws_segment J header_b64 ''header'') (\<lambda>header.
          res_bind (rs256_key J header) (\<lambda>(n, e, verifier).
          res_bind (dpop_ok_or ''dpop proof signature is not base64url'' (b64_decode J signature_b64)) (\<lambda>signature.
            if \<not> jws_verify J verifier (header_b64 @ ''.'' @ payload_b64) signature
            then dpop_err ''invalid DPoP signature''
            else
              (let jkt = thumbprint_rsa J n e in
               res_bind (decode_jws_segment J payload_b64 ''payload'') (\<lambda>claims.
               res_bind (rs256_claims J claims) (\<lambda>(jti, iat, htm, htu).
               res_bind (normalized (normalize_method J htm)) (\<lambda>m.
               res_bind (normalized (normalize_method J expected_htm)) (\<lambda>m'.
                 if m \<noteq> m' then dpop_err ''dpop proof htm does not match the request method''
                 else res_bind (normalized (normalize_htu J htu)) (\<lambda>u.
                   res_bind (normalized (normalize_htu J expected_htu)) (\<lambda>u'.
                   if u \<noteq> u' then dpop_err ''dpop proof htu does not match the request URL''
                   else Inr \<lparr>vd_jkt = jkt, vd_jti = jti, vd_iat = iat\<rparr>))))))))))
      | _ \<Rightarrow> dpop_err ''dpop proof is not a compact JWS'')"

definition proof_claims :: "('k, 'v, 'z) jose_scheme \<Rightarrow> string \<Rightarrow> string \<Rightarrow> string \<Rightarrow> auth_error + verified_dpop" where
  "proof_claims J proof htu htm =
     (if proof_alg_is_rs256 J proof then verify_rs256_proof J proof htu htm
      else map_err DpopInvalid (dpop_verifier J DISABLE_INTERNAL_CLOCK_CHECK_SECONDS
        DISABLE_INTERNAL_CLOCK_CHECK_SECONDS proof htu htm))"

definition verify_dpop ::
  "('k, 'v, 'z) jose_scheme \<Rightarrow> string \<Rightarrow> string \<Rightarrow> string \<Rightarrow> string \<Rightarrow> i64 \<Rightarrow>
     (string \<Rightarrow> i64 \<Rightarrow> ('w, auth_error, unit) op) \<Rightarrow> ('w, auth_error, unit) op" where
  "verify_dpop J proof htu htm expected_jkt now replay =
     op_bind (op_res (proof_claims J proof htu htm)) (\<lambda>verified.
     op_bind (op_res (verified_htu_claim J proof)) (\<lambda>claim.
       if \<not> htu_names_the_same_resource J claim htu
       then op_err (DpopInvalid ''dpop proof htu does not match the request URL exactly'')
       else if sint FUTURE_SKEW_SECONDS < sint (sat_sub (vd_iat verified) now)
       then op_err (DpopInvalid ''DPoP proof iat is too far in the future'')
       else if sint MAX_AGE_SECONDS < sint (sat_sub now (vd_iat verified))
       then op_err (DpopInvalid ''DPoP proof iat is stale'')
       else if vd_jkt verified \<noteq> expected_jkt then op_err Binding
       else replay (vd_jti verified) now))"

section \<open>Access tokens\<close>

record access_claims =
  ac_webid :: string
  ac_jkt :: string
  ac_issuer :: string
  ac_audience :: "string list"

definition decode_segment :: "('k, 'v, 'z) jose_scheme \<Rightarrow> string \<Rightarrow> auth_error + json" where
  "decode_segment J seg =
     res_bind (ok_or (Malformed ''invalid base64url segment'') (b64_decode J seg)) (\<lambda>bytes.
       ok_or (Malformed ''invalid JSON segment'') (json_from J bytes))"

definition peek_untrusted_issuer :: "('k, 'v, 'z) jose_scheme \<Rightarrow> string \<Rightarrow> auth_error + string" where
  "peek_untrusted_issuer J token =
     (case split_on (CHR ''.'') token of
        [_, payload_part, _] \<Rightarrow> res_bind (decode_segment J payload_part) (\<lambda>payload.
          ok_or (Malformed ''missing iss claim'') (get_str ''iss'' payload))
      | _ \<Rightarrow> Inl (Malformed ''not a compact JWS''))"

definition verifier_for :: "('k, 'v, 'z) jose_scheme \<Rightarrow> 'k \<Rightarrow> auth_error + 'v" where
  "verifier_for J jwk =
     (if key_type J jwk = ''RSA'' then ok_or BadSignature (rs256_verifier J jwk)
      else if key_type J jwk = ''EC'' \<and> curve J jwk = Some ''P-256'' then ok_or BadSignature (es256_verifier J jwk)
      else Inl UnsupportedKeyType)"

definition select_key :: "('k, 'v, 'z) jose_scheme \<Rightarrow> 'k list \<Rightarrow> string option \<Rightarrow> auth_error + 'k" where
  "select_key J keys kid =
     (case kid of
        Some kid \<Rightarrow> ok_or MissingKey (find (\<lambda>k. key_id J k = Some kid) keys)
      | None \<Rightarrow> ok_or MissingKey
          (find (\<lambda>k. key_use J k \<in> {None, Some ''sig''} \<and> is_for_key_operation J k ''verify'') keys))"

definition parse_audience :: "json option \<Rightarrow> string list" where
  "parse_audience claim =
     (case claim of
        Some (JString s) \<Rightarrow> [s]
      | Some (JArray values) \<Rightarrow> List.map_filter as_str values
      | _ \<Rightarrow> [])"

definition verified_claims :: "(string \<times> json) list \<Rightarrow> i64 \<Rightarrow> auth_error + access_claims" where
  "verified_claims payload now =
     res_bind (ok_or (Malformed ''missing exp claim'') (Option.bind (map_of payload ''exp'') as_i64)) (\<lambda>exp.
       if sint exp \<le> sint now then Inl Expired
       else res_bind (ok_or (Malformed ''missing webid claim'') (Option.bind (map_of payload ''webid'') as_str)) (\<lambda>webid.
         res_bind (ok_or Binding (Option.bind (map_of payload ''cnf'') (get_str ''jkt''))) (\<lambda>jkt.
         res_bind (ok_or (Malformed ''missing iss claim'') (Option.bind (map_of payload ''iss'') as_str)) (\<lambda>issuer.
           Inr \<lparr>ac_webid = webid, ac_jkt = jkt, ac_issuer = issuer,
                ac_audience = parse_audience (map_of payload ''aud'')\<rparr>))))"

definition verify_access_token ::
  "('k, 'v, 'z) jose_scheme \<Rightarrow> string \<Rightarrow> (string \<Rightarrow> ('w, auth_error, 'k list) op) \<Rightarrow> i64 \<Rightarrow>
     ('w, auth_error, access_claims) op" where
  "verify_access_token J token resolver now =
     (case split_on (CHR ''.'') token of
        [header_part, payload_part, _] \<Rightarrow>
          op_bind (op_res (decode_segment J header_part)) (\<lambda>header.
          op_bind (op_res (decode_segment J payload_part)) (\<lambda>payload.
          op_bind (op_res (ok_or (Malformed ''missing iss claim'') (get_str ''iss'' payload))) (\<lambda>iss.
          op_bind (resolver iss) (\<lambda>keys.
          op_bind (op_res (select_key J keys (get_str ''kid'' header))) (\<lambda>jwk.
          op_bind (op_res (verifier_for J jwk)) (\<lambda>verifier.
          op_bind (op_res (ok_or BadSignature (jwt_decode J token verifier))) (\<lambda>verified_payload.
            op_res (verified_claims verified_payload now))))))))
      | _ \<Rightarrow> op_err (Malformed ''not a compact JWS''))"

section \<open>Authentication\<close>

record auth_config =
  trusted_issuers :: "string set option"
  expected_audience :: "string option"

record ('k, 'w) auth_deps =
  d_resolve :: "string \<Rightarrow> ('w, auth_error, 'k list) op"
  d_authorizes :: "string \<Rightarrow> string \<Rightarrow> ('w, auth_error, bool) op"
  d_config :: auth_config
  d_replay :: "string \<Rightarrow> i64 \<Rightarrow> ('w, auth_error, unit) op"

definition parse_dpop_scheme :: "string option \<Rightarrow> auth_error + string" where
  "parse_dpop_scheme auth_header =
     res_bind (dpop_ok_or ''missing Authorization header'' auth_header) (\<lambda>hdr.
     res_bind (ok_or (Malformed ''malformed Authorization header'') (split_once (CHR '' '') hdr)) (\<lambda>(scheme, token).
       if \<not> eq_ignore_ascii_case scheme ''DPoP''
       then dpop_err (''unsupported Authorization scheme: '' @ scheme)
       else Inr token))"

definition check_trusted :: "('k, 'v, 'z) jose_scheme \<Rightarrow> auth_config \<Rightarrow> string \<Rightarrow> auth_error + unit" where
  "check_trusted J cfg token =
     (case trusted_issuers cfg of
        None \<Rightarrow> Inr ()
      | Some trusted \<Rightarrow> res_bind (peek_untrusted_issuer J token) (\<lambda>untrusted_iss.
          if \<exists>t \<in> trusted. issuer_matches t untrusted_iss then Inr () else Inl UntrustedIssuer))"

definition check_audience :: "auth_config \<Rightarrow> access_claims \<Rightarrow> auth_error + unit" where
  "check_audience cfg claims =
     (case expected_audience cfg of
        None \<Rightarrow> Inr ()
      | Some expected \<Rightarrow> if expected \<in> set (ac_audience claims) then Inr () else Inl WrongAudience)"

definition authenticate ::
  "('k, 'v, 'z) jose_scheme \<Rightarrow> string option \<Rightarrow> string option \<Rightarrow> string \<Rightarrow> string \<Rightarrow> ('k, 'w) auth_deps \<Rightarrow> i64 \<Rightarrow>
     ('w, auth_error, agent) op" where
  "authenticate J auth_header dpop_header htm htu deps now =
     (if auth_header = None \<and> dpop_header = None then op_ok Public
      else
        op_bind (op_res (parse_dpop_scheme auth_header)) (\<lambda>token.
        op_bind (op_res (dpop_ok_or ''missing DPoP proof header'' dpop_header)) (\<lambda>proof.
        op_bind (op_res (check_trusted J (d_config deps) token)) (\<lambda>_.
        op_bind (verify_access_token J token (d_resolve deps) now) (\<lambda>claims.
        op_bind (op_res (check_audience (d_config deps) claims)) (\<lambda>_.
        op_bind (d_authorizes deps (ac_webid claims) (ac_issuer claims)) (\<lambda>authorized.
          if \<not> authorized then op_err IssuerNotAuthorized
          else op_bind (verify_dpop J proof htu htm (ac_jkt claims) now (d_replay deps)) (\<lambda>_.
            op_ok (WebId (ac_webid claims))))))))))"

section \<open>The layer in front of the handlers\<close>

text \<open>A request as far as the layer reads it: header values are bytes, \<open>to_str\<close> refuses
  what is not visible ASCII. The outcome is \<open>401\<close> or the agent the handlers see.\<close>

record raw_request =
  rq_method :: string
  rq_path :: string
  rq_authorization :: "string option"
  rq_dpop :: "string option"

definition to_str :: "string \<Rightarrow> string option" where
  "to_str v = (if list_all (\<lambda>c. let n = of_char c :: nat in 32 \<le> n \<and> n < 127 \<or> n = 9) v then Some v else None)"

definition derive_htu :: "storage_space \<Rightarrow> string \<Rightarrow> string" where
  "derive_htu space raw_path = trim_end_matches (CHR ''/'') (container_iri (space_root space)) @ raw_path"

definition auth_layer ::
  "('k, 'v, 'z) jose_scheme \<Rightarrow> storage_space \<Rightarrow> ('k, 'w) auth_deps \<Rightarrow> i64 \<Rightarrow> raw_request \<Rightarrow> 'w \<Rightarrow> agent option \<times> 'w" where
  "auth_layer J space deps now req w =
     (case authenticate J (Option.bind (rq_authorization req) to_str) (Option.bind (rq_dpop req) to_str)
         (rq_method req) (derive_htu space (rq_path req)) deps now w of
        (Inr agent, w') \<Rightarrow> (Some agent, w')
      | (Inl _, w') \<Rightarrow> (None, w'))"

section \<open>Proofs are bound to their claims\<close>

text \<open>What \<open>dpop-verifier\<close> documents: the claims and the thumbprint it returns are those of the
  proof, whatever request the proof is presented with.\<close>

definition dpop_claims_fixed :: "('k, 'v, 'z) jose_scheme \<Rightarrow> bool" where
  "dpop_claims_fixed J \<longleftrightarrow> (\<forall>age skew proof htu htm htu' htm' v v'.
     dpop_verifier J age skew proof htu htm = Inr v \<longrightarrow> dpop_verifier J age skew proof htu' htm' = Inr v' \<longrightarrow> v' = v)"

lemma dpop_ok_or_Inr [simp]: "ok_or e x = Inr v \<longleftrightarrow> x = Some v" "dpop_ok_or m x = Inr v \<longleftrightarrow> x = Some v"
  by (simp_all add: dpop_ok_or_def ok_or_Inr)

lemma verify_rs256_proofE:
  assumes "verify_rs256_proof J proof htu htm = Inr v"
  obtains h p s hdr n e vf sg claims htm0 htu0 where
    "split_on (CHR ''.'') proof = [h, p, s]" "decode_jws_segment J h ''header'' = Inr hdr"
    "rs256_key J hdr = Inr (n, e, vf)" "b64_decode J s = Some sg" "jws_verify J vf (h @ ''.'' @ p) sg"
    "decode_jws_segment J p ''payload'' = Inr claims"
    "rs256_claims J claims = Inr (vd_jti v, vd_iat v, htm0, htu0)" "vd_jkt v = thumbprint_rsa J n e"
    "normalize_method J htm0 = normalize_method J htm" "normalize_htu J htu0 = normalize_htu J htu"
proof (cases "split_on (CHR ''.'') proof")
  case Nil
  with assms show ?thesis by (simp add: verify_rs256_proof_def)
next
  case h: (Cons h ps)
  show ?thesis
  proof (cases ps)
    case Nil
    with h assms show ?thesis by (simp add: verify_rs256_proof_def)
  next
    case p: (Cons p ss)
    show ?thesis
    proof (cases "\<exists>s. ss = [s]")
      case False
      with h p assms show ?thesis by (auto simp: verify_rs256_proof_def split: list.splits)
    next
      case True
      then obtain s where "split_on (CHR ''.'') proof = [h, p, s]" using h p by auto
      with assms that show ?thesis
        by (auto simp: verify_rs256_proof_def res_bind_Inr Let_def normalized_def map_err_Inr split: if_splits)
    qed
  qed
qed

lemma verify_rs256_proof_fixed:
  assumes "verify_rs256_proof J proof htu htm = Inr v" "verify_rs256_proof J proof htu' htm' = Inr v'"
  shows "v' = v"
  using assms by (elim verify_rs256_proofE) (auto intro!: verified_dpop.equality)

lemma proof_claims_fixed:
  assumes "dpop_claims_fixed J" "proof_claims J proof htu htm = Inr v" "proof_claims J proof htu' htm' = Inr v'"
  shows "v' = v"
  using assms verify_rs256_proof_fixed
  by (auto simp: proof_claims_def map_err_Inr dpop_claims_fixed_def split: if_splits)

lemma fresh_iff:
  "5 < sint (sat_sub iat now) \<longleftrightarrow> \<not> sint iat \<le> sint now + 5"
  "300 < sint (sat_sub now iat) \<longleftrightarrow> \<not> sint now \<le> sint iat + 300"
  using sat_sub_le [of 5 iat now] sat_sub_le [of 300 now iat] by auto

lemma verify_dpop_Inr:
  "verify_dpop J proof htu htm jkt now replay w = (Inr (), w') \<longleftrightarrow>
     (\<exists>v claim. proof_claims J proof htu htm = Inr v \<and> verified_htu_claim J proof = Inr claim \<and>
        htu_names_the_same_resource J claim htu \<and> sint (vd_iat v) \<le> sint now + 5 \<and> sint now \<le> sint (vd_iat v) + 300 \<and>
        vd_jkt v = jkt \<and> replay (vd_jti v) now w = (Inr (), w'))"
  by (cases "proof_claims J proof htu htm"; cases "verified_htu_claim J proof")
     (auto simp: verify_dpop_def fresh_iff)

lemma verify_dpop_world:
  assumes "verify_dpop J proof htu htm jkt now replay w = (r, w')"
  shows "w' = w \<or> (\<exists>jti. replay jti now w = (r, w'))"
  using assms by (cases "proof_claims J proof htu htm"; cases "verified_htu_claim J proof")
     (auto simp: verify_dpop_def split: if_splits)

section \<open>What an authenticated agent has shown\<close>

text \<open>The checks behind \<open>WebId\<close>, with the worlds between them.\<close>

definition token_verified ::
  "('k, 'v, 'z) jose_scheme \<Rightarrow> string \<Rightarrow> ('k, 'w) auth_deps \<Rightarrow> i64 \<Rightarrow> access_claims \<Rightarrow> 'w \<Rightarrow> 'w \<Rightarrow> bool" where
  "token_verified J token deps now claims w w' \<longleftrightarrow> (\<exists>iss keys jwk vf payload exp.
     peek_untrusted_issuer J token = Inr iss \<and> d_resolve deps iss w = (Inr keys, w') \<and> jwk \<in> set keys \<and>
     verifier_for J jwk = Inr vf \<and> jwt_decode J token vf = Some payload \<and>
     Option.bind (map_of payload ''exp'') as_i64 = Some exp \<and> sint now < sint exp \<and>
     Option.bind (map_of payload ''webid'') as_str = Some (ac_webid claims) \<and>
     Option.bind (map_of payload ''cnf'') (get_str ''jkt'') = Some (ac_jkt claims) \<and>
     Option.bind (map_of payload ''iss'') as_str = Some (ac_issuer claims) \<and>
     ac_audience claims = parse_audience (map_of payload ''aud''))"

lemma select_key_in: "select_key J keys kid = Inr jwk \<Longrightarrow> jwk \<in> set keys"
  by (auto simp: select_key_def find_Some_iff split: option.splits)

lemma verified_claims_Inr:
  "verified_claims payload now = Inr claims \<longleftrightarrow> (\<exists>exp.
     Option.bind (map_of payload ''exp'') as_i64 = Some exp \<and> sint now < sint exp \<and>
     Option.bind (map_of payload ''webid'') as_str = Some (ac_webid claims) \<and>
     Option.bind (map_of payload ''cnf'') (get_str ''jkt'') = Some (ac_jkt claims) \<and>
     Option.bind (map_of payload ''iss'') as_str = Some (ac_issuer claims) \<and>
     ac_audience claims = parse_audience (map_of payload ''aud''))"
  by (cases claims; cases "Option.bind (map_of payload ''exp'') as_i64")
     (auto simp: verified_claims_def res_bind_Inr split: if_splits)

lemma verify_access_token_Inr:
  assumes "verify_access_token J token (d_resolve deps) now w = (Inr claims, w')"
  shows "token_verified J token deps now claims w w'"
proof -
  from assms obtain h p s where split: "split_on (CHR ''.'') token = [h, p, s]"
    by (auto simp: verify_access_token_def split: list.splits)
  show ?thesis
    using assms unfolding verify_access_token_def split token_verified_def
    by (auto simp: peek_untrusted_issuer_def split res_bind_Inr verified_claims_Inr
        elim!: op_bind_InrE dest!: select_key_in) blast
qed

lemma parse_dpop_scheme_Inr:
  "parse_dpop_scheme h = Inr token \<longleftrightarrow>
     (\<exists>hdr scheme. h = Some hdr \<and> split_once (CHR '' '') hdr = Some (scheme, token) \<and> eq_ignore_ascii_case scheme ''DPoP'')"
  by (auto simp: parse_dpop_scheme_def res_bind_Inr split: if_splits)

lemma check_trusted_Inr:
  "check_trusted J cfg token = Inr () \<longleftrightarrow> (\<forall>S. trusted_issuers cfg = Some S \<longrightarrow>
     (\<exists>iss t. peek_untrusted_issuer J token = Inr iss \<and> t \<in> S \<and> issuer_matches t iss))"
  by (auto simp: check_trusted_def res_bind_Inr split: option.splits if_splits)

lemma check_audience_Inr:
  "check_audience cfg claims = Inr () \<longleftrightarrow> (\<forall>a. expected_audience cfg = Some a \<longrightarrow> a \<in> set (ac_audience claims))"
  by (auto simp: check_audience_def split: option.splits)

lemma authenticate_Inr:
  assumes "authenticate J ah dh htm htu deps now w = (Inr agent, w')"
  obtains (public) "ah = None" "dh = None" "agent = Public" "w' = w"
  | (webid) token dproof claims w1 w2 where "parse_dpop_scheme ah = Inr token" "dh = Some dproof"
      "check_trusted J (d_config deps) token = Inr ()" "token_verified J token deps now claims w w1"
      "check_audience (d_config deps) claims = Inr ()"
      "d_authorizes deps (ac_webid claims) (ac_issuer claims) w1 = (Inr True, w2)"
      "verify_dpop J dproof htu htm (ac_jkt claims) now (d_replay deps) w2 = (Inr (), w')"
      "agent = WebId (ac_webid claims)"
proof (cases "ah = None \<and> dh = None")
  case True
  with assms public show ?thesis by (simp add: authenticate_def)
next
  case False
  with assms webid show ?thesis
    by (auto simp: authenticate_def elim!: op_bind_InrE dest!: verify_access_token_Inr split: if_splits)
qed

lemma to_str_Some: "to_str v = Some s \<Longrightarrow> s = v"
  by (simp add: to_str_def split: if_splits)

definition webid_shown ::
  "('k, 'v, 'z) jose_scheme \<Rightarrow> ('k, 'w) auth_deps \<Rightarrow> i64 \<Rightarrow> string option \<Rightarrow> string option \<Rightarrow> string \<Rightarrow> string \<Rightarrow>
     string \<Rightarrow> 'w \<Rightarrow> 'w \<Rightarrow> bool" where
  "webid_shown J deps now ah dh htm htu webid w w' \<longleftrightarrow> (\<exists>hdr scheme token proof claims v claim w1 w2.
     ah = Some hdr \<and> split_once (CHR '' '') hdr = Some (scheme, token) \<and> eq_ignore_ascii_case scheme ''DPoP'' \<and>
     dh = Some proof \<and> check_trusted J (d_config deps) token = Inr () \<and>
     token_verified J token deps now claims w w1 \<and> webid = ac_webid claims \<and>
     check_audience (d_config deps) claims = Inr () \<and>
     d_authorizes deps webid (ac_issuer claims) w1 = (Inr True, w2) \<and>
     proof_claims J proof htu htm = Inr v \<and> vd_jkt v = ac_jkt claims \<and>
     verified_htu_claim J proof = Inr claim \<and> wire_path J claim = wire_path J htu \<and> wire_path J htu \<noteq> None \<and>
     sint (vd_iat v) - 5 \<le> sint now \<and> sint now \<le> sint (vd_iat v) + 300 \<and>
     d_replay deps (vd_jti v) now w2 = (Inr (), w'))"

lemma authenticate_webid_shown:
  assumes "authenticate J ah dh htm htu deps now w = (Inr (WebId webid), w')"
  shows "webid_shown J deps now ah dh htm htu webid w w'"
  using assms
proof (cases rule: authenticate_Inr)
  case (webid token dproof claims w1 w2)
  from webid(1) obtain hdr scheme where hdr: "ah = Some hdr" "split_once (CHR '' '') hdr = Some (scheme, token)"
    "eq_ignore_ascii_case scheme ''DPoP''" by (auto simp: parse_dpop_scheme_Inr)
  from webid(7) obtain v claim where v: "proof_claims J dproof htu htm = Inr v"
    "verified_htu_claim J dproof = Inr claim" "htu_names_the_same_resource J claim htu"
    "sint (vd_iat v) \<le> sint now + 5" "sint now \<le> sint (vd_iat v) + 300" "vd_jkt v = ac_jkt claims"
    "d_replay deps (vd_jti v) now w2 = (Inr (), w')" unfolding verify_dpop_Inr by blast
  from v(3) have path: "wire_path J claim = wire_path J htu" "wire_path J htu \<noteq> None"
    by (auto simp: htu_names_the_same_resource_def split: option.splits)
  have "sint (vd_iat v) - 5 \<le> sint now" using v(4) by simp
  moreover from webid(8) have "ac_webid claims = webid" by simp
  ultimately show ?thesis using hdr webid v path unfolding webid_shown_def by metis
qed simp_all

lemma authenticate_public: "authenticate J None None htm htu deps now w = (Inr Public, w)"
  by (simp add: authenticate_def)

lemma auth_layer_public_iff:
  assumes "auth_layer J space deps now req w = (Some agent, w')"
  shows "agent = Public \<longleftrightarrow> Option.bind (rq_authorization req) to_str = None \<and> Option.bind (rq_dpop req) to_str = None"
    and "agent = Public \<Longrightarrow> w' = w"
  using assms by (auto simp: auth_layer_def split: prod.splits sum.splits elim!: authenticate_Inr)


section \<open>A proof is good for one request\<close>

fun served ::
  "('k, 'v, 'z) jose_scheme \<Rightarrow> storage_space \<Rightarrow> ('k, 'w) auth_deps \<Rightarrow> 'w \<Rightarrow> (i64 \<times> raw_request) list \<Rightarrow> 'w" where
  "served J space deps w [] = w"
| "served J space deps w ((t, r) # rs) = served J space deps (snd (auth_layer J space deps t r w)) rs"

text \<open>The collaborators of \<open>authenticate\<close> over one shared world: resolving keys and profiles leaves
  the replay set alone, which only \<open>record_or_reject\<close> moves.\<close>

locale auth_backend = jti_replay_store ror seen
  for ror :: "'p \<Rightarrow> string \<Rightarrow> i64 \<Rightarrow> (auth_error + unit) \<times> 'p" and seen :: "'p \<Rightarrow> string \<Rightarrow> i64 \<Rightarrow> bool" +
  fixes deps :: "('k, 'w) auth_deps" and replay_of :: "'w \<Rightarrow> 'p"
  assumes resolve_frame: "d_resolve deps iss w = (r1, w') \<Longrightarrow> replay_of w' = replay_of w"
    and authorizes_frame: "d_authorizes deps webid iss w = (r2, w') \<Longrightarrow> replay_of w' = replay_of w"
    and replay_step: "d_replay deps j t w = (r3, w') \<Longrightarrow> ror (replay_of w) j t = (r3, replay_of w')"
begin

lemma verify_access_token_frame:
  assumes "verify_access_token J token (d_resolve deps) now w = (r, w')"
  shows "replay_of w' = replay_of w"
proof (cases "\<exists>h p s. split_on (CHR ''.'') token = [h, p, s]")
  case False
  with assms show ?thesis by (auto simp: verify_access_token_def split: list.splits)
next
  case True
  then obtain h p s where "split_on (CHR ''.'') token = [h, p, s]" by blast
  with assms show ?thesis
    by (auto simp: verify_access_token_def dest: resolve_frame elim!: op_bind_cases)
qed

lemma authenticate_world:
  assumes "authenticate J ah dh htm htu deps now w = (r, w')"
  shows "replay_of w' = replay_of w \<or> (\<exists>jti. replay_of w' = snd (ror (replay_of w) jti now))"
proof -
  have dpop: "replay_of v' = replay_of v \<or> (\<exists>jti. replay_of v' = snd (ror (replay_of v) jti now))"
    if "verify_dpop J dproof htu htm jkt now (d_replay deps) v = (q, v')" for dproof jkt v v' q
    using verify_dpop_world [OF that] by (auto dest: replay_step) (metis replay_step snd_conv)
  show ?thesis
    using assms unfolding authenticate_def
    by (auto split: if_splits elim!: op_bind_cases dest!: dpop verify_access_token_frame authorizes_frame) blast+
qed

lemma auth_layer_world:
  "replay_of (snd (auth_layer J space deps t req w)) = replay_of w \<or>
   (\<exists>jti. replay_of (snd (auth_layer J space deps t req w)) = snd (ror (replay_of w) jti t))"
  by (auto simp: auth_layer_def split: prod.splits sum.splits dest!: authenticate_world)

lemma seen_served:
  assumes "seen (replay_of w) j s" "\<forall>(t, r) \<in> set reqs. sint t \<le> sint s + 305"
  shows "seen (replay_of (served J space deps w reqs)) j s"
  using assms
proof (induction reqs arbitrary: w)
  case (Cons tr reqs)
  obtain t req where tr: "tr = (t, req)" by (cases tr)
  have "seen (replay_of (snd (auth_layer J space deps t req w))) j s"
    using auth_layer_world [of J space t req w] Cons.prems keeps [OF Cons.prems(1)] by (auto simp: tr)
  with Cons show ?case by (simp add: tr)
qed simp

lemma auth_layer_webid:
  assumes "auth_layer J space deps t req w = (Some (WebId a), w')"
  obtains dproof v htu htm where "rq_dpop req = Some dproof" "to_str dproof = Some dproof" "proof_claims J dproof htu htm = Inr v"
    "sint (vd_iat v) \<le> sint t + 5" "sint t \<le> sint (vd_iat v) + 300"
    "\<exists>w1. replay_of w1 = replay_of w \<and> ror (replay_of w) (vd_jti v) t = (Inr (), replay_of w')"
proof -
  have "webid_shown J deps t (Option.bind (rq_authorization req) to_str) (Option.bind (rq_dpop req) to_str)
      (rq_method req) (derive_htu space (rq_path req)) a w w'"
    using assms by (auto simp: auth_layer_def split: prod.splits sum.splits intro: authenticate_webid_shown)
  then obtain dproof v claims token w1 w2 where
    p: "Option.bind (rq_dpop req) to_str = Some dproof"
      "proof_claims J dproof (derive_htu space (rq_path req)) (rq_method req) = Inr v"
      "sint (vd_iat v) \<le> sint t + 5" "sint t \<le> sint (vd_iat v) + 300"
    and w: "token_verified J token deps t claims w w1" "d_authorizes deps a (ac_issuer claims) w1 = (Inr True, w2)"
      "d_replay deps (vd_jti v) t w2 = (Inr (), w')"
    unfolding webid_shown_def by (auto simp: algebra_simps)
  have "replay_of w2 = replay_of w"
    using w(1,2) unfolding token_verified_def by (metis resolve_frame authorizes_frame)
  with replay_step [OF w(3)] have "ror (replay_of w) (vd_jti v) t = (Inr (), replay_of w')" by simp
  with p that show ?thesis
    by (auto simp: bind_eq_Some_conv dest: to_str_Some) (metis to_str_Some)
qed

lemma never_twice:
  assumes fixed: "dpop_claims_fixed J"
    and first: "auth_layer J space deps s req w = (Some (WebId a), w1)"
    and hist: "\<forall>(t, r) \<in> set reqs. sint t \<le> sint now"
    and same: "rq_dpop req' = rq_dpop req"
  shows "fst (auth_layer J space deps now req' (served J space deps w1 reqs)) = None"
proof (rule ccontr)
  let ?w = "served J space deps w1 reqs"
  assume "fst (auth_layer J space deps now req' ?w) \<noteq> None"
  then obtain b w2 where again: "auth_layer J space deps now req' ?w = (Some b, w2)"
    by (metis not_None_eq prod.collapse)
  from first obtain dproof v htu htm where v: "rq_dpop req = Some dproof" "to_str dproof = Some dproof"
      "proof_claims J dproof htu htm = Inr v" "sint (vd_iat v) \<le> sint s + 5"
      "ror (replay_of w) (vd_jti v) s = (Inr (), replay_of w1)"
    by (elim auth_layer_webid) blast
  have "b \<noteq> Public" using auth_layer_public_iff [OF again] v(1,2) same by simp
  then obtain a' where "auth_layer J space deps now req' ?w = (Some (WebId a'), w2)" using again by (cases b) auto
  then obtain v' htu' htm' where v': "proof_claims J dproof htu' htm' = Inr v'" "sint now \<le> sint (vd_iat v') + 300"
      "fst (ror (replay_of ?w) (vd_jti v') now) = Inr ()"
    using v(1) same by (elim auth_layer_webid) auto
  have "v' = v" using proof_claims_fixed [OF fixed v(3) v'(1)] .
  with v v' have late: "sint now \<le> sint s + 305" by simp
  with hist have "\<forall>(t, r) \<in> set reqs. sint t \<le> sint s + 305" by auto
  with records [of "replay_of w" "vd_jti v" s] v(5) have "seen (replay_of ?w) (vd_jti v) s"
    by (intro seen_served) auto
  from rejects [OF this late] v'(3) \<open>v' = v\<close> show False by simp
qed

end

section \<open>The collaborators the server is started with\<close>

text \<open>The wiring of \<^verbatim>\<open>src/main.rs\<close>: keys and profiles over guarded HTTP, replay in memory.\<close>

record ('n, 'k) auth_world =
  aw_net :: 'n
  aw_jwks :: "'k list cache_state"
  aw_webids :: "string list cache_state"
  aw_replay :: replay_set

definition pod_deps ::
  "('k, 'v, 'z) jose_scheme \<Rightarrow> 'n network \<Rightarrow> fetch_policy \<Rightarrow> rdf_parser \<Rightarrow> (rdf_error \<Rightarrow> string) \<Rightarrow>
     (json \<Rightarrow> 'k list option) \<Rightarrow> (string list \<Rightarrow> string list) \<Rightarrow> ('n \<Rightarrow> nat) \<Rightarrow> auth_config \<Rightarrow>
     ('k, ('n, 'k) auth_world) auth_deps" where
  "pod_deps J N pol parser show_err keys_from iter clock cfg =
     \<lparr>d_resolve = (\<lambda>issuer w.
        case http_jwks_resolve N pol (json_from J) keys_from iter clock issuer (aw_net w, aw_jwks w) of
          (r, (n, st)) \<Rightarrow> (r, w\<lparr>aw_net := n, aw_jwks := st\<rparr>)),
      d_authorizes = (\<lambda>webid issuer w.
        case http_authorizes N pol parser show_err iter clock webid issuer (aw_net w, aw_webids w) of
          (r, (n, st)) \<Rightarrow> (r, w\<lparr>aw_net := n, aw_webids := st\<rparr>)),
      d_config = cfg,
      d_replay = (\<lambda>jti now w.
        case record_or_reject (sha256 J) (aw_replay w) jti now of (r, rs) \<Rightarrow> (r, w\<lparr>aw_replay := rs\<rparr>))\<rparr>"

interpretation deployed: auth_backend "record_or_reject (sha256 J)" "remembers (sha256 J)"
    "pod_deps J N pol parser show_err keys_from iter clock cfg" aw_replay
  for J N pol parser show_err keys_from iter clock cfg
  by unfold_locales (auto simp: pod_deps_def split: prod.splits)

text \<open>C12: No proof is accepted twice. Once a request has been authenticated with a DPoP proof at
  time \<open>s\<close>, then after any sequence of further requests, as long as the clock has not been
  read later than \<open>now\<close>, a request carrying that proof again, with any token, method or URL,
  is answered \<open>401\<close> at \<open>now\<close>: within the freshness window because the replay set remembers the
  proof, after it because the proof is stale.\<close>

theorem dpop_no_replay:
  assumes "dpop_claims_fixed J"
    and "deps = pod_deps J N pol parser show_err keys_from iter clock cfg"
    and "auth_layer J space deps s req w = (Some (WebId a), w1)"
    and "\<forall>(t, r) \<in> set reqs. sint t \<le> sint now" and "rq_dpop req' = rq_dpop req"
  shows "fst (auth_layer J space deps now req' (served J space deps w1 reqs)) = None"
  unfolding assms(2) by (rule deployed.never_twice [OF assms(1) assms(3) [unfolded assms(2)] assms(4,5)])

text \<open>Example: one issuer and one profile already resolved, every signature valid.\<close>

definition ex_jose :: "(unit, unit) jose" where
  "ex_jose = \<lparr>b64_decode = Some, b64_encode = id,
     json_from = (\<lambda>_. Some (JObject [(''iss'', JString ''https://i''), (''htu'', JString ''http://h/a'')])),
     sha256 = id, jwk_from_map = (\<lambda>_. None), key_type = (\<lambda>_. ''EC''), curve = (\<lambda>_. Some ''P-256''),
     key_id = (\<lambda>_. None), key_use = (\<lambda>_. None), is_for_key_operation = (\<lambda>_ _. True),
     rs256_verifier = (\<lambda>_. None), es256_verifier = Some, jws_verify = (\<lambda>_ _ _. True),
     jwt_decode = (\<lambda>_ _. Some [(''exp'', JNumber (PosInt 2000)), (''webid'', JString ''w''),
       (''cnf'', JObject [(''jkt'', JString ''t'')]), (''iss'', JString ''https://i'')]),
     dpop_verifier = (\<lambda>_ _ p _ _. Inr \<lparr>vd_jkt = ''t'', vd_jti = p, vd_iat = 1000\<rparr>),
     normalize_method = Inr, normalize_htu = Inr,
     url_parse = (\<lambda>_. Inr \<lparr>u_scheme = ''http'', u_host = Some ''h'', u_port = Some 80, u_path = ''/a'',
       u_username = [], u_password = None, u_query = None, u_fragment = None\<rparr>)\<rparr>"

definition ex_auth_world :: "(nat, unit) auth_world" where
  "ex_auth_world = \<lparr>aw_net = 0, aw_jwks = empty_cache\<lparr>c_positive := [(''https://i'', ([()], 0))]\<rparr>,
     aw_webids = empty_cache\<lparr>c_positive := [(''w'', ([''https://i/''], 0))]\<rparr>, aw_replay = new_replay_set\<rparr>"

definition ex_deps :: "(unit, (nat, unit) auth_world) auth_deps" where
  "ex_deps = pod_deps ex_jose ex_network (with_insecure_hosts ex_network []) (\<lambda>_ _ _. Inl []) (\<lambda>_. []) (\<lambda>_. None)
     id id \<lparr>trusted_issuers = None, expected_audience = None\<rparr>"

definition ex_pod :: storage_space where "ex_pod = \<lparr>s_base = ''http://h/''\<rparr>"

definition ex_request :: raw_request where
  "ex_request = \<lparr>rq_method = ''GET'', rq_path = ''/a'', rq_authorization = Some ''dpop h.p.s'', rq_dpop = Some ''x.y.z''\<rparr>"

lemma ex_resolve: "d_resolve ex_deps ''https://i'' ex_auth_world = (Inr [()], ex_auth_world)"
  by (simp add: ex_deps_def pod_deps_def http_jwks_resolve_def cached_fetch_def ex_auth_world_def
      JWKS_CACHE_TTL_def from_secs_def)

lemma ex_authorizes: "d_authorizes ex_deps ''w'' ''https://i'' ex_auth_world = (Inr True, ex_auth_world)"
  by (simp add: ex_deps_def pod_deps_def http_authorizes_def cached_fetch_def ex_auth_world_def op_bind_def
      WEBID_CACHE_TTL_def from_secs_def issuer_matches_def trim_end_matches_def)

lemma ex_replay: "fst (d_replay ex_deps ''x.y.z'' 1000 ex_auth_world) = Inr ()"
  by (simp add: ex_deps_def pod_deps_def ex_auth_world_def record_or_reject_def evict_def new_replay_set_def Let_def
      split: prod.splits)

lemma ex_accepted:
  "fst (auth_layer ex_jose ex_pod ex_deps 1000 ex_request ex_auth_world) = Some (WebId ''w'')"
proof -
  have headers: "parse_dpop_scheme (Some ''dpop h.p.s'') = Inr ''h.p.s''"
    "to_str ''dpop h.p.s'' = Some ''dpop h.p.s''" "to_str ''x.y.z'' = Some ''x.y.z''"
    by code_simp+
  have cfg: "d_config ex_deps = \<lparr>trusted_issuers = None, expected_audience = None\<rparr>"
    by (simp add: ex_deps_def pod_deps_def)
  have token: "verify_access_token ex_jose ''h.p.s'' (d_resolve ex_deps) 1000 ex_auth_world =
      (Inr \<lparr>ac_webid = ''w'', ac_jkt = ''t'', ac_issuer = ''https://i'', ac_audience = []\<rparr>, ex_auth_world)"
    by (simp add: verify_access_token_def decode_segment_def ex_jose_def get_str_def json_get_def as_str_def ex_resolve
        select_key_def verifier_for_def verified_claims_def as_i64_def parse_audience_def ok_or_def res_bind_def op_bind_def)
  have "verify_dpop ex_jose ''x.y.z'' (derive_htu ex_pod ''/a'') ''GET'' ''t'' 1000 (d_replay ex_deps) ex_auth_world =
      d_replay ex_deps ''x.y.z'' 1000 ex_auth_world"
    by (simp add: verify_dpop_def proof_claims_def proof_alg_is_rs256_def verified_htu_claim_def decode_jws_segment_def
        htu_names_the_same_resource_def wire_path_def ex_jose_def get_str_def json_get_def as_str_def
        dpop_ok_or_def ok_or_def res_bind_def op_bind_def map_err_def fresh_iff)
  with ex_replay ex_authorizes headers cfg token show ?thesis
    by (auto simp: auth_layer_def authenticate_def ex_request_def dpop_ok_or_def ok_or_def check_trusted_def
        check_audience_def op_bind_def split: prod.splits sum.splits)
qed

lemma ex_claims_fixed: "dpop_claims_fixed ex_jose"
  by (simp add: dpop_claims_fixed_def ex_jose_def)

lemma ex_accepted_pair:
  "auth_layer ex_jose ex_pod ex_deps 1000 ex_request ex_auth_world =
     (Some (WebId ''w''), snd (auth_layer ex_jose ex_pod ex_deps 1000 ex_request ex_auth_world))"
  using ex_accepted by (metis prod.collapse)


theorem dpop_no_replay_witness:
  "fst (auth_layer ex_jose ex_pod ex_deps 1200 ex_request
     (served ex_jose ex_pod ex_deps (snd (auth_layer ex_jose ex_pod ex_deps 1000 ex_request ex_auth_world))
        [(1100, ex_request\<lparr>rq_dpop := Some ''u.v.w''\<rparr>)])) = None"
  by (rule dpop_no_replay [OF ex_claims_fixed ex_deps_def ex_accepted_pair]) simp_all

end
