(* ===== verification/Edge.thy ===== *)
theory Edge
  imports Guards Credentials
begin

text \<open>
  The vocabulary of the HTTP edge, the first half of \<^verbatim>\<open>src/http.rs\<close>: requests and replies, the
  headers a reply carries, what a refusal costs, entity tags and conditional requests, and the
  classification of a body. A reply whose body is the display text of an error keeps the error
  itself. The \<open>expect\<close>s on header values made of IRIs, tags and static text are taken not to
  fire; any other panic is the reply \<open>panicked\<close>, which is never sent.
\<close>

section \<open>Replies\<close>

type_synonym headers = "(string \<times> string) list"

definition hdr_insert :: "string \<Rightarrow> string \<Rightarrow> headers \<Rightarrow> headers" where
  "hdr_insert n v hs = filter (\<lambda>h. fst h \<noteq> n) hs @ [(n, v)]"

definition hdr_append :: "string \<Rightarrow> string \<Rightarrow> headers \<Rightarrow> headers" where
  "hdr_append n v hs = hs @ [(n, v)]"

datatype shape_error =
    Unparsable string
  | Unsupported string
  | ShapeMissing
  | Engine string
  | ShapeResource resource_error

datatype cause =
    CauseResource resource_error
  | CausePatch patch_error
  | CauseAux aux_error
  | CauseShape shape_error
  | CauseRdf rdf_error
  | CauseConflict string "pattern list"

datatype body = NoBody | Bytes string | Text string | Because cause

record reply =
  re_status :: nat
  re_headers :: headers
  re_body :: body

definition status_reply :: "nat \<Rightarrow> reply" where
  "status_reply s = \<lparr>re_status = s, re_headers = [], re_body = NoBody\<rparr>"

definition text_reply :: "nat \<Rightarrow> string \<Rightarrow> reply" where
  "text_reply s m = \<lparr>re_status = s, re_headers = [], re_body = Text m\<rparr>"

definition cause_reply :: "nat \<Rightarrow> cause \<Rightarrow> reply" where
  "cause_reply s c = \<lparr>re_status = s, re_headers = [], re_body = Because c\<rparr>"

definition panicked :: reply where "panicked = status_reply 0"

definition INTERNAL_ERROR_BODY :: string where "INTERNAL_ERROR_BODY = ''internal server error''"

definition internal_error :: reply where
  "internal_error = text_reply 500 INTERNAL_ERROR_BODY"

definition is_success :: "nat \<Rightarrow> bool" where
  "is_success s \<longleftrightarrow> 200 \<le> s \<and> s < 300"

definition header_get :: "headers \<Rightarrow> string \<Rightarrow> string option" where
  "header_get hs n = Option.bind (map_of hs n) to_str"

definition header_str :: "headers \<Rightarrow> string \<Rightarrow> string" where
  "header_str hs n = (case header_get hs n of Some v \<Rightarrow> v | None \<Rightarrow> [])"

section \<open>The server\<close>

text \<open>\<open>AppState\<close> with the third-party functions its handlers call: the RDF parsers and writers,
  the N-Quads text of a quad, \<open>BlankNode::new\<close>, the parsers of quality values and of N3, and the
  three calls into the SHACL engine.\<close>

record ('db, 'bl) server =
  sv_env :: "('db, 'bl) env"
  sv_space :: storage_space
  sv_parser :: rdf_parser
  sv_writer :: rdf_writer
  sv_show_quad :: "quad \<Rightarrow> string"
  sv_valid_blank :: "string \<Rightarrow> bool"
  sv_f32 :: "string \<Rightarrow> f32 option"
  sv_n3 :: "string \<Rightarrow> iri \<Rightarrow> string + n3_quad list"
  sv_load_data :: "string \<Rightarrow> string + unit"
  sv_load_shapes :: "string \<Rightarrow> string + unit"
  sv_validate :: "string \<Rightarrow> string \<Rightarrow> string + string"
  sv_show_rdf_error :: "rdf_error \<Rightarrow> string"
  sv_show_term :: "rdf_term \<Rightarrow> string"

definition sv_version :: "('db, 'bl) server \<Rightarrow> rdf_version" where
  "sv_version S = b_version (e_store (sv_env S))"

definition sv_etag :: "('db, 'bl) server \<Rightarrow> skolemized \<Rightarrow> format \<Rightarrow> rdf_version \<Rightarrow> string" where
  "sv_etag S = etag (e_sha (sv_env S)) (sv_show_quad S)"

definition sv_visible :: "('db, 'bl) server \<Rightarrow> skolemized \<Rightarrow> dataset" where
  "sv_visible S = deskolemize (sv_valid_blank S)"

definition classify :: "('db, 'bl) server \<Rightarrow> string \<Rightarrow> nat + target" where
  "classify S path = map_err (\<lambda>e. case e of Reserved \<Rightarrow> 404 | _ \<Rightarrow> 400)
     (resolve (e_valid_iri (sv_env S)) (sv_space S) path)"

section \<open>Headers of a reply\<close>

fun show_nat :: "nat \<Rightarrow> string" where
  "show_nat n = (if n < 10 then [char_of (48 + n)] else show_nat (n div 10) @ [char_of (48 + n mod 10)])"

definition dq :: string where "dq = [CHR 0x22]"

definition aux_links :: "target \<Rightarrow> string option" where
  "aux_links t =
     (case t of
        Aux _ \<Rightarrow> None
      | _ \<Rightarrow> Some (join_with '', '' (map (\<lambda>k.
          ''<'' @ a_iri (url_aux (target_subject t) k) @ ''>; rel='' @ dq @ link_rel k @ dq) aux_kind_all)))"

definition with_aux_links :: "target \<Rightarrow> reply \<Rightarrow> reply" where
  "with_aux_links t r =
     (case aux_links t of
        None \<Rightarrow> r
      | Some v \<Rightarrow> r\<lparr>re_headers := hdr_append ''link'' v (re_headers r)\<rparr>)"

definition allowed_methods :: "target \<Rightarrow> string" where
  "allowed_methods t =
     (case t of
        Container c \<Rightarrow> if parent (as_resource c) = None then ''GET, HEAD, POST, PUT, PATCH, OPTIONS''
          else ''GET, HEAD, POST, PUT, PATCH, DELETE, OPTIONS''
      | _ \<Rightarrow> ''GET, HEAD, PUT, PATCH, DELETE, OPTIONS'')"

definition ACCEPT_PATCH :: string where "ACCEPT_PATCH = ''text/n3''"

datatype write_method = WPut | WPost

fun accepts_blobs :: "target \<Rightarrow> write_method \<Rightarrow> bool option" where
  "accepts_blobs (Container _) WPost = Some True"
| "accepts_blobs (Resource _) WPut = Some True"
| "accepts_blobs (Container _) WPut = Some False"
| "accepts_blobs (Aux _) WPut = Some False"
| "accepts_blobs _ WPost = None"

definition accept_write :: "target \<Rightarrow> write_method \<Rightarrow> rdf_version \<Rightarrow> string option" where
  "accept_write t m version = map_option (\<lambda>blobs.
     join_with '', '' (concat (map (\<lambda>f.
         format_media_type f # (if version > Rdf11
           then [format_media_type f @ '';version='' @ version_label version] else [])) format_all)
       @ (if blobs then [''*/*''] else []))) (accepts_blobs t m)"

definition insert_opt :: "string \<Rightarrow> string option \<Rightarrow> headers \<Rightarrow> headers" where
  "insert_opt n v hs = (case v of None \<Rightarrow> hs | Some x \<Rightarrow> hdr_insert n x hs)"

definition with_allow :: "target \<Rightarrow> rdf_version \<Rightarrow> reply \<Rightarrow> reply" where
  "with_allow t version r = r\<lparr>re_headers :=
     insert_opt ''accept-post'' (accept_write t WPost version)
       (insert_opt ''accept-put'' (accept_write t WPut version)
         (hdr_insert ''accept-patch'' ACCEPT_PATCH
           (hdr_insert ''allow'' (allowed_methods t) (re_headers r))))\<rparr>"

definition wac_group :: "access_modes \<Rightarrow> string" where
  "wac_group m = join_with '' '' (map snd (filter (\<lambda>(mode, _). allows m mode)
     [(Read, ''read''), (Write, ''write''), (Append, ''append''), (Control, ''control'')]))"

definition wac_allow_value :: "decision \<Rightarrow> string" where
  "wac_allow_value d = ''user='' @ dq @ wac_group (d_user d) @ dq @ '',public='' @ dq @ wac_group (d_public d) @ dq"

definition with_read_headers :: "target \<Rightarrow> decision \<Rightarrow> rdf_version \<Rightarrow> reply \<Rightarrow> reply" where
  "with_read_headers t d version r =
     (let res = with_allow t version (with_aux_links t r) in
      res\<lparr>re_headers := hdr_insert ''wac-allow'' (wac_allow_value d) (re_headers res)\<rparr>)"

definition created :: "target \<Rightarrow> reply" where
  "created t = with_aux_links t ((status_reply 201)\<lparr>re_headers := [(''location'', target_iri t)]\<rparr>)"

section \<open>A list that grants nothing\<close>

definition acl_grants_nothing_message :: "iri \<Rightarrow> iri \<Rightarrow> bool \<Rightarrow> bool \<Rightarrow> string" where
  "acl_grants_nothing_message acl subject is_container is_root =
     ''The ACL at '' @ acl @ '' grants no access to anyone, so every request for ''
     @ subject @ (if is_container then '' and everything below it'' else [])
     @ '' is now denied, including the Control needed to remove this ACL.''
     @ (if is_root then '' Recovery requires restarting the server with --reset-root-acl.'' else [])"

definition warning_header :: "('db, 'bl) env \<Rightarrow> string \<Rightarrow> string option" where
  "warning_header E m =
     (if CHR 0x22 \<in> set m \<or> CHR 0x5C \<in> set m then None
      else let v = ''199 - '' @ dq @ m @ dq in if e_header_ok E v then Some v else None)"

definition warn_if_acl_grants_nothing ::
  "('db, 'bl) server \<Rightarrow> aux_url \<Rightarrow> triple list \<Rightarrow> reply \<Rightarrow> reply" where
  "warn_if_acl_grants_nothing S a triples res =
     (if a_kind a \<noteq> Acl then res
      else if grants_anything triples (r_iri (a_subject a)) then res
      else res\<lparr>re_headers := insert_opt ''warning'' (warning_header (sv_env S)
          (acl_grants_nothing_message (a_iri a) (r_iri (a_subject a))
            (as_container (a_subject a) \<noteq> None)
            (r_iri (a_subject a) = container_iri (space_root (sv_space S))))) (re_headers res)\<rparr>)"

fun is_resource :: "target \<Rightarrow> bool" where
  "is_resource (Resource _) = True"
| "is_resource _ = False"

fun is_container :: "target \<Rightarrow> bool" where
  "is_container (Container _) = True"
| "is_container _ = False"

section \<open>What a refusal costs\<close>

definition put_status :: "resource_error \<Rightarrow> nat" where
  "put_status e = (case e of StoreErr _ \<Rightarrow> 500 | BlobErr _ \<Rightarrow> 500 | _ \<Rightarrow> 400)"

definition put_error :: "resource_error \<Rightarrow> reply" where
  "put_error e =
     (if e = Panicked then panicked
      else if put_status e = 500 then internal_error
      else cause_reply (put_status e) (CauseResource e))"

definition DPOP_CHALLENGE :: string where "DPOP_CHALLENGE = ''DPoP algs='' @ dq @ ''ES256 RS256'' @ dq"

definition SLASH_PAIR_MESSAGE :: string where
  "SLASH_PAIR_MESSAGE =
     ''another resource already exists whose URI differs from this one only in the trailing slash''"

definition AUX_SUBJECT_MISSING_MESSAGE :: string where
  "AUX_SUBJECT_MISSING_MESSAGE = ''an auxiliary resource cannot be created for a resource that does not exist''"

definition denial_reply :: "denial \<Rightarrow> reply" where
  "denial_reply d =
     (case d of
        Unauthenticated \<Rightarrow> (status_reply 401)\<lparr>re_headers := [(''www-authenticate'', DPOP_CHALLENGE)]\<rparr>
      | Forbidden \<Rightarrow> status_reply 403
      | AuxSubjectMissing \<Rightarrow> text_reply 404 AUX_SUBJECT_MISSING_MESSAGE
      | SlashPair \<Rightarrow> text_reply 409 SLASH_PAIR_MESSAGE
      | StoreDenied e \<Rightarrow> internal_error)"

definition refused :: "target \<Rightarrow> denial \<Rightarrow> reply" where
  "refused t d = with_aux_links t (denial_reply d)"

section \<open>Entity tags and conditional requests\<close>

definition SERVABLE :: "string list" where
  "SERVABLE = [''text/turtle'', ''application/n-triples'', ''application/ld+json'', ''application/trig'', ''application/n-quads'']"

definition blob_etag :: "('db, 'bl) env \<Rightarrow> string \<Rightarrow> string" where
  "blob_etag E bytes = dq @ e_sha E bytes @ dq"

definition bl_get :: "('db, 'bl) env \<Rightarrow> string \<Rightarrow> (('db, 'bl) world, resource_error, string option) op" where
  "bl_get E key w = (map_err BlobErr (blobs_get (e_objects E) (w_blobs w) key), w)"

definition ground_dataset :: "triple list \<Rightarrow> skolemized option" where
  "ground_dataset ts = from_store (as_quads ts)"

definition etag_candidates :: "('db, 'bl) server \<Rightarrow> skolemized \<Rightarrow> string list" where
  "etag_candidates S stored =
     (let held = dataset_version (sv_visible S stored);
          versions = (if held = Rdf11 then [Rdf11] else [Rdf11, held])
      in concat (map (\<lambda>f. map (sv_etag S stored f) versions) (List.map_filter from_content_type SERVABLE)))"

definition current_tags ::
  "('db, 'bl) server \<Rightarrow> target \<Rightarrow> (('db, 'bl) world, resource_error, string list option) op" where
  "current_tags S t =
     (let E = sv_env S in
      case t of
        Resource r \<Rightarrow> op_bind (kind_of E (r_iri r)) (\<lambda>kind.
          case kind of
            Some (KindBinary _) \<Rightarrow>
              (case blob_key (e_path_from E) r of
                 None \<Rightarrow> op_ok None
               | Some key \<Rightarrow> op_bind (bl_get E key) (\<lambda>b. op_ok (map_option (\<lambda>b. [blob_etag E b]) b)))
          | _ \<Rightarrow> op_bind (get_dataset E (r_iri r)) (\<lambda>stored. op_ok (map_option (etag_candidates S) stored)))
      | _ \<Rightarrow> op_bind (get_rdf E (target_iri t)) (\<lambda>triples.
          case triples of
            None \<Rightarrow> op_ok None
          | Some ts \<Rightarrow> (case ground_dataset ts of
              None \<Rightarrow> op_err Panicked
            | Some ground \<Rightarrow> op_ok (Some (etag_candidates S ground)))))"

definition check_conditionals ::
  "('db, 'bl) server \<Rightarrow> headers \<Rightarrow> target \<Rightarrow> (('db, 'bl) world, reply, unit) op" where
  "check_conditionals S hs t =
     (if map_of hs ''if-match'' = None \<and> map_of hs ''if-none-match'' = None then op_ok ()
      else op_bind (op_map_err put_error (current_tags S t)) (\<lambda>tags.
        if (case header_get hs ''if-match'' of
              Some im \<Rightarrow> \<not> (case tags of Some ts \<Rightarrow> im \<in> set ts | None \<Rightarrow> False)
            | None \<Rightarrow> False)
        then op_err (status_reply 412)
        else if header_get hs ''if-none-match'' = Some ''*'' \<and> tags \<noteq> None then op_err (status_reply 412)
        else op_ok ()))"

section \<open>Request bodies\<close>

datatype repr = ReprRdf dataset format rdf_version | ReprBlob string media_type_rec

definition classify_body :: "('db, 'bl) server \<Rightarrow> headers \<Rightarrow> string \<Rightarrow> target \<Rightarrow> reply + repr" where
  "classify_body S hs bytes t =
     (let ct = trim (header_str hs ''content-type'') in
      if ct = [] then
        if bytes \<noteq> [] then Inl (text_reply 400 ''Content-Type is required'') else Inl (status_reply 415)
      else case from_content_type ct of
        Some fmt \<Rightarrow>
          (case from_media_type ct of
             None \<Rightarrow> Inl (status_reply 415)
           | Some declared \<Rightarrow>
               if declared > sv_version S
               then Inl (text_reply 415 (''this pod's store holds RDF '' @ version_label (sv_version S) @ '' at most''))
               else map_err (\<lambda>e. cause_reply 400 (CauseRdf e))
                 (res_bind (format_parse (sv_parser S) fmt bytes (target_iri t) declared) (\<lambda>d. Inr (ReprRdf d fmt declared))))
      | None \<Rightarrow>
          (case media_type_parse (e_header_ok (sv_env S)) ct of
             None \<Rightarrow> Inl (status_reply 415)
           | Some mt \<Rightarrow>
               (case t of
                  Aux _ \<Rightarrow> Inl (status_reply 415)
                | Container _ \<Rightarrow> Inl (text_reply 400 ''a container's representation must be RDF'')
                | Resource _ \<Rightarrow> Inr (ReprBlob bytes mt))))"

section \<open>Operations that only read\<close>

named_theorems reads_intros

definition reads :: "('w, 'e, 'a) op \<Rightarrow> bool" where
  "reads m \<longleftrightarrow> (\<forall>w. snd (m w) = w)"

lemma readsD: "reads m \<Longrightarrow> m w = (r, w') \<Longrightarrow> w' = w"
  by (metis reads_def snd_conv)

lemma reads_basic [reads_intros]: "reads (op_ok x)" "reads (op_err e)" "reads (op_res r)" "reads (st_read f)" "reads (bl_get E k)"
  by (simp_all add: reads_def st_read_def bl_get_def)

lemma reads_bind [reads_intros]: "reads m \<Longrightarrow> (\<And>x. reads (f x)) \<Longrightarrow> reads (op_bind m f)"
  by (auto simp: reads_def op_bind_def split: prod.splits sum.splits) (metis snd_conv)+

lemma reads_map_err [reads_intros]: "reads m \<Longrightarrow> reads (op_map_err f m)"
  by (auto simp: reads_def op_map_err_def split: prod.splits) (metis snd_conv)+

lemma reads_if [reads_intros]: "(P \<Longrightarrow> reads m) \<Longrightarrow> (\<not> P \<Longrightarrow> reads m') \<Longrightarrow> reads (if P then m else m')"
  by simp

lemma reads_option [reads_intros]:
  "(x = None \<Longrightarrow> reads m) \<Longrightarrow> (\<And>y. x = Some y \<Longrightarrow> reads (f y)) \<Longrightarrow> reads (case x of None \<Rightarrow> m | Some y \<Rightarrow> f y)"
  by (cases x) simp_all

lemma reads_list [reads_intros]:
  "(xs = [] \<Longrightarrow> reads m) \<Longrightarrow> (\<And>y ys. xs = y # ys \<Longrightarrow> reads (f y ys)) \<Longrightarrow> reads (case xs of [] \<Rightarrow> m | y # ys \<Rightarrow> f y ys)"
  by (cases xs) simp_all

lemma reads_kind [reads_intros]:
  "(k = KindRdf \<Longrightarrow> reads m) \<Longrightarrow> (\<And>mt. k = KindBinary mt \<Longrightarrow> reads (f mt)) \<Longrightarrow> reads (case k of KindRdf \<Rightarrow> m | KindBinary mt \<Rightarrow> f mt)"
  by (cases k) simp_all

lemma reads_target [reads_intros]:
  "(\<And>r. t = Resource r \<Longrightarrow> reads (f r)) \<Longrightarrow> (\<And>c. t = Container c \<Longrightarrow> reads (g c)) \<Longrightarrow> (\<And>a. t = Aux a \<Longrightarrow> reads (h a)) \<Longrightarrow>
   reads (case t of Resource r \<Rightarrow> f r | Container c \<Rightarrow> g c | Aux a \<Rightarrow> h a)"
  by (cases t) simp_all

lemma reads_storage [reads_intros]:
  "reads (exists_op E g)" "reads (exists_many E gs)" "reads (stored_media_type E iri)" "reads (kind_of E iri)"
  "reads (get_rdf E iri)" "reads (registered_shelves E iri)"
  unfolding exists_op_def exists_many_def stored_media_type_def kind_of_def get_rdf_def registered_shelves_def
  by (intro reads_intros)+

lemma reads_shelves [reads_intros]: "reads (read_shelves E iri ks)"
  by (induction ks) (simp_all only: read_shelves.simps, (intro reads_intros | assumption)+)

lemma reads_get_dataset [reads_intros]: "reads (get_dataset E iri)"
  unfolding get_dataset_def by (intro reads_intros)

lemma reads_chain_acls [reads_intros]: "reads (load_chain_acls E chain pres)"
  unfolding load_chain_acls_def Let_def by (intro reads_intros)

lemma reads_probe [reads_intros]: "reads (probe E ag t)"
  unfolding probe_def Let_def by (intro reads_intros)

lemma reads_current_tags [reads_intros]: "reads (current_tags S t)"
  unfolding current_tags_def Let_def
  by (intro reads_intros)

lemma reads_conditionals [reads_intros]: "reads (check_conditionals S hs t)"
  unfolding check_conditionals_def by (intro reads_intros)

section \<open>What an operation may fail with\<close>

lemma re_status_simps [simp]:
  "re_status (with_aux_links t r) = re_status r" "re_status (with_allow t v r) = re_status r"
  "re_status (with_read_headers t d v r) = re_status r" "re_status (status_reply s) = s"
  by (simp_all add: with_read_headers_def with_allow_def with_aux_links_def status_reply_def Let_def split: option.split)

lemma is_success_numeral [simp]: "is_success (numeral k) \<longleftrightarrow> 200 \<le> (numeral k :: nat) \<and> numeral k < (300 :: nat)"
  by (simp add: is_success_def)

named_theorems raises_intros

definition raises :: "('e \<Rightarrow> bool) \<Rightarrow> ('w, 'e, 'a) op \<Rightarrow> bool" where
  "raises P m \<longleftrightarrow> (\<forall>w e w'. m w = (Inl e, w') \<longrightarrow> P e)"

lemma raisesD: "raises P m \<Longrightarrow> m w = (Inl e, w') \<Longrightarrow> P e"
  by (auto simp: raises_def)

lemma raises_basic [raises_intros]: "raises P (op_ok x)" "P e \<Longrightarrow> raises P (op_err e)"
  by (simp_all add: raises_def)

lemma raises_res: "(\<And>e. r = Inl e \<Longrightarrow> P e) \<Longrightarrow> raises P (op_res r)"
  by (simp add: raises_def)

lemma raises_bind [raises_intros]: "raises P m \<Longrightarrow> (\<And>x. raises P (f x)) \<Longrightarrow> raises P (op_bind m f)"
  by (auto simp: raises_def op_bind_def split: prod.splits sum.splits)

lemma raises_map_err [raises_intros]: "(\<And>e. P (f e)) \<Longrightarrow> raises P (op_map_err f m)"
  by (auto simp: raises_def op_map_err_Inl)

lemma raises_res_map_err [raises_intros]: "(\<And>e. P (f e)) \<Longrightarrow> raises P (op_res (map_err f r))"
  by (cases r) (auto simp: raises_def)

lemma raises_cases [raises_intros]:
  "(Q \<Longrightarrow> raises P m) \<Longrightarrow> (\<not> Q \<Longrightarrow> raises P m') \<Longrightarrow> raises P (if Q then m else m')"
  "(x = None \<Longrightarrow> raises P m) \<Longrightarrow> (\<And>y. x = Some y \<Longrightarrow> raises P (f y)) \<Longrightarrow> raises P (case x of None \<Rightarrow> m | Some y \<Rightarrow> f y)"
  "(k = KindRdf \<Longrightarrow> raises P m) \<Longrightarrow> (\<And>mt. k = KindBinary mt \<Longrightarrow> raises P (g mt)) \<Longrightarrow> raises P (case k of KindRdf \<Rightarrow> m | KindBinary mt \<Rightarrow> g mt)"
  "(\<And>r. t = Resource r \<Longrightarrow> raises P (h1 r)) \<Longrightarrow> (\<And>c. t = Container c \<Longrightarrow> raises P (h2 c)) \<Longrightarrow> (\<And>a. t = Aux a \<Longrightarrow> raises P (h3 a)) \<Longrightarrow>
   raises P (case t of Resource r \<Rightarrow> h1 r | Container c \<Rightarrow> h2 c | Aux a \<Rightarrow> h3 a)"
  "(\<And>a. s = Inl a \<Longrightarrow> raises P (l a)) \<Longrightarrow> (\<And>b. s = Inr b \<Longrightarrow> raises P (rr b)) \<Longrightarrow> raises P (case s of Inl a \<Rightarrow> l a | Inr b \<Rightarrow> rr b)"
  "(\<And>a b. q = (a, b) \<Longrightarrow> raises P (pp a b)) \<Longrightarrow> raises P (case q of (a, b) \<Rightarrow> pp a b)"
  by (simp_all split: option.split kind.split target.split sum.split prod.split)

section \<open>The gate every handler opens with\<close>

text \<open>What the probe and \<open>authorize\<close> make of an agent, a target and a mode. Each handler begins by
  asking this and replies with the refusal when it is one; \<open>gate_refuses\<close> is that shared opening.\<close>

definition authorized ::
  "('db, 'bl) server \<Rightarrow> agent \<Rightarrow> target \<Rightarrow> mode \<Rightarrow> ('db, 'bl) world \<Rightarrow> denial + decision" where
  "authorized S ag t m w = fst (op_bind (probe (sv_env S) ag t) (\<lambda>g. op_res (authorize g m)) w)"

lemma gate_refuses:
  assumes "authorized S ag t m w = Inl d"
  shows "op_bind (op_map_err f (probe (sv_env S) ag t)) (\<lambda>g. op_bind (op_res (map_err f (authorize g m))) (k g)) w
    = (Inl (f d), w)"
proof -
  obtain r where p: "probe (sv_env S) ag t w = (r, w)"
    by (metis readsD reads_probe surj_pair)
  then show ?thesis
    using assms by (cases r) (auto simp: authorized_def op_bind_def op_map_err_def split: sum.splits)
qed

lemma gate_admits:
  assumes "op_bind (op_map_err f (probe (sv_env S) ag t)) (\<lambda>g. op_bind (op_res (map_err f (authorize g m))) (k g)) w = (Inr x, w')"
  obtains g dec where "probe (sv_env S) ag t w = (Inr g, w)" "authorize g m = Inr dec" "k g dec w = (Inr x, w')"
proof -
  obtain r where p: "probe (sv_env S) ag t w = (r, w)"
    by (metis readsD reads_probe surj_pair)
  with assms that show thesis
    by (cases r) (auto simp: op_bind_def op_map_err_def split: sum.splits)
qed

text \<open>\<open>may G ag us m\<close>: the list nearest on the chain \<open>us\<close> grants the agent the mode. Without it the
  gate refuses, and its refusal tells only whether credentials were missing or that the store
  failed.\<close>

definition may :: "graphs \<Rightarrow> agent \<Rightarrow> resource_url list \<Rightarrow> mode \<Rightarrow> bool" where
  "may G ag us m \<longleftrightarrow> (\<exists>i acl. governing G us i \<and> set acl = G (acl_iri (us ! i)) \<and>
     allows (decide acl ag (r_iri (us ! i)) (0 < i)) m)"

lemma decide_from_may:
  assumes "acl_snapshot G g" and "decide_from g s m = Inr d"
  shows "may G (gu_agent g) (drop s (gu_chain g)) m"
proof -
  obtain i where gov: "governing G (drop s (gu_chain g)) i"
    using decide_from_ungoverned [OF assms(1), of s m] assms(2) by fastforce
  from decide_from_governing [OF assms(1) gov, of m] assms(2) gov show ?thesis
    unfolding may_def by (auto split: if_splits)
qed

context pod
begin

lemma probe_chain:
  assumes "pod_space sp" "storage_url sp (target_subject t)" "probe E ag t w = (Inr g, w')"
  shows "acl_snapshot (sabs (w_db w)) g" "gu_agent g = ag" "gu_chain g = request_chain t" "gu_target g = t"
    "snapshot (sabs (w_db w)) g"
  using probe_ok [OF assms] by (simp_all add: snapshot_def)

lemma authorize_may:
  assumes "pod_space sp" "storage_url sp (target_subject t)" "probe E ag t w = (Inr g, w')" "authorize g m = Inr d"
  shows "may (sabs (w_db w)) ag (request_chain t) (required_mode t m)"
  using decide_from_may [OF probe_chain(1) [OF assms(1-3)], of 0] assms(4) probe_chain(2-4) [OF assms(1-3)]
  by (simp add: authorize_def)

end

lemma authorized_may:
  assumes "pod (sv_env S) sabs babs" "pod_space sp" "storage_url sp (target_subject t)"
    and "\<not> may (sabs (w_db w)) ag (request_chain t) (required_mode t m)"
  obtains d where "authorized S ag t m w = Inl d" "d = deny ag \<or> (\<exists>e. d = StoreDenied e)"
proof -
  obtain r where p: "probe (sv_env S) ag t w = (r, w)"
    by (metis readsD reads_probe surj_pair)
  show thesis
  proof (cases r)
    case (Inl d)
    with p that [of d] show thesis
      by (auto simp: authorized_def probe_def Let_def op_map_err_Inl elim!: op_bind_cases)
  next
    case (Inr g)
    note g = p [unfolded Inr]
    obtain d where d: "authorize g m = Inl d"
      using pod.authorize_may [OF assms(1-3) g] assms(4) by (cases "authorize g m") auto
    then have "d = deny ag"
      using decide_from_denial pod.probe_chain(2) [OF assms(1-3) g] by (simp add: authorize_def) metis
    with d g that show thesis by (simp add: authorized_def)
  qed
qed

lemma refused_not_success [simp]: "\<not> is_success (re_status (refused t d))"
  by (simp add: refused_def with_aux_links_def is_success_def denial_reply_def internal_error_def status_reply_def text_reply_def split: option.split denial.split)

text \<open>An example server over the in-memory stores; every document reads as the empty graph.\<close>

definition ex_server :: "(mem_db, mem_bl) server" where
  "ex_server = \<lparr>sv_env = mem_env, sv_space = ex_pod, sv_parser = (\<lambda>_ _ _. Inr []), sv_writer = (\<lambda>_ _. Inr []),
     sv_show_quad = q_predicate, sv_valid_blank = (\<lambda>_. True), sv_f32 = (\<lambda>_. None), sv_n3 = (\<lambda>_ _. Inr []),
     sv_load_data = (\<lambda>_. Inr ()), sv_load_shapes = (\<lambda>_. Inr ()), sv_validate = (\<lambda>_ _. Inr []),
     sv_show_rdf_error = (\<lambda>_. []), sv_show_term = (\<lambda>_. [])\<rparr>"

text \<open>A pod whose root list gives everyone the modes named, and nothing stored but the root.\<close>

definition public_acl :: "iri list \<Rightarrow> triple list" where
  "public_acl modes = [mk_triple (NamedNode ''#p'') ACL_AGENT_CLASS (TermNamed FOAF_AGENT),
     mk_triple (NamedNode ''#p'') ACL_ACCESS_TO (TermNamed ''http://h/''),
     mk_triple (NamedNode ''#p'') ACL_DEFAULT (TermNamed ''http://h/'')]
     @ map (\<lambda>m. mk_triple (NamedNode ''#p'') ACL_MODE (TermNamed m)) modes"

definition public_world :: "iri list \<Rightarrow> (mem_db, mem_bl) world" where
  "public_world modes = mem_world\<lparr>w_db :=
     [(sys_graph_iri ''http://h/'', present_triple ''http://h/''),
      (sys_graph_iri (acl_iri (as_resource ex_root)), present_triple (acl_iri (as_resource ex_root)))]
     @ map (Pair (acl_iri (as_resource ex_root))) (public_acl modes)\<rparr>"

end
