(* ===== verification/Provider.thy ===== *)
theory Provider
  imports Credentials
begin

text \<open>
  The OpenID provider core, \<^verbatim>\<open>src/op/\<close>: the signing key set with its file, the public key set, the
  discovery document and the minting of access tokens. \<open>josekit\<close>'s keys and signers stay abstract;
  the record \<open>op_jose\<close> adds to \<open>jose\<close> the functions this side calls, and \<open>disk\<close> the file system and
  the generator. \<open>None\<close> and \<open>KeyPanicked\<close> stand for the \<open>expect\<close>s and the \<open>unreachable\<close> of the source.
\<close>

record ('k, 'v, 's) op_jose = "('k, 'v) jose" +
  algorithm :: "'k \<Rightarrow> string option"
  parameter :: "'k \<Rightarrow> string \<Rightarrow> json option"
  set_key_id :: "string \<Rightarrow> 'k \<Rightarrow> 'k"
  set_algorithm :: "string \<Rightarrow> 'k \<Rightarrow> 'k"
  to_public_key :: "'k \<Rightarrow> string + 'k"
  rs256_signer :: "'k \<Rightarrow> string + 's"
  es256_signer :: "'k \<Rightarrow> string + 's"
  jwt_encode :: "(string \<times> json) list \<Rightarrow> (string \<times> json) list \<Rightarrow> 's \<Rightarrow> string option"
  jwk_to_value :: "'k \<Rightarrow> json"
  json_to_string :: "json \<Rightarrow> string"

datatype io_error = NotFound | OtherIo string

record ('k, 'w) disk =
  read_to_string :: "string \<Rightarrow> ('w, io_error, string) op"
  create_new_private :: "string \<Rightarrow> string \<Rightarrow> ('w, io_error, unit) op"
  generate_ec_key :: "('w, string, 'k) op"

section \<open>Keys\<close>

datatype malformed =
    NotJson
  | NoKeysArray
  | KeyNotObject
  | NotJwk
  | WrongKeyType string
  | Josekit string

datatype key_error =
    KeyIo string io_error
  | KeyMalformed string malformed
  | KeyEmpty string
  | KeyPanicked

definition thumbprint_members :: "string \<Rightarrow> string list option" where
  "thumbprint_members kty =
     (if kty = ''EC'' then Some [''crv'', ''kty'', ''x'', ''y'']
      else if kty = ''RSA'' then Some [''e'', ''kty'', ''n'']
      else None)"

definition thumbprint :: "('k, 'v, 's) op_jose \<Rightarrow> 'k \<Rightarrow> string option" where
  "thumbprint J jwk = map_option (\<lambda>members.
     b64_encode J (sha256 J (json_string_map (List.map_filter
       (\<lambda>name. map_option (Pair name) (Option.bind (parameter J jwk name) as_str)) members))))
     (thumbprint_members (key_type J jwk))"

definition signer_for :: "('k, 'v, 's) op_jose \<Rightarrow> 'k \<Rightarrow> string + 's" where
  "signer_for J jwk = (if algorithm J jwk = Some ''RS256'' then rs256_signer J jwk else es256_signer J jwk)"

definition alg_of :: "('k, 'v, 's) op_jose \<Rightarrow> 'k \<Rightarrow> string option" where
  "alg_of J jwk =
     (case algorithm J jwk of
        Some alg \<Rightarrow> Some alg
      | None \<Rightarrow>
          if key_type J jwk = ''EC'' \<and> curve J jwk = Some ''P-256'' then Some ''ES256''
          else if key_type J jwk = ''RSA'' then Some ''RS256''
          else None)"

definition identified :: "('k, 'v, 's) op_jose \<Rightarrow> 'k \<Rightarrow> key_error + 'k" where
  "identified J jwk =
     (if key_id J jwk \<noteq> None then Inr jwk
      else case thumbprint J jwk of Some t \<Rightarrow> Inr (set_key_id J t jwk) | None \<Rightarrow> Inl KeyPanicked)"

definition load_key :: "('k, 'v, 's) op_jose \<Rightarrow> string \<Rightarrow> json \<Rightarrow> key_error + 'k" where
  "load_key J path v =
     res_bind (ok_or (KeyMalformed path KeyNotObject) (as_object v)) (\<lambda>m.
     res_bind (ok_or (KeyMalformed path NotJwk) (jwk_from_map J m)) (\<lambda>jwk.
       if key_type J jwk \<notin> {''EC'', ''RSA''} then Inl (KeyMalformed path (WrongKeyType (key_type J jwk)))
       else res_bind (map_err (\<lambda>e. KeyMalformed path (Josekit e)) (to_public_key J jwk)) (\<lambda>_.
         identified J jwk)))"

fun load_keys :: "('k, 'v, 's) op_jose \<Rightarrow> string \<Rightarrow> json list \<Rightarrow> key_error + 'k list" where
  "load_keys J path [] = Inr []"
| "load_keys J path (v # vs) =
     res_bind (load_key J path v) (\<lambda>k. res_bind (load_keys J path vs) (\<lambda>ks. Inr (k # ks)))"

definition parse_key_file :: "('k, 'v, 's) op_jose \<Rightarrow> string \<Rightarrow> string \<Rightarrow> key_error + 'k list" where
  "parse_key_file J path contents =
     res_bind (ok_or (KeyMalformed path NotJson) (json_from J contents)) (\<lambda>parsed.
     res_bind (ok_or (KeyMalformed path NoKeysArray) (Option.bind (json_get ''keys'' parsed) as_array)) (\<lambda>raw.
     res_bind (load_keys J path raw) (\<lambda>keys.
       case keys of
         [] \<Rightarrow> Inl (KeyEmpty path)
       | k # _ \<Rightarrow> res_bind (map_err (\<lambda>e. KeyMalformed path (Josekit e)) (signer_for J k)) (\<lambda>_. Inr keys))))"

definition generate_key_file ::
  "('k, 'v, 's) op_jose \<Rightarrow> ('k, 'w) disk \<Rightarrow> string \<Rightarrow> ('w, key_error, 'k list) op" where
  "generate_key_file J D path =
     op_bind (op_map_err (\<lambda>e. KeyMalformed path (Josekit e)) (generate_ec_key D)) (\<lambda>jwk.
       let jwk = set_algorithm J ''ES256'' jwk in
       op_bind (op_res (ok_or KeyPanicked (thumbprint J jwk))) (\<lambda>t.
         let jwk = set_key_id J t jwk;
             contents = json_to_string J (JObject [(''keys'', JArray [jwk_to_value J jwk])])
         in op_bind (op_map_err (KeyIo path) (create_new_private D path contents)) (\<lambda>_. op_ok [jwk])))"

definition load_or_generate ::
  "('k, 'v, 's) op_jose \<Rightarrow> ('k, 'w) disk \<Rightarrow> string \<Rightarrow> ('w, key_error, 'k list) op" where
  "load_or_generate J D path w =
     (case read_to_string D path w of
        (Inr contents, w') \<Rightarrow> op_res (parse_key_file J path contents) w'
      | (Inl NotFound, w') \<Rightarrow> generate_key_file J D path w'
      | (Inl e, w') \<Rightarrow> (Inl (KeyIo path e), w'))"

section \<open>What the keys are used for\<close>

definition published_key :: "('k, 'v, 's) op_jose \<Rightarrow> 'k \<Rightarrow> 'k option" where
  "published_key J k =
     (case to_public_key J k of
        Inl _ \<Rightarrow> None
      | Inr public \<Rightarrow>
          (let named = (case key_id J k of Some kid \<Rightarrow> set_key_id J kid public | None \<Rightarrow> public)
           in Some (case algorithm J k of Some alg \<Rightarrow> set_algorithm J alg named | None \<Rightarrow> named)))"

definition public_jwks :: "('k, 'v, 's) op_jose \<Rightarrow> 'k list \<Rightarrow> json option" where
  "public_jwks J keys =
     (if list_all (\<lambda>k. published_key J k \<noteq> None) keys
      then Some (JObject [(''keys'', JArray (map (jwk_to_value J) (List.map_filter (published_key J) keys)))])
      else None)"

definition signing_algs :: "('k, 'v, 's) op_jose \<Rightarrow> 'k list \<Rightarrow> string list" where
  "signing_algs J keys = foldl (\<lambda>out k. case alg_of J k of
       None \<Rightarrow> out
     | Some alg \<Rightarrow> if alg \<in> set out then out else out @ [alg]) [] keys"

definition document :: "('k, 'v, 's) op_jose \<Rightarrow> storage_space \<Rightarrow> 'k list \<Rightarrow> json" where
  "document J space keys =
     (let issuer = container_iri (space_root space) in
      JObject [(''issuer'', JString issuer),
        (''jwks_uri'', JString (issuer @ ''.well-known/jwks.json'')),
        (''scopes_supported'', JArray [JString ''openid'', JString ''webid'']),
        (''id_token_signing_alg_values_supported'', JArray (map JString (signing_algs J keys)))])"

definition ACCESS_TOKEN_TTL_SECS :: i64 where "ACCESS_TOKEN_TTL_SECS = 600"

definition json_i64 :: "i64 \<Rightarrow> json" where
  "json_i64 i = JNumber (if 0 \<le> sint i then PosInt i else NegInt i)"

definition token_header :: "string \<Rightarrow> (string \<times> json) list" where
  "token_header kid = [(''typ'', JString ''JWT''), (''kid'', JString kid)]"

definition sign_jwt :: "('k, 'v, 's) op_jose \<Rightarrow> 'k list \<Rightarrow> (string \<times> json) list \<Rightarrow> string option" where
  "sign_jwt J keys payload =
     (case keys of
        [] \<Rightarrow> None
      | key # _ \<Rightarrow> (case key_id J key of
          None \<Rightarrow> None
        | Some kid \<Rightarrow> (case signer_for J key of
            Inl _ \<Rightarrow> None
          | Inr signer \<Rightarrow> jwt_encode J payload (token_header kid) signer)))"

definition token_claims :: "storage_space \<Rightarrow> iri \<Rightarrow> string \<Rightarrow> i64 \<Rightarrow> string \<Rightarrow> (string \<times> json) list" where
  "token_claims space webid jkt now uuid =
     [(''iss'', JString (container_iri (space_root space))), (''sub'', JString webid),
      (''aud'', JArray [JString ''solid'']), (''webid'', JString webid),
      (''cnf'', JObject [(''jkt'', JString jkt)]), (''jti'', JString uuid),
      (''iat'', json_i64 now), (''exp'', json_i64 (now + ACCESS_TOKEN_TTL_SECS))]"

definition mint_access_token ::
  "('k, 'v, 's) op_jose \<Rightarrow> 'k list \<Rightarrow> storage_space \<Rightarrow> iri \<Rightarrow> string \<Rightarrow> i64 \<Rightarrow> string \<Rightarrow> string option" where
  "mint_access_token J keys space webid jkt now uuid =
     sign_jwt J keys (token_claims space webid jkt now uuid)"

section \<open>A key set that loads is usable\<close>

definition keyset_ok :: "('k, 'v, 's) op_jose \<Rightarrow> 'k list \<Rightarrow> bool" where
  "keyset_ok J keys \<longleftrightarrow> keys \<noteq> [] \<and> (\<forall>k \<in> set keys. key_id J k \<noteq> None \<and> \<not> isl (to_public_key J k)) \<and>
     \<not> isl (signer_for J (hd keys))"

text \<open>What \<open>josekit\<close> documents of its keys: setters set what they name and nothing else, the public
  half keeps type and curve, a signer is built only for a key of its type whose declared algorithm
  is its own, signing yields a compact JWS of the header and payload given, and the verifier of the
  public half accepts what the signer signed. \<open>readable\<close> are the payloads and headers whose
  JSON text reads back as themselves. A generated key is an EC key on P-256 that signs.\<close>

locale op_backend =
  fixes J :: "('k, 'v, 's) op_jose" and D :: "('k, 'w) disk" and readable :: "(string \<times> json) list \<Rightarrow> (string \<times> json) list \<Rightarrow> bool"
  assumes key_id_set: "key_id J (set_key_id J x k) = Some x" "key_id J (set_algorithm J a k) = key_id J k"
    and key_shape: "key_type J (set_key_id J x k) = key_type J k" "curve J (set_key_id J x k) = curve J k"
      "key_type J (set_algorithm J a k) = key_type J k" "curve J (set_algorithm J a k) = curve J k"
    and public_named: "\<not> isl (to_public_key J k) \<Longrightarrow> \<not> isl (to_public_key J (set_key_id J x k))"
    and public_shape: "to_public_key J k = Inr p \<Longrightarrow> key_type J p = key_type J k \<and> curve J p = curve J k"
    and rs_signer: "rs256_signer J k = Inr s \<Longrightarrow> key_type J k = ''RSA''"
    and es_signer: "es256_signer J k = Inr s \<Longrightarrow>
      key_type J k = ''EC'' \<and> curve J k = Some ''P-256'' \<and> algorithm J k \<in> {None, Some ''ES256''}"
    and verifier_named: "rs256_verifier J (set_key_id J x k) = rs256_verifier J k"
      "es256_verifier J (set_key_id J x k) = es256_verifier J k"
      "rs256_verifier J (set_algorithm J ''RS256'' k) = rs256_verifier J k"
      "es256_verifier J (set_algorithm J ''ES256'' k) = es256_verifier J k"
    and rs_pair: "rs256_signer J k = Inr s \<Longrightarrow> to_public_key J k = Inr p \<Longrightarrow>
      \<exists>v. rs256_verifier J p = Some v \<and> (\<forall>payload header tok. jwt_encode J payload header s = Some tok \<longrightarrow> jwt_decode J tok v = Some payload)"
    and es_pair: "es256_signer J k = Inr s \<Longrightarrow> to_public_key J k = Inr p \<Longrightarrow>
      \<exists>v. es256_verifier J p = Some v \<and> (\<forall>payload header tok. jwt_encode J payload header s = Some tok \<longrightarrow> jwt_decode J tok v = Some payload)"
    and compact: "readable payload header \<Longrightarrow> \<exists>tok h p sg hb pb hv. jwt_encode J payload header s = Some tok \<and> split_on (CHR ''.'') tok = [h, p, sg] \<and>
      b64_decode J h = Some hb \<and> json_from J hb = Some (JObject hv) \<and> (\<forall>n x. map_of header n = Some x \<longrightarrow> map_of hv n = Some x) \<and>
      b64_decode J p = Some pb \<and> json_from J pb = Some (JObject payload)"
    and generated: "generate_ec_key D w = (Inr k, w') \<Longrightarrow>
      key_type J k = ''EC'' \<and> (\<forall>x. \<not> isl (to_public_key J (set_key_id J x (set_algorithm J ''ES256'' k))) \<and>
        \<not> isl (signer_for J (set_key_id J x (set_algorithm J ''ES256'' k))))"
begin

lemma load_key_ok:
  assumes "load_key J path v = Inr k"
  shows "key_id J k \<noteq> None \<and> \<not> isl (to_public_key J k)"
proof -
  from assms obtain jwk p where "to_public_key J jwk = Inr p" "identified J jwk = Inr k"
    by (auto simp: load_key_def res_bind_Inr split: if_splits)
  then have "\<not> isl (to_public_key J jwk)" "identified J jwk = Inr k" by simp_all
  then show ?thesis
    by (auto simp: identified_def key_id_set public_named split: if_splits option.splits)
qed

lemma load_keys_ok:
  "load_keys J path vs = Inr keys \<Longrightarrow> k \<in> set keys \<Longrightarrow> key_id J k \<noteq> None \<and> \<not> isl (to_public_key J k)"
  by (induction vs arbitrary: keys) (auto simp: res_bind_Inr dest: load_key_ok)

lemma parse_key_file_ok:
  assumes "parse_key_file J path contents = Inr keys"
  shows "keyset_ok J keys"
proof -
  from assms obtain raw ks where ks: "load_keys J path raw = Inr ks"
    and "(case ks of [] \<Rightarrow> Inl (KeyEmpty path)
      | k # _ \<Rightarrow> res_bind (map_err (\<lambda>e. KeyMalformed path (Josekit e)) (signer_for J k)) (\<lambda>_. Inr ks)) = Inr keys"
    unfolding parse_key_file_def res_bind_Inr by blast
  then obtain s where "ks \<noteq> []" "signer_for J (hd ks) = Inr s" "keys = ks"
    by (cases ks) (auto simp: res_bind_Inr)
  with load_keys_ok [OF ks] show ?thesis by (auto simp: keyset_ok_def)
qed

lemma generate_key_file_ok: "generate_key_file J D path w = (Inr keys, w') \<Longrightarrow> keyset_ok J keys"
  by (auto simp: generate_key_file_def keyset_ok_def Let_def op_map_err_conv key_id_set dest!: generated elim!: op_bind_InrE)

lemma load_or_generate_ok: "load_or_generate J D path w = (Inr keys, w') \<Longrightarrow> keyset_ok J keys"
  by (auto simp: load_or_generate_def dest: parse_key_file_ok generate_key_file_ok split: prod.splits sum.splits io_error.splits)

text \<open>The active key signs, and the key a verifier picks by the token's \<open>kid\<close> is its public half.\<close>

lemma published_key_ok:
  assumes "signer_for J k = Inr s" "to_public_key J k = Inr p" "key_id J k = Some kid"
  obtains pub v where "published_key J k = Some pub" "key_id J pub = Some kid" "verifier_for J pub = Inr v"
    "\<And>payload header tok. jwt_encode J payload header s = Some tok \<Longrightarrow> jwt_decode J tok v = Some payload"
proof -
  let ?named = "set_key_id J kid p"
  let ?pub = "case algorithm J k of Some alg \<Rightarrow> set_algorithm J alg ?named | None \<Rightarrow> ?named"
  have pub: "published_key J k = Some ?pub" using assms by (simp add: published_key_def Let_def)
  have id: "key_id J ?pub = Some kid" by (simp add: key_id_set split: option.split)
  have shape: "key_type J ?pub = key_type J k" "curve J ?pub = curve J k"
    using public_shape [OF assms(2)] by (simp_all add: key_shape split: option.split)
  show thesis
  proof (cases "algorithm J k = Some ''RS256''")
    case True
    then have s: "rs256_signer J k = Inr s" using assms(1) by (simp add: signer_for_def)
    obtain v where v: "rs256_verifier J p = Some v"
      "\<And>payload header tok. jwt_encode J payload header s = Some tok \<Longrightarrow> jwt_decode J tok v = Some payload"
      using rs_pair [OF s assms(2)] by blast
    have "verifier_for J ?pub = Inr v"
      using True v(1) rs_signer [OF s] shape by (simp add: verifier_for_def verifier_named ok_or_def)
    then show thesis using that pub id v(2) by blast
  next
    case False
    then have s: "es256_signer J k = Inr s" using assms(1) by (simp add: signer_for_def)
    obtain v where v: "es256_verifier J p = Some v"
      "\<And>payload header tok. jwt_encode J payload header s = Some tok \<Longrightarrow> jwt_decode J tok v = Some payload"
      using es_pair [OF s assms(2)] by blast
    have "verifier_for J ?pub = Inr v"
      using v(1) es_signer [OF s] shape by (auto simp: verifier_for_def verifier_named ok_or_def)
    then show thesis using that pub id v(2) by blast
  qed
qed

lemma sign_then_verify:
  assumes "keyset_ok J keys" "readable payload (token_header (the (key_id J (hd keys))))"
  obtains tok h p sg hb pb hv pub v kid where "sign_jwt J keys payload = Some tok" "split_on (CHR ''.'') tok = [h, p, sg]"
    "b64_decode J h = Some hb" "json_from J hb = Some (JObject hv)" "map_of hv ''kid'' = Some (JString kid)"
    "b64_decode J p = Some pb" "json_from J pb = Some (JObject payload)"
    "select_key J (List.map_filter (published_key J) keys) (Some kid) = Inr pub" "verifier_for J pub = Inr v"
    "jwt_decode J tok v = Some payload"
proof -
  from assms(1) obtain k ks kid pk s where k: "keys = k # ks" "key_id J k = Some kid" "to_public_key J k = Inr pk" "signer_for J k = Inr s"
    by (cases keys) (auto simp: keyset_ok_def isl_def, metis obj_sumE)
  let ?header = "token_header kid"
  obtain tok h p sg hb pb hv where tok: "jwt_encode J payload ?header s = Some tok" "split_on (CHR ''.'') tok = [h, p, sg]"
      "b64_decode J h = Some hb" "json_from J hb = Some (JObject hv)" "b64_decode J p = Some pb" "json_from J pb = Some (JObject payload)"
    and hv: "\<And>n x. map_of ?header n = Some x \<Longrightarrow> map_of hv n = Some x"
    using compact [of payload ?header s] assms(2) k by auto
  obtain pub v where pub: "published_key J k = Some pub" "key_id J pub = Some kid" "verifier_for J pub = Inr v"
    "\<And>payload header tok. jwt_encode J payload header s = Some tok \<Longrightarrow> jwt_decode J tok v = Some payload"
    by (rule published_key_ok [OF k(4,3,2)]) blast
  have "sign_jwt J keys payload = Some tok" using k tok(1) by (simp add: sign_jwt_def)
  moreover have "select_key J (List.map_filter (published_key J) keys) (Some kid) = Inr pub"
    using k(1) pub(1,2) by (simp add: select_key_def List.map_filter_def ok_or_def)
  moreover have "map_of hv ''kid'' = Some (JString kid)" using hv [of "''kid''"] by (simp add: token_header_def)
  ultimately show thesis using that tok pub by blast
qed

end

lemma as_i64_json_i64 [simp]: "as_i64 (json_i64 i) = Some i"
proof (cases "0 \<le> sint i")
  case True
  moreover have bound: "sint i < 2 ^ 63" using sint_lt [of i] by simp
  ultimately have "uint i = sint i" by (simp add: uint_sint [of i] take_bit_int_eq_self)
  then have "unat i < 2 ^ 63" using True bound by (simp add: unat_eq_nat_uint nat_less_iff)
  then show ?thesis using True by (simp add: as_i64_def json_i64_def)
qed (simp add: as_i64_def json_i64_def)

lemma sint_add_600:
  assumes "sint now + 600 < 2 ^ 63"
  shows "sint (now + 600 :: i64) = sint now + 600"
proof -
  have "sint (600 :: i64) = 600" by simp
  moreover have "- (2 ^ 63) \<le> sint now" using sint_ge [of now] by simp
  ultimately show ?thesis
    using assms by (simp add: sint_word_ariths(1) signed_take_bit_int_eq_self)
qed

text \<open>C17: the pod's own tokens are good. A key set that loaded or was generated always signs (no
  \<open>expect\<close> of the minting path is reached), and a token minted with it for a WebID and a proof key,
  presented to a verifier that has the published keys, is accepted with exactly these claims until
  ten minutes after it was minted, and as expired from then on.\<close>

theorem minted_token_verifies:
  assumes "op_backend J D readable" and "load_or_generate J D path w = (Inr keys, w')"
    and "readable (token_claims space webid jkt now uuid) (token_header (the (key_id J (hd keys))))"
    and "resolver (container_iri (space_root space)) v = (Inr (List.map_filter (published_key J) keys), v')"
    and "sint now + 600 < 2 ^ 63"
  shows "\<exists>tok. mint_access_token J keys space webid jkt now uuid = Some tok \<and>
    verify_access_token J tok resolver later v =
      (if sint later < sint now + 600
       then Inr \<lparr>ac_webid = webid, ac_jkt = jkt, ac_issuer = container_iri (space_root space), ac_audience = [''solid'']\<rparr>
       else Inl Expired, v')"
proof -
  let ?payload = "token_claims space webid jkt now uuid"
  have ok: "keyset_ok J keys" by (rule op_backend.load_or_generate_ok [OF assms(1,2)])
  obtain tok h p sg hb pb hv pub vf kid where
    tok: "sign_jwt J keys ?payload = Some tok" "split_on (CHR ''.'') tok = [h, p, sg]"
    "b64_decode J h = Some hb" "json_from J hb = Some (JObject hv)" "map_of hv ''kid'' = Some (JString kid)"
    "b64_decode J p = Some pb" "json_from J pb = Some (JObject ?payload)"
    "select_key J (List.map_filter (published_key J) keys) (Some kid) = Inr pub" "verifier_for J pub = Inr vf"
    "jwt_decode J tok vf = Some ?payload"
    by (rule op_backend.sign_then_verify [OF assms(1) ok assms(3)])
  have claims: "verified_claims ?payload later =
      (if sint later < sint now + 600
       then Inr \<lparr>ac_webid = webid, ac_jkt = jkt, ac_issuer = container_iri (space_root space), ac_audience = [''solid'']\<rparr>
       else Inl Expired)"
    by (simp add: verified_claims_def token_claims_def ok_or_def as_str_def get_str_def json_get_def parse_audience_def
        List.map_filter_def ACCESS_TOKEN_TTL_SECS_def sint_add_600 [OF assms(5)] not_le)
  have iss: "get_str ''iss'' (JObject ?payload) = Some (container_iri (space_root space))"
    by (simp add: token_claims_def get_str_def json_get_def as_str_def)
  have "verify_access_token J tok resolver later v = (verified_claims ?payload later, v')"
    using tok(2-10) assms(4) iss
    by (simp add: verify_access_token_def decode_segment_def ok_or_def get_str_def json_get_def as_str_def op_bind_def)
  with tok(1) claims show ?thesis by (simp add: mint_access_token_def)
qed

text \<open>Example: a scheme with one kind of key, a pair of an identifier and an algorithm, that knows the
  header and claims of one token.\<close>

definition ex_claims :: "(string \<times> json) list" where
  "ex_claims = token_claims ex_pod ''w'' ''t'' 1000 ''u''"

definition ex_op_jose :: "(string option \<times> string option, unit, unit) op_jose" where
  "ex_op_jose = \<lparr>b64_decode = Some, b64_encode = (\<lambda>_. ''k''),
     json_from = (\<lambda>s. if s = ''h'' then Some (JObject (token_header ''k'')) else Some (JObject ex_claims)),
     sha256 = id, jwk_from_map = (\<lambda>_. None), key_type = (\<lambda>_. ''EC''), curve = (\<lambda>_. Some ''P-256''),
     key_id = fst, key_use = (\<lambda>_. None), is_for_key_operation = (\<lambda>_ _. True),
     rs256_verifier = (\<lambda>_. None), es256_verifier = (\<lambda>_. Some ()), jws_verify = (\<lambda>_ _ _. True),
     jwt_decode = (\<lambda>_ _. Some ex_claims),
     dpop_verifier = (\<lambda>_ _ _ _ _. Inl []), normalize_method = Inr, normalize_htu = Inr, url_parse = Inl,
     algorithm = snd, parameter = (\<lambda>_ _. None), set_key_id = (\<lambda>i k. (Some i, snd k)), set_algorithm = (\<lambda>a k. (fst k, Some a)),
     to_public_key = Inr, rs256_signer = (\<lambda>_. Inl []),
     es256_signer = (\<lambda>k. if snd k \<in> {None, Some ''ES256''} then Inr () else Inl []),
     jwt_encode = (\<lambda>p h _. if p = ex_claims \<and> h = token_header ''k'' then Some ''h.p.s'' else None),
     jwk_to_value = (\<lambda>_. JNull), json_to_string = (\<lambda>_. [])\<rparr>"

definition ex_disk :: "(string option \<times> string option, unit) disk" where
  "ex_disk = \<lparr>read_to_string = (\<lambda>_. op_err NotFound), create_new_private = (\<lambda>_ _. op_ok ()), generate_ec_key = op_ok (None, None)\<rparr>"

definition ex_readable :: "(string \<times> json) list \<Rightarrow> (string \<times> json) list \<Rightarrow> bool" where
  "ex_readable p h \<longleftrightarrow> p = ex_claims \<and> h = token_header ''k''"

lemma ex_token_parts: "split_on (CHR ''.'') ''h.p.s'' = [''h'', ''p'', ''s'']"
  by code_simp

interpretation ex_op: op_backend ex_op_jose ex_disk ex_readable
  by unfold_locales
     (auto simp: ex_op_jose_def ex_disk_def ex_readable_def ex_token_parts signer_for_def split: if_splits)

theorem minted_token_verifies_witness:
  "\<exists>tok. mint_access_token ex_op_jose [(Some ''k'', Some ''ES256'')] ex_pod ''w'' ''t'' 1000 ''u'' = Some tok \<and>
     fst (verify_access_token ex_op_jose tok (static_jwks_resolve [(''http://h/'', [(Some ''k'', Some ''ES256'')])]) 1599 ()) =
       Inr \<lparr>ac_webid = ''w'', ac_jkt = ''t'', ac_issuer = ''http://h/'', ac_audience = [''solid'']\<rparr>"
proof -
  let ?keys = "[(Some ''k'', Some ''ES256'')]" and ?res = "static_jwks_resolve [(''http://h/'', [(Some ''k'', Some ''ES256'')])]"
  have load: "load_or_generate ex_op_jose ex_disk [] () = (Inr ?keys, ())"
    by (simp add: load_or_generate_def generate_key_file_def ex_disk_def ex_op_jose_def thumbprint_def thumbprint_members_def
        Let_def op_bind_def op_map_err_def ok_or_def)
  have root: "container_iri (space_root ex_pod) = ''http://h/''" by code_simp
  have res: "?res (container_iri (space_root ex_pod)) () = (Inr (List.map_filter (published_key ex_op_jose) ?keys), ())"
    by (simp add: root static_jwks_resolve_def ok_or_def List.map_filter_def published_key_def ex_op_jose_def)
  have readable: "ex_readable (token_claims ex_pod ''w'' ''t'' 1000 ''u'') (token_header (the (key_id ex_op_jose (hd ?keys))))"
    by (simp add: ex_readable_def ex_claims_def ex_op_jose_def)
  from minted_token_verifies [OF ex_op.op_backend_axioms load readable, of ?res "()" "()" 1599] res show ?thesis
    by (auto simp: root)
qed

end
