(* ===== verification/Configuration.thy ===== *)
theory Configuration
  imports Edge Provider
begin

text \<open>
  Process configuration, \<^verbatim>\<open>src/config.rs\<close>: the arguments as the \<open>clap\<close> derive declares them, the TOML file
  whose values are installed as defaults, the search for its path, the blame of a bad value, and what
  the loaded configuration builds. \<open>clap\<close>, \<open>toml\<close>, the file system and the environment are parameters;
  paths are byte strings.
\<close>

section \<open>The configuration\<close>

record 'addr config =
  c_base_uri :: storage_space
  c_owner_webid :: iri
  c_trusted_issuers :: "string list"
  c_expected_audience :: "string option"
  c_allow_insecure_hosts :: "string list"
  c_listen :: 'addr
  c_reset_root_acl :: bool
  c_config :: "string option"
  c_rdf_store :: string
  c_blob_store :: string
  c_op_signing_keys :: "string option"
  c_max_body_bytes :: nat

record file_config =
  f_base_uri :: "string option"
  f_owner_webid :: "string option"
  f_trusted_issuers :: "string list option"
  f_expected_audience :: "string option"
  f_allow_insecure_hosts :: "string list option"
  f_listen :: "string option"
  f_reset_root_acl :: "bool option"
  f_rdf_store :: "string option"
  f_blob_store :: "string option"
  f_op_signing_keys :: "string option"
  f_max_body_bytes :: "nat option"

definition parse_space :: "(string \<Rightarrow> bool) \<Rightarrow> string \<Rightarrow> space_error + storage_space" where
  "parse_space valid_iri s = new_space valid_iri s"

datatype invalid_owner_webid = InvalidOwnerWebId

definition parse_owner_webid :: "(string \<Rightarrow> bool) \<Rightarrow> string \<Rightarrow> invalid_owner_webid + iri" where
  "parse_owner_webid valid_iri s = (if valid_iri s then Inr s else Inl InvalidOwnerWebId)"

section \<open>The command line\<close>

text \<open>One argument: its id, long flag, environment variable, defaults, the value a bare flag stands
  for, whether it is required and whether a value is split at commas.\<close>

record clap_arg =
  ca_id :: string
  ca_long :: string
  ca_env :: string
  ca_defaults :: "string list"
  ca_missing :: "string option"
  ca_required :: bool
  ca_delimited :: bool

definition clap_arg :: "string \<Rightarrow> string \<Rightarrow> string \<Rightarrow> string list \<Rightarrow> clap_arg" where
  "clap_arg i long env ds = \<lparr>ca_id = i, ca_long = long, ca_env = env, ca_defaults = ds, ca_missing = None,
     ca_required = False, ca_delimited = False\<rparr>"

definition config_command :: "clap_arg list" where
  "config_command =
    [clap_arg ''base_uri'' ''base-uri'' ''POD_BASE_URI'' [''http://localhost:3000/''],
     (clap_arg ''owner_webid'' ''owner-webid'' ''POD_OWNER_WEBID'' [])\<lparr>ca_required := True\<rparr>,
     (clap_arg ''trusted_issuers'' ''trusted-issuer'' ''POD_TRUSTED_ISSUERS'' [])\<lparr>ca_delimited := True\<rparr>,
     clap_arg ''expected_audience'' ''expected-audience'' ''POD_EXPECTED_AUDIENCE'' [],
     (clap_arg ''allow_insecure_hosts'' ''allow-insecure-host'' ''POD_ALLOW_INSECURE_HOSTS'' [])\<lparr>ca_delimited := True\<rparr>,
     clap_arg ''listen'' ''listen'' ''POD_LISTEN'' [''127.0.0.1:3000''],
     (clap_arg ''reset_root_acl'' ''reset-root-acl'' ''POD_RESET_ROOT_ACL'' [''false''])\<lparr>ca_missing := Some ''true''\<rparr>,
     clap_arg ''config'' ''config'' ''POD_CONFIG'' [],
     clap_arg ''rdf_store'' ''rdf-store'' ''POD_RDF_STORE'' [''memory''],
     clap_arg ''blob_store'' ''blob-store'' ''POD_BLOB_STORE'' [''memory''],
     clap_arg ''op_signing_keys'' ''op-signing-keys'' ''POD_OP_SIGNING_KEYS'' [],
     clap_arg ''max_body_bytes'' ''max-body-bytes'' ''POD_MAX_BODY_BYTES'' [''67108864'']]"

definition scalar_default :: "string \<Rightarrow> string option \<Rightarrow> (string \<times> string list) list" where
  "scalar_default key v = (case v of Some v \<Rightarrow> [(key, [v])] | None \<Rightarrow> [])"

definition list_default :: "string \<Rightarrow> string list option \<Rightarrow> (string \<times> string list) list" where
  "list_default key v = (case v of Some vs \<Rightarrow> [(key, vs)] | None \<Rightarrow> [])"

definition show_bool :: "bool \<Rightarrow> string" where
  "show_bool b = (if b then ''true'' else ''false'')"

definition as_defaults :: "file_config \<Rightarrow> (string \<times> string list) list" where
  "as_defaults f =
     scalar_default ''base_uri'' (f_base_uri f) @ scalar_default ''owner_webid'' (f_owner_webid f)
     @ scalar_default ''expected_audience'' (f_expected_audience f) @ scalar_default ''listen'' (f_listen f)
     @ scalar_default ''rdf_store'' (f_rdf_store f) @ scalar_default ''blob_store'' (f_blob_store f)
     @ scalar_default ''op_signing_keys'' (f_op_signing_keys f)
     @ list_default ''trusted_issuers'' (f_trusted_issuers f)
     @ list_default ''allow_insecure_hosts'' (f_allow_insecure_hosts f)
     @ scalar_default ''reset_root_acl'' (map_option show_bool (f_reset_root_acl f))
     @ scalar_default ''max_body_bytes'' (map_option show_nat (f_max_body_bytes f))"

fun config_path_from :: "string option \<Rightarrow> string list \<Rightarrow> string option" where
  "config_path_from pod_config [] = pod_config"
| "config_path_from pod_config (arg # args) =
     (if arg = ''--config'' then (case args of [] \<Rightarrow> None | v # _ \<Rightarrow> Some v)
      else case strip_prefix ''--config='' arg of
        Some rest \<Rightarrow> Some rest
      | None \<Rightarrow> config_path_from pod_config args)"

definition install_default :: "clap_arg \<Rightarrow> string list \<Rightarrow> clap_arg" where
  "install_default a values = a\<lparr>ca_defaults := values, ca_required := False\<rparr>"

definition command_with :: "(string \<times> string list) list \<Rightarrow> clap_arg list" where
  "command_with defaults = map (\<lambda>a. case map_of defaults (ca_id a) of
     Some values \<Rightarrow> install_default a values | None \<Rightarrow> a) config_command"

section \<open>Errors\<close>

text \<open>What \<open>clap\<close> reports, and an error raised with a kind and a text of our own.\<close>

record clap_error =
  ce_kind :: string
  ce_invalid_arg :: "string option"
  ce_invalid_value :: "string option"
  ce_text :: string

datatype load_error = Clap clap_error | Raw string string

definition trim_end :: "string \<Rightarrow> string" where
  "trim_end s = rev (dropWhile is_ascii_space (rev s))"

fun trim_dashes :: "string \<Rightarrow> string" where
  "trim_dashes s = (case s of a # b # rest \<Rightarrow> if a = CHR ''-'' \<and> b = CHR ''-'' then trim_dashes rest else s | _ \<Rightarrow> s)"

definition long_flag :: "string \<Rightarrow> string" where
  "long_flag arg = takeWhile (\<lambda>c. c \<notin> {CHR '' '', CHR ''='', CHR ''<''}) (trim_dashes arg)"

definition HELP_HINT :: string where "HELP_HINT = ''For more information, try '' @ [CHR 0x27] @ ''--help'' @ [CHR 0x27] @ ''.''"

definition nested_message :: "string \<Rightarrow> string" where
  "nested_message rendered =
     (let msg = trim_end (case strip_prefix ''error: '' rendered of Some m \<Rightarrow> m | None \<Rightarrow> rendered) in
      case strip_suffix HELP_HINT msg of Some stripped \<Rightarrow> trim_end stripped | None \<Rightarrow> msg)"

definition blame_file ::
  "(string \<Rightarrow> string) \<Rightarrow> clap_error \<Rightarrow> string \<Rightarrow> (string \<rightharpoonup> string \<times> string list) \<Rightarrow> load_error" where
  "blame_file display err path from_file =
     (case ce_invalid_arg err of
        None \<Rightarrow> Clap err
      | Some arg \<Rightarrow> (case from_file (long_flag arg) of
          None \<Rightarrow> Clap err
        | Some (key, values) \<Rightarrow> (case ce_invalid_value err of
            None \<Rightarrow> Clap err
          | Some bad_value \<Rightarrow>
              if bad_value \<notin> set values then Clap err
              else Raw (ce_kind err) (display path @ '': `'' @ key @ ''`: '' @ nested_message (ce_text err) @ [CHR 0x0A]))))"

definition from_file_map :: "(string \<times> string list) list \<Rightarrow> clap_arg list \<Rightarrow> (string \<rightharpoonup> string \<times> string list)" where
  "from_file_map defaults cmd = map_of (rev (List.map_filter (\<lambda>a.
     map_option (\<lambda>values. (ca_long a, (ca_id a, values))) (map_of defaults (ca_id a))) cmd))"

section \<open>Loading\<close>

text \<open>The process as the loader finds it: \<open>clap\<close> run on an argument list, with its typed parsers for
  socket addresses, sizes and booleans, the environment, the file system and \<open>toml\<close>.\<close>

record 'addr process =
  pr_matches :: "clap_arg list \<Rightarrow> string list \<Rightarrow> clap_error + (string \<Rightarrow> string list)"
  pr_missing :: "string \<Rightarrow> clap_error"
  pr_socket_addr :: "string \<Rightarrow> 'addr option"
  pr_usize :: "string \<Rightarrow> nat option"
  pr_boolish :: "string \<Rightarrow> bool option"
  pr_valid_iri :: "string \<Rightarrow> bool"
  pr_pod_config :: "string option"
  pr_read :: "string \<Rightarrow> string + string"
  pr_toml :: "string \<Rightarrow> string + file_config"
  pr_display :: "string \<Rightarrow> string"

definition file_config_read :: "'addr process \<Rightarrow> string \<Rightarrow> load_error + file_config" where
  "file_config_read P path =
     (let refuse = (\<lambda>kind e. Raw kind (''--config '' @ pr_display P path @ '': '' @ e @ [CHR 0x0A])) in
      res_bind (map_err (refuse ''Io'') (pr_read P path)) (\<lambda>text.
        map_err (refuse ''InvalidValue'') (pr_toml P text)))"

text \<open>The derived \<open>from_arg_matches\<close>: each field from the values matched for its id, through the
  parser that checked them.\<close>

definition one_of :: "'addr process \<Rightarrow> (string \<Rightarrow> string list) \<Rightarrow> string \<Rightarrow> (string \<Rightarrow> 'a option) \<Rightarrow> clap_error + 'a" where
  "one_of P m i parse = ok_or (pr_missing P i) (case m i of v # _ \<Rightarrow> parse v | [] \<Rightarrow> None)"

definition optional :: "(string \<Rightarrow> string list) \<Rightarrow> string \<Rightarrow> string option" where
  "optional m i = (case m i of v # _ \<Rightarrow> Some v | [] \<Rightarrow> None)"

definition res_opt :: "'e + 'a \<Rightarrow> 'a option" where
  "res_opt r = (case r of Inl _ \<Rightarrow> None | Inr x \<Rightarrow> Some x)"

definition from_arg_matches :: "'addr process \<Rightarrow> (string \<Rightarrow> string list) \<Rightarrow> clap_error + 'addr config" where
  "from_arg_matches P m =
     res_bind (one_of P m ''base_uri'' (res_opt \<circ> parse_space (pr_valid_iri P))) (\<lambda>base.
     res_bind (one_of P m ''owner_webid'' (res_opt \<circ> parse_owner_webid (pr_valid_iri P))) (\<lambda>owner.
     res_bind (one_of P m ''listen'' (pr_socket_addr P)) (\<lambda>listen.
     res_bind (one_of P m ''reset_root_acl'' (pr_boolish P)) (\<lambda>reset.
     res_bind (one_of P m ''rdf_store'' Some) (\<lambda>rdf.
     res_bind (one_of P m ''blob_store'' Some) (\<lambda>blob.
     res_bind (one_of P m ''max_body_bytes'' (pr_usize P)) (\<lambda>max.
       Inr \<lparr>c_base_uri = base, c_owner_webid = owner, c_trusted_issuers = m ''trusted_issuers'',
         c_expected_audience = optional m ''expected_audience'', c_allow_insecure_hosts = m ''allow_insecure_hosts'',
         c_listen = listen, c_reset_root_acl = reset, c_config = optional m ''config'', c_rdf_store = rdf,
         c_blob_store = blob, c_op_signing_keys = optional m ''op_signing_keys'', c_max_body_bytes = max\<rparr>)))))))"

definition try_load_from :: "'addr process \<Rightarrow> string list \<Rightarrow> load_error + 'addr config" where
  "try_load_from P argv =
     (case config_path_from (pr_pod_config P) argv of
        None \<Rightarrow> map_err Clap (res_bind (pr_matches P (command_with []) argv) (from_arg_matches P))
      | Some path \<Rightarrow>
          res_bind (file_config_read P path) (\<lambda>f.
            let defaults = as_defaults f; cmd = command_with defaults in
            res_bind (map_err (\<lambda>e. blame_file (pr_display P) e path (from_file_map defaults cmd)) (pr_matches P cmd argv)) (\<lambda>m.
              map_err Clap (from_arg_matches P m))))"

section \<open>What it builds\<close>

definition configured :: "string list \<Rightarrow> string list" where
  "configured entries = filter (\<lambda>s. s \<noteq> []) (map trim entries)"

definition config_auth_config :: "'addr config \<Rightarrow> auth_config" where
  "config_auth_config c =
     (let issuers = set (configured (c_trusted_issuers c)) in
      \<lparr>trusted_issuers = (if issuers = {} then None else Some issuers), expected_audience = c_expected_audience c\<rparr>)"

definition try_fetch_policy :: "'n network \<Rightarrow> 'addr config \<Rightarrow> fetch_policy \<times> string list" where
  "try_fetch_policy N c = try_with_insecure_hosts N (configured (c_allow_insecure_hosts c))"

datatype config_error =
    BlobLocalError string
  | BlobSpecError string
  | RdfMemoryError string
  | RdfRocksError string
  | RdfSpecError string
  | OpNeedsOrigin string
  | OpKeysError key_error

text \<open>The constructors of the backends.\<close>

record ('db, 'bl) backends =
  bk_blobs_in_memory :: 'bl
  bk_blobs_local :: "string \<Rightarrow> string + 'bl"
  bk_store_new :: "string + 'db"
  bk_store_open :: "string \<Rightarrow> string + 'db"

definition config_blobs :: "('db, 'bl) backends \<Rightarrow> 'addr config \<Rightarrow> config_error + 'bl" where
  "config_blobs B c =
     (let spec = trim (c_blob_store c) in
      if spec = ''memory'' then Inr (bk_blobs_in_memory B)
      else case strip_prefix ''local:'' spec of
        Some dir \<Rightarrow> map_err BlobLocalError (bk_blobs_local B dir)
      | None \<Rightarrow> Inl (BlobSpecError spec))"

definition config_rdf_store :: "('db, 'bl) backends \<Rightarrow> 'addr config \<Rightarrow> config_error + 'db" where
  "config_rdf_store B c =
     (let spec = trim (c_rdf_store c) in
      if spec = ''memory'' then map_err RdfMemoryError (bk_store_new B)
      else case strip_prefix ''rocksdb:'' spec of
        Some dir \<Rightarrow> map_err RdfRocksError (bk_store_open B dir)
      | None \<Rightarrow> Inl (RdfSpecError spec))"

fun after_str :: "string \<Rightarrow> string \<Rightarrow> string option" where
  "after_str pat [] = strip_prefix pat []"
| "after_str pat (c # cs) = (case strip_prefix pat (c # cs) of Some rest \<Rightarrow> Some rest | None \<Rightarrow> after_str pat cs)"

definition op_keys ::
  "('k, 'v, 's) op_jose \<Rightarrow> ('k, 'w) disk \<Rightarrow> 'addr config \<Rightarrow> ('w, config_error, 'k list option) op" where
  "op_keys J D c =
     (case c_op_signing_keys c of
        None \<Rightarrow> op_ok None
      | Some path \<Rightarrow>
          (let root = container_iri (space_root (c_base_uri c));
               after_scheme = (case after_str ''://'' root of Some rest \<Rightarrow> rest | None \<Rightarrow> root)
           in if CHR ''/'' \<in> set (trim_end_matches (CHR ''/'') after_scheme) then op_err (OpNeedsOrigin root)
              else op_bind (op_map_err OpKeysError (load_or_generate J D path)) (\<lambda>ks. op_ok (Some ks))))"

section \<open>Precedence\<close>

text \<open>What \<open>clap\<close> documents of a parse that succeeds, with \<open>given\<close> the values the command line or the
  environment has for an argument id: a given argument has the values given, one that is not given
  its defaults, and a required one is given. Defaults of arguments split at commas are left open.\<close>

locale clap_rules =
  fixes P :: "'addr process" and given :: "string \<Rightarrow> string list \<Rightarrow> string list option"
  assumes given_wins: "pr_matches P (command_with ds) argv = Inr m \<Longrightarrow> a \<in> set (command_with ds) \<Longrightarrow>
      given (ca_id a) argv = Some vs \<Longrightarrow> m (ca_id a) = vs"
    and default_otherwise: "pr_matches P (command_with ds) argv = Inr m \<Longrightarrow> a \<in> set (command_with ds) \<Longrightarrow>
      given (ca_id a) argv = None \<Longrightarrow> \<not> ca_delimited a \<Longrightarrow> m (ca_id a) = ca_defaults a"
    and required_given: "pr_matches P (command_with ds) argv = Inr m \<Longrightarrow> a \<in> set (command_with ds) \<Longrightarrow>
      ca_required a \<Longrightarrow> given (ca_id a) argv \<noteq> None"

definition effective :: "(string \<Rightarrow> string list \<Rightarrow> string list option) \<Rightarrow> file_config \<Rightarrow> string list \<Rightarrow> clap_arg \<Rightarrow> string list" where
  "effective given f argv a =
     (case given (ca_id a) argv of Some vs \<Rightarrow> vs
      | None \<Rightarrow> (case map_of (as_defaults f) (ca_id a) of Some vs \<Rightarrow> vs | None \<Rightarrow> ca_defaults a))"

lemma command_with_arg:
  assumes "a \<in> set config_command"
  shows "(case map_of ds (ca_id a) of Some vs \<Rightarrow> install_default a vs | None \<Rightarrow> a) \<in> set (command_with ds)"
  using assms unfolding command_with_def by (simp add: image_iff) (rule bexI, rule refl)

lemma default_keys:
  "fst ` set (scalar_default k v) = (if v = None then {} else {k})" "fst ` set (list_default k vs) = (if vs = None then {} else {k})"
  by (auto simp: scalar_default_def list_default_def split: option.splits)

context clap_rules
begin

lemma matched_effective:
  assumes m: "pr_matches P (command_with (as_defaults f)) argv = Inr m" and a: "a \<in> set config_command" "\<not> ca_delimited a"
  shows "m (ca_id a) = effective given f argv a"
proof -
  let ?a = "case map_of (as_defaults f) (ca_id a) of Some vs \<Rightarrow> install_default a vs | None \<Rightarrow> a"
  have same: "ca_id ?a = ca_id a" "ca_delimited ?a = ca_delimited a"
    "ca_defaults ?a = (case map_of (as_defaults f) (ca_id a) of Some vs \<Rightarrow> vs | None \<Rightarrow> ca_defaults a)"
    by (simp_all add: install_default_def split: option.split)
  note arg = command_with_arg [OF a(1), of "as_defaults f"]
  show ?thesis
    using given_wins [OF m arg] default_otherwise [OF m arg] a(2) same
    by (cases "given (ca_id a) argv") (simp_all add: effective_def)
qed

lemma owner_named:
  assumes "pr_matches P (command_with (as_defaults f)) argv = Inr m"
  shows "given ''owner_webid'' argv \<noteq> None \<or> f_owner_webid f \<noteq> None"
proof (rule disjCI)
  let ?a = "(clap_arg ''owner_webid'' ''owner-webid'' ''POD_OWNER_WEBID'' [])\<lparr>ca_required := True\<rparr>"
  assume "\<not> f_owner_webid f \<noteq> None"
  then have "map_of (as_defaults f) ''owner_webid'' = None"
    by (simp add: as_defaults_def map_of_eq_None_iff image_Un default_keys)
  moreover have "?a \<in> set config_command" by (simp add: config_command_def)
  ultimately have "?a \<in> set (command_with (as_defaults f))"
    using command_with_arg [of ?a "as_defaults f"] by (simp add: clap_arg_def)
  from required_given [OF assms this] show "given ''owner_webid'' argv \<noteq> None" by (simp add: clap_arg_def)
qed

end

lemma one_of_Inr: "one_of P m i parse = Inr x \<Longrightarrow> parse (hd (m i)) = Some x"
  by (cases "m i") (auto simp: one_of_def)

lemma optional_hd: "optional m i = (if m i = [] then None else Some (hd (m i)))"
  by (cases "m i") (simp_all add: optional_def)

text \<open>The argument with a given id.\<close>

definition config_arg :: "string \<Rightarrow> clap_arg" where
  "config_arg i = the (find (\<lambda>a. ca_id a = i) config_command)"

definition scalar_ids :: "string list" where
  "scalar_ids = [''base_uri'', ''owner_webid'', ''expected_audience'', ''listen'', ''reset_root_acl'', ''rdf_store'', ''blob_store'',
     ''op_signing_keys'', ''max_body_bytes'']"

lemma config_arg_mem:
  "list_all (\<lambda>i. config_arg i \<in> set config_command \<and> ca_id (config_arg i) = i \<and> \<not> ca_delimited (config_arg i)) scalar_ids"
  by code_simp

lemma from_arg_matches_fields:
  assumes "from_arg_matches P m = Inr c"
  shows "new_space (pr_valid_iri P) (hd (m ''base_uri'')) = Inr (c_base_uri c)"
    "c_owner_webid c = hd (m ''owner_webid'')" "pr_valid_iri P (c_owner_webid c)"
    "pr_socket_addr P (hd (m ''listen'')) = Some (c_listen c)" "pr_boolish P (hd (m ''reset_root_acl'')) = Some (c_reset_root_acl c)"
    "c_rdf_store c = hd (m ''rdf_store'')" "c_blob_store c = hd (m ''blob_store'')"
    "pr_usize P (hd (m ''max_body_bytes'')) = Some (c_max_body_bytes c)"
    "c_expected_audience c = (if m ''expected_audience'' = [] then None else Some (hd (m ''expected_audience'')))"
    "c_op_signing_keys c = (if m ''op_signing_keys'' = [] then None else Some (hd (m ''op_signing_keys'')))"
proof -
  from assms [unfolded from_arg_matches_def] obtain base owner listen reset rdf blob max
    where one: "one_of P m ''base_uri'' (res_opt \<circ> parse_space (pr_valid_iri P)) = Inr base"
      "one_of P m ''owner_webid'' (res_opt \<circ> parse_owner_webid (pr_valid_iri P)) = Inr owner"
      "one_of P m ''listen'' (pr_socket_addr P) = Inr listen" "one_of P m ''reset_root_acl'' (pr_boolish P) = Inr reset"
      "one_of P m ''rdf_store'' Some = Inr rdf" "one_of P m ''blob_store'' Some = Inr blob"
      "one_of P m ''max_body_bytes'' (pr_usize P) = Inr max"
      and c: "c = \<lparr>c_base_uri = base, c_owner_webid = owner, c_trusted_issuers = m ''trusted_issuers'',
         c_expected_audience = optional m ''expected_audience'', c_allow_insecure_hosts = m ''allow_insecure_hosts'',
         c_listen = listen, c_reset_root_acl = reset, c_config = optional m ''config'', c_rdf_store = rdf,
         c_blob_store = blob, c_op_signing_keys = optional m ''op_signing_keys'', c_max_body_bytes = max\<rparr>"
    by (elim res_bind_InrE) (drule sym, simp)
  note one = one [THEN one_of_Inr]
  show "new_space (pr_valid_iri P) (hd (m ''base_uri'')) = Inr (c_base_uri c)"
    using one(1) by (simp add: c parse_space_def res_opt_def split: sum.splits)
  show "c_owner_webid c = hd (m ''owner_webid'')" "pr_valid_iri P (c_owner_webid c)"
    using one(2) by (simp_all add: c parse_owner_webid_def res_opt_def split: if_splits)
  show "pr_socket_addr P (hd (m ''listen'')) = Some (c_listen c)" "pr_boolish P (hd (m ''reset_root_acl'')) = Some (c_reset_root_acl c)"
    "c_rdf_store c = hd (m ''rdf_store'')" "c_blob_store c = hd (m ''blob_store'')"
    "pr_usize P (hd (m ''max_body_bytes'')) = Some (c_max_body_bytes c)"
    "c_expected_audience c = (if m ''expected_audience'' = [] then None else Some (hd (m ''expected_audience'')))"
    "c_op_signing_keys c = (if m ''op_signing_keys'' = [] then None else Some (hd (m ''op_signing_keys'')))"
    using one by (simp_all add: c optional_hd)
qed


text \<open>Example: a parser of \<open>--flag value\<close> pairs.\<close>

fun flag_value :: "string \<Rightarrow> string list \<Rightarrow> string list option" where
  "flag_value flag (a # b # rest) = (if a = flag then Some [b] else flag_value flag (b # rest))"
| "flag_value flag _ = None"

definition ex_given :: "string \<Rightarrow> string list \<Rightarrow> string list option" where
  "ex_given i argv = flag_value (''--'' @ map (\<lambda>ch. if ch = CHR ''_'' then CHR ''-'' else ch) i) argv"

definition ex_clap_error :: clap_error where
  "ex_clap_error = \<lparr>ce_kind = ''MissingRequiredArgument'', ce_invalid_arg = None, ce_invalid_value = None, ce_text = []\<rparr>"

definition ex_file :: file_config where
  "ex_file = \<lparr>f_base_uri = None, f_owner_webid = Some ''http://o/'', f_trusted_issuers = None, f_expected_audience = None,
     f_allow_insecure_hosts = None, f_listen = Some ''f'', f_reset_root_acl = None, f_rdf_store = None, f_blob_store = None,
     f_op_signing_keys = None, f_max_body_bytes = None\<rparr>"

definition ex_process :: "string process" where
  "ex_process = \<lparr>pr_matches = (\<lambda>cmd argv.
       if list_ex (\<lambda>a. ca_required a \<and> ex_given (ca_id a) argv = None) cmd then Inl ex_clap_error
       else Inr (\<lambda>i. case ex_given i argv of Some vs \<Rightarrow> vs
         | None \<Rightarrow> (case find (\<lambda>a. ca_id a = i) cmd of Some a \<Rightarrow> ca_defaults a | None \<Rightarrow> []))),
     pr_missing = (\<lambda>_. ex_clap_error), pr_socket_addr = Some, pr_usize = (\<lambda>_. Some 0), pr_boolish = (\<lambda>s. Some (s = ''true'')),
     pr_valid_iri = (\<lambda>_. True), pr_pod_config = None, pr_read = Inr, pr_toml = (\<lambda>_. Inr ex_file), pr_display = id\<rparr>"

lemma command_ids: "map ca_id (command_with ds) = map ca_id config_command"
  by (simp add: command_with_def install_default_def split: option.split)

lemma command_find: "a \<in> set (command_with ds) \<Longrightarrow> find (\<lambda>b. ca_id b = ca_id a) (command_with ds) = Some a"
proof -
  have "distinct (map ca_id cmd) \<Longrightarrow> a \<in> set cmd \<Longrightarrow> find (\<lambda>b. ca_id b = ca_id a) cmd = Some a" for cmd
    by (induction cmd) auto
  moreover have "distinct (map ca_id (command_with ds))" unfolding command_ids by code_simp
  ultimately show "a \<in> set (command_with ds) \<Longrightarrow> ?thesis" by blast
qed

interpretation ex_clap: clap_rules ex_process ex_given
  by unfold_locales (auto simp: ex_process_def list_ex_iff command_find split: if_splits)


end
