(* ===== verification/Notify.thy ===== *)
theory Notify
  imports Edge
begin

text \<open>
  Change events, \<^verbatim>\<open>src/notify.rs\<close>: the registry of channels, the reads and locks it takes, and
  what each write publishes. A \<open>tokio\<close> broadcast sender is the list of its receivers, each with
  the events it has not read yet, the oldest dropped beyond the capacity. \<open>Bus::live\<close> and the drop
  of a receiver take the lock twice, so each half is an operation of its own and the step
  relation interleaves them.
\<close>

datatype topic = Topic iri

definition topic_of :: "target \<Rightarrow> topic" where "topic_of t = Topic (target_iri t)"

fun topic_iri :: "topic \<Rightarrow> iri" where "topic_iri (Topic i) = i"

datatype activity = Create | Update | Delete | Add | Remove

record event =
  ev_topic :: topic
  ev_activity :: activity
  ev_object :: iri
  ev_target :: "iri option"
  ev_state :: "string option"

definition CAPACITY :: nat where "CAPACITY = 64"

definition last_n :: "nat \<Rightarrow> 'a list \<Rightarrow> 'a list" where
  "last_n n xs = drop (length xs - n) xs"

type_synonym channel = "(nat \<times> event list) list"

record bus =
  channels :: "topic \<rightharpoonup> channel"

definition new_bus :: bus where "new_bus = \<lparr>channels = (\<lambda>_. None)\<rparr>"

abbreviation receiver_count :: "channel \<Rightarrow> nat" where "receiver_count ch \<equiv> length ch"

definition send :: "event \<Rightarrow> channel \<Rightarrow> channel" where
  "send e ch = map (\<lambda>(r, q). (r, last_n CAPACITY (q @ [e]))) ch"

section \<open>The registry\<close>

definition live_scan :: "bus \<Rightarrow> topic list \<Rightarrow> topic list \<times> topic list" where
  "live_scan b topics =
     (filter (\<lambda>t. case channels b t of Some ch \<Rightarrow> receiver_count ch \<noteq> 0 | None \<Rightarrow> False) topics,
      filter (\<lambda>t. case channels b t of Some ch \<Rightarrow> receiver_count ch = 0 | None \<Rightarrow> False) topics)"

definition remove_if_dead :: "bus \<Rightarrow> topic \<Rightarrow> bus" where
  "remove_if_dead b t =
     (case channels b t of
        Some ch \<Rightarrow> if receiver_count ch = 0 then b\<lparr>channels := (channels b)(t := None)\<rparr> else b
      | None \<Rightarrow> b)"

definition live_evict :: "bus \<Rightarrow> topic list \<Rightarrow> bus" where
  "live_evict b dead = foldl remove_if_dead b dead"

definition live :: "bus \<Rightarrow> topic list \<Rightarrow> topic list \<times> bus" where
  "live b topics = (let (alive, dead) = live_scan b topics in (alive, live_evict b dead))"

definition publish :: "bus \<Rightarrow> event \<Rightarrow> bus" where
  "publish b e =
     (case channels b (ev_topic e) of
        Some ch \<Rightarrow> b\<lparr>channels := (channels b)(ev_topic e \<mapsto> send e ch)\<rparr>
      | None \<Rightarrow> b)"

definition subscribe :: "bus \<Rightarrow> topic \<Rightarrow> nat \<Rightarrow> bus" where
  "subscribe b t r =
     b\<lparr>channels := (channels b)(t \<mapsto> (case channels b t of Some ch \<Rightarrow> ch | None \<Rightarrow> []) @ [(r, [])])\<rparr>"

text \<open>\<open>drop(self.rx.take())\<close>, and then the unregistration under the lock.\<close>

definition drop_rx :: "bus \<Rightarrow> topic \<Rightarrow> nat \<Rightarrow> bus" where
  "drop_rx b t r = b\<lparr>channels := (channels b)(t := map_option (filter (\<lambda>(r', _). r' \<noteq> r)) (channels b t))\<rparr>"

definition unregister :: "bus \<Rightarrow> topic \<Rightarrow> bus" where
  "unregister b t = remove_if_dead b t"

section \<open>Events\<close>

datatype existence = Existed | Absent

definition etag_of :: "('db, 'bl) server \<Rightarrow> skolemized \<Rightarrow> string" where
  "etag_of S stored = sv_etag S stored NQuads (dataset_version (sv_visible S stored))"

definition state_of :: "('db, 'bl) server \<Rightarrow> ('db, 'bl) world \<Rightarrow> target \<Rightarrow> string option" where
  "state_of S w t =
     (let E = sv_env S in
      case t of
        Resource r \<Rightarrow>
          (case fst (kind_of E (r_iri r) w) of
             Inr (Some (KindBinary _)) \<Rightarrow>
               (case blob_key (e_path_from E) r of
                  None \<Rightarrow> None
                | Some key \<Rightarrow> (case fst (bl_get E key w) of
                    Inr (Some b) \<Rightarrow> Some (blob_etag E b) | _ \<Rightarrow> None))
           | Inl _ \<Rightarrow> None
           | Inr _ \<Rightarrow> (case fst (get_dataset E (r_iri r) w) of
               Inr (Some stored) \<Rightarrow> Some (etag_of S stored) | _ \<Rightarrow> None))
      | _ \<Rightarrow> (case fst (get_rdf E (target_iri t) w) of
          Inr (Some triples) \<Rightarrow> map_option (etag_of S) (ground_dataset triples) | _ \<Rightarrow> None))"

definition publish_own ::
  "('db, 'bl) server \<Rightarrow> ('db, 'bl) world \<Rightarrow> target \<Rightarrow> activity \<Rightarrow> bus \<Rightarrow> bus" where
  "publish_own S w t a b =
     (let tp = topic_of t; (alive, b1) = live b [tp] in
      if alive = [] then b1
      else publish b1 \<lparr>ev_topic = tp, ev_activity = a, ev_object = topic_iri tp, ev_target = None,
        ev_state = (case a of Delete \<Rightarrow> None | _ \<Rightarrow> state_of S w t)\<rparr>)"

definition publish_membership ::
  "('db, 'bl) server \<Rightarrow> ('db, 'bl) world \<Rightarrow> container_url \<Rightarrow> activity \<Rightarrow> iri \<Rightarrow> bus \<Rightarrow> bus" where
  "publish_membership S w c a child b =
     (let tp = topic_of (Container c); (alive, b1) = live b [tp] in
      if alive = [] then b1
      else publish b1 \<lparr>ev_topic = tp, ev_activity = a, ev_object = child,
        ev_target = Some (container_iri c), ev_state = state_of S w (Container c)\<rparr>)"

definition publish_containment ::
  "('db, 'bl) server \<Rightarrow> ('db, 'bl) world \<Rightarrow> iri \<Rightarrow> materialized \<Rightarrow> bus \<Rightarrow> bus" where
  "publish_containment S w tgt m b =
     foldl (\<lambda>b (c, child). publish_membership S w c Add child b)
       (foldl (\<lambda>b u.
          if r_iri u = tgt then b
          else case as_container u of
            None \<Rightarrow> b
          | Some c \<Rightarrow> publish_own S w (Container c) Create b) b (m_created m))
       (m_linked m)"

definition emit_put ::
  "('db, 'bl) server \<Rightarrow> ('db, 'bl) world \<Rightarrow> target \<Rightarrow> existence \<Rightarrow> materialized \<Rightarrow> nat \<Rightarrow> bus \<Rightarrow> bus" where
  "emit_put S w t ex m status b =
     (if \<not> is_success status then b
      else publish_containment S w (target_iri t) m
        (publish_own S w t (case ex of Existed \<Rightarrow> Update | Absent \<Rightarrow> Create) b))"

definition emit_post ::
  "('db, 'bl) server \<Rightarrow> ('db, 'bl) world \<Rightarrow> target \<Rightarrow> materialized \<Rightarrow> nat \<Rightarrow> bus \<Rightarrow> bus" where
  "emit_post S w child m status b =
     (if \<not> is_success status then b
      else publish_containment S w (target_iri child) m (publish_own S w child Create b))"

definition emit_patch ::
  "('db, 'bl) server \<Rightarrow> ('db, 'bl) world \<Rightarrow> target \<Rightarrow> existence \<Rightarrow> materialized \<Rightarrow> nat \<Rightarrow> bus \<Rightarrow> bus" where
  "emit_patch S w t ex m status b =
     (if \<not> is_success status then b
      else publish_containment S w (target_iri t) m
        (publish_own S w t (case ex of Existed \<Rightarrow> Update | Absent \<Rightarrow> Create) b))"

definition emit_delete ::
  "('db, 'bl) server \<Rightarrow> ('db, 'bl) world \<Rightarrow> target \<Rightarrow> aux_url list \<Rightarrow> nat \<Rightarrow> bus \<Rightarrow> bus" where
  "emit_delete S w t auxiliaries status b =
     (if \<not> is_success status then b
      else
        (let b1 = foldl (\<lambda>b a. publish_own S w (Aux a) Delete b) (publish_own S w t Delete b) auxiliaries in
         case (case t of Resource r \<Rightarrow> parent r | Container c \<Rightarrow> parent (as_resource c) | Aux _ \<Rightarrow> None) of
           None \<Rightarrow> b1
         | Some p \<Rightarrow> publish_membership S w p Remove (target_iri t) b1))"

section \<open>Who hears what\<close>

text \<open>The unread events of one receiver; \<open>None\<close> when it has no place in the registry.\<close>

definition inbox :: "bus \<Rightarrow> topic \<Rightarrow> nat \<Rightarrow> event list option" where
  "inbox b t r = Option.bind (channels b t) (\<lambda>ch. map_of ch r)"

lemma last_n_append: "last_n n (last_n n xs @ ys) = last_n n (xs @ ys)"
proof (cases "length xs \<le> n")
  case False
  have "drop (length xs - n) xs @ ys = drop (length xs - n) (xs @ ys)" by simp
  with False show ?thesis by (simp add: last_n_def add.commute)
qed (simp add: last_n_def)

lemma map_of_send: "map_of (send e ch) r = map_option (\<lambda>q. last_n CAPACITY (q @ [e])) (map_of ch r)"
  by (induction ch) (auto simp: send_def)

lemma inbox_publish:
  "inbox (publish b e) t r =
     (if t = ev_topic e then map_option (\<lambda>q. last_n CAPACITY (q @ [e])) (inbox b t r) else inbox b t r)"
  by (auto simp: inbox_def publish_def map_of_send split: option.splits)

lemma inbox_remove_if_dead [simp]: "inbox (remove_if_dead b t') t r = inbox b t r"
  by (auto simp: inbox_def remove_if_dead_def split: option.splits)

lemma inbox_live_evict [simp]: "inbox (live_evict b dead) t r = inbox b t r"
  unfolding live_evict_def by (induction dead arbitrary: b) auto

lemma inbox_None: "(\<forall>r. inbox b t r = None) \<longleftrightarrow> (\<forall>ch. channels b t = Some ch \<longrightarrow> ch = [])"
proof -
  have "(\<forall>r. map_of ch r = None) \<longleftrightarrow> ch = []" for ch :: channel
    by (cases ch) (auto simp: map_of_eq_None_iff)
  then show ?thesis by (cases "channels b t") (simp_all add: inbox_def)
qed

lemma live_single:
  assumes "live b [t] = (al, b1)"
  shows "al = [] \<longleftrightarrow> (\<forall>r. inbox b t r = None)" and "inbox b1 t' r' = inbox b t' r'"
  using assms unfolding inbox_None by (auto simp: live_def live_scan_def split: option.splits if_splits)

text \<open>The specification: an event offered to its topic.\<close>

definition offer :: "bus \<Rightarrow> event \<Rightarrow> bus" where
  "offer b e = (let (al, b1) = live b [ev_topic e] in if al = [] then b1 else publish b1 e)"

lemma inbox_offer:
  "inbox (offer b e) t r =
     (if t = ev_topic e then map_option (\<lambda>q. last_n CAPACITY (q @ [e])) (inbox b t r) else inbox b t r)"
proof (cases "live b [ev_topic e]")
  case (Pair al b1)
  note l = live_single [OF Pair]
  show ?thesis using l(1) by (auto simp: offer_def Pair inbox_publish l(2))
qed

lemma inbox_offers:
  "inbox b t r = Some q \<Longrightarrow>
     \<exists>q'. inbox (foldl offer b es) t r = Some q' \<and>
       last_n CAPACITY q' = last_n CAPACITY (q @ filter (\<lambda>e. ev_topic e = t) es)"
proof (induction es arbitrary: b q)
  case Nil
  then show ?case by simp
next
  case (Cons e es)
  show ?case
  proof (cases "ev_topic e = t")
    case True
    with Cons.prems have "inbox (offer b e) t r = Some (last_n CAPACITY (q @ [e]))" by (simp add: inbox_offer)
    from Cons.IH [OF this] True show ?thesis by (simp add: last_n_append)
  next
    case False
    with Cons.prems have "inbox (offer b e) t r = Some q" by (simp add: inbox_offer)
    from Cons.IH [OF this] False show ?thesis by simp
  qed
qed

definition own_event :: "('db, 'bl) server \<Rightarrow> ('db, 'bl) world \<Rightarrow> target \<Rightarrow> activity \<Rightarrow> event" where
  "own_event S w t a = \<lparr>ev_topic = topic_of t, ev_activity = a, ev_object = target_iri t, ev_target = None,
     ev_state = (if a = Delete then None else state_of S w t)\<rparr>"

definition member_event ::
  "('db, 'bl) server \<Rightarrow> ('db, 'bl) world \<Rightarrow> container_url \<Rightarrow> activity \<Rightarrow> iri \<Rightarrow> event" where
  "member_event S w c a child = \<lparr>ev_topic = topic_of (Container c), ev_activity = a, ev_object = child,
     ev_target = Some (container_iri c), ev_state = state_of S w (Container c)\<rparr>"

definition containment_events ::
  "('db, 'bl) server \<Rightarrow> ('db, 'bl) world \<Rightarrow> iri \<Rightarrow> materialized \<Rightarrow> event list" where
  "containment_events S w tgt m =
     map (\<lambda>c. own_event S w (Container c) Create)
       (List.map_filter as_container (filter (\<lambda>u. r_iri u \<noteq> tgt) (m_created m)))
     @ map (\<lambda>(c, child). member_event S w c Add child) (m_linked m)"

lemma publish_own_offer: "publish_own S w t a b = offer b (own_event S w t a)"
  by (cases a) (simp_all add: publish_own_def offer_def own_event_def topic_of_def Let_def split: prod.splits)

lemma publish_membership_offer: "publish_membership S w c a child b = offer b (member_event S w c a child)"
  by (simp add: publish_membership_def offer_def member_event_def Let_def split: prod.splits)

lemma foldl_publish_aux:
  "foldl (\<lambda>b a. publish_own S w (Aux a) act b) b as = foldl offer b (map (\<lambda>a. own_event S w (Aux a) act) as)"
  by (induction as arbitrary: b) (auto simp: publish_own_offer)

lemma publish_containment_offer:
  "publish_containment S w tgt m b = foldl offer b (containment_events S w tgt m)"
proof -
  have "foldl (\<lambda>b u. if r_iri u = tgt then b else case as_container u of
            None \<Rightarrow> b | Some c \<Rightarrow> publish_own S w (Container c) Create b) b us =
      foldl offer b (map (\<lambda>c. own_event S w (Container c) Create)
        (List.map_filter as_container (filter (\<lambda>u. r_iri u \<noteq> tgt) us)))" for us
    by (induction us arbitrary: b) (auto simp: map_filter_simps publish_own_offer split: option.splits)
  moreover have "foldl (\<lambda>b (c, child). publish_membership S w c Add child b) b' ls =
      foldl offer b' (map (\<lambda>(c, child). member_event S w c Add child) ls)" for b' ls
    by (induction ls arbitrary: b') (auto simp: publish_membership_offer)
  ultimately show ?thesis by (simp add: publish_containment_def containment_events_def)
qed

text \<open>What a successful write announces, in order.\<close>

definition write_events ::
  "('db, 'bl) server \<Rightarrow> ('db, 'bl) world \<Rightarrow> target \<Rightarrow> activity \<Rightarrow> materialized \<Rightarrow> event list" where
  "write_events S w t a m = own_event S w t a # containment_events S w (target_iri t) m"

definition delete_events ::
  "('db, 'bl) server \<Rightarrow> ('db, 'bl) world \<Rightarrow> target \<Rightarrow> aux_url list \<Rightarrow> event list" where
  "delete_events S w t auxiliaries =
     own_event S w t Delete # map (\<lambda>a. own_event S w (Aux a) Delete) auxiliaries
     @ (case t of Aux _ \<Rightarrow> [] | _ \<Rightarrow> (case parent (target_subject t) of
          None \<Rightarrow> [] | Some p \<Rightarrow> [member_event S w p Remove (target_iri t)]))"

lemma emit_put_offer:
  "emit_put S w t ex m status b =
     (if is_success status
      then foldl offer b (write_events S w t (if ex = Existed then Update else Create) m) else b)"
  by (cases ex) (simp_all add: emit_put_def write_events_def publish_own_offer publish_containment_offer)

lemma emit_post_offer:
  "emit_post S w t m status b =
     (if is_success status then foldl offer b (write_events S w t Create m) else b)"
  by (simp add: emit_post_def write_events_def publish_own_offer publish_containment_offer)

lemma emit_delete_offer:
  "emit_delete S w t auxs status b =
     (if is_success status then foldl offer b (delete_events S w t auxs) else b)"
  by (cases t)
     (simp_all add: emit_delete_def delete_events_def foldl_publish_aux Let_def,
      simp_all add: publish_own_offer publish_membership_offer split: option.splits)

text \<open>C16: Subscribers hear exactly what happened. After a write, each receiver of a topic has read or
  still holds, in order, just the events the write announces on that topic, up to the
  capacity of its channel: the target's own activity, one creation per container made on
  the way, one \<open>Add\<close> per container that gained a member, or for a deletion the target's, each
  removed auxiliary's and the parent's \<open>Remove\<close>; a write that failed announces nothing.\<close>

theorem notifications_exact:
  assumes "inbox b t r = Some q"
  defines "heard \<equiv> (\<lambda>b' es. \<exists>q'. inbox b' t r = Some q' \<and>
      last_n CAPACITY q' = last_n CAPACITY (q @ filter (\<lambda>e. ev_topic e = t) es))"
  shows "heard (emit_put S w tgt ex m status b)
      (if is_success status then write_events S w tgt (if ex = Existed then Update else Create) m else []) \<and>
    heard (emit_patch S w tgt ex m status b)
      (if is_success status then write_events S w tgt (if ex = Existed then Update else Create) m else []) \<and>
    heard (emit_post S w tgt m status b) (if is_success status then write_events S w tgt Create m else []) \<and>
    heard (emit_delete S w tgt auxs status b) (if is_success status then delete_events S w tgt auxs else [])"
proof -
  have "emit_patch S w tgt ex m status b = emit_put S w tgt ex m status b"
    by (simp add: emit_patch_def emit_put_def)
  then show ?thesis
    using inbox_offers [OF assms(1)] assms(1)
    by (simp add: heard_def emit_put_offer emit_post_offer emit_delete_offer)
qed

theorem notifications_exact_witness:
  "let b = subscribe new_bus (Topic ''http://h/a'') 7;
       es = write_events ex_server mem_world (Resource ex_url) Create \<lparr>m_created = [ex_url], m_linked = []\<rparr>
   in \<exists>q. inbox (emit_put ex_server mem_world (Resource ex_url) Absent \<lparr>m_created = [ex_url], m_linked = []\<rparr> 201 b)
         (Topic ''http://h/a'') 7 = Some q \<and>
       last_n CAPACITY q = last_n CAPACITY (filter (\<lambda>e. ev_topic e = Topic ''http://h/a'') es)"
proof -
  have "inbox (subscribe new_bus (Topic ''http://h/a'') 7) (Topic ''http://h/a'') 7 = Some []"
    by (simp add: inbox_def subscribe_def new_bus_def)
  from notifications_exact [OF this, of ex_server mem_world "Resource ex_url" Absent
      "\<lparr>m_created = [ex_url], m_linked = []\<rparr>" 201]
  show ?thesis by (simp add: is_success_def Let_def)
qed

section \<open>The registry under interleaving\<close>

text \<open>
  The bus with what is going on around it: who holds a receiver, and which dropped receivers have
  not unregistered yet. \<open>Evict\<close> runs with the topics some earlier scan, however stale, found dead.
\<close>

record bus_state =
  bs_bus :: bus
  bs_held :: "(topic \<times> nat) set"
  bs_dropping :: "topic list"

inductive bus_step :: "bus_state \<Rightarrow> bus_state \<Rightarrow> bool" where
  Publish: "bus_step s (s\<lparr>bs_bus := publish (bs_bus s) e\<rparr>)"
| Subscribe: "(t, r) \<notin> bs_held s \<Longrightarrow>
    bus_step s (s\<lparr>bs_bus := subscribe (bs_bus s) t r, bs_held := insert (t, r) (bs_held s)\<rparr>)"
| Evict: "bus_step s (s\<lparr>bs_bus := live_evict (bs_bus s) dead\<rparr>)"
| DropRx: "(t, r) \<in> bs_held s \<Longrightarrow>
    bus_step s (s\<lparr>bs_bus := drop_rx (bs_bus s) t r, bs_held := bs_held s - {(t, r)}, bs_dropping := t # bs_dropping s\<rparr>)"
| Unregister: "t \<in> set (bs_dropping s) \<Longrightarrow>
    bus_step s (s\<lparr>bs_bus := unregister (bs_bus s) t, bs_dropping := remove1 t (bs_dropping s)\<rparr>)"

inductive_cases bus_stepE: "bus_step s s'"

definition bus_init :: bus_state where
  "bus_init = \<lparr>bs_bus = new_bus, bs_held = {}, bs_dropping = []\<rparr>"

definition bus_inv :: "bus_state \<Rightarrow> bool" where
  "bus_inv s \<longleftrightarrow>
     (\<forall>t r. (t, r) \<in> bs_held s \<longleftrightarrow> inbox (bs_bus s) t r \<noteq> None) \<and>
     (\<forall>t. channels (bs_bus s) t = Some [] \<longrightarrow> t \<in> set (bs_dropping s))"

lemma channels_remove_if_dead:
  "channels (remove_if_dead b t') t = (if t = t' \<and> channels b t = Some [] then None else channels b t)"
  by (auto simp: remove_if_dead_def split: option.splits)

lemma channels_live_evict:
  "channels (live_evict b dead) t = Some [] \<Longrightarrow> channels b t = Some []"
  unfolding live_evict_def
proof (induction dead arbitrary: b)
  case (Cons t' dead)
  from Cons.IH [of "remove_if_dead b t'"] Cons.prems show ?case
    by (simp add: channels_remove_if_dead split: if_splits)
qed simp

lemma inbox_subscribe:
  "inbox b t r = None \<Longrightarrow>
     inbox (subscribe b t r) t' r' = (if t' = t \<and> r' = r then Some [] else inbox b t' r')"
  by (cases "channels b t") (auto simp: inbox_def subscribe_def map_add_def split: option.splits)

lemma map_of_filter_neq: "map_of (filter (\<lambda>(r', _). r' \<noteq> r) ch) r' = (if r' = r then None else map_of ch r')"
  by (induction ch) auto

lemma inbox_drop_rx: "inbox (drop_rx b t r) t' r' = (if t' = t \<and> r' = r then None else inbox b t' r')"
  by (cases "channels b t") (auto simp: inbox_def drop_rx_def map_of_filter_neq)

lemma bus_inv_step: "bus_step s s' \<Longrightarrow> bus_inv s \<Longrightarrow> bus_inv s'"
proof (induction rule: bus_step.induct)
  case (Publish s e)
  have "channels (publish (bs_bus s) e) t = Some [] \<Longrightarrow> channels (bs_bus s) t = Some []" for t
    by (auto simp: publish_def send_def split: option.splits if_splits)
  with Publish show ?case by (auto simp: bus_inv_def inbox_publish)
next
  case (Subscribe t r s)
  then have "inbox (bs_bus s) t r = None" by (simp add: bus_inv_def)
  moreover have "channels (subscribe (bs_bus s) t r) t' = Some [] \<Longrightarrow> channels (bs_bus s) t' = Some []" for t'
    by (auto simp: subscribe_def split: if_splits)
  ultimately show ?case using Subscribe by (auto simp: bus_inv_def inbox_subscribe)
next
  case (Evict s dead)
  then show ?case by (auto simp: bus_inv_def dest: channels_live_evict)
next
  case (DropRx t r s)
  moreover have "channels (drop_rx (bs_bus s) t r) t' = Some [] \<Longrightarrow> t' = t \<or> channels (bs_bus s) t' = Some []" for t'
    by (simp add: drop_rx_def split: if_splits)
  ultimately show ?case by (auto simp: bus_inv_def inbox_drop_rx)
next
  case (Unregister t s)
  have "t' \<noteq> t \<and> channels (bs_bus s) t' = Some []" if "channels (unregister (bs_bus s) t) t' = Some []" for t'
    using that by (auto simp: unregister_def channels_remove_if_dead split: if_splits)
  moreover have "inbox (unregister (bs_bus s) t) t' r' = inbox (bs_bus s) t' r'" for t' r'
    by (simp add: unregister_def)
  ultimately show ?case using Unregister by (auto simp: bus_inv_def in_set_remove1)
qed

text \<open>C38: However publishes, subscriptions, evictions built on stale scans, and the two halves of
  receiver drops interleave, a receiver that is held always has its place in the registry,
  so no eviction ever cuts a subscriber off, and a channel without receivers is registered
  only while a drop is still under way, so the registry does not outgrow its subscribers.\<close>

theorem bus_never_cuts_off:
  assumes "bus_step\<^sup>*\<^sup>* bus_init s"
  shows "((t, r) \<in> bs_held s \<longrightarrow> inbox (bs_bus s) t r \<noteq> None) \<and>
    (bs_dropping s = [] \<longrightarrow> channels (bs_bus s) t \<noteq> None \<longrightarrow> (\<exists>r. (t, r) \<in> bs_held s))"
proof -
  have "bus_inv bus_init" by (simp add: bus_inv_def bus_init_def new_bus_def inbox_def)
  with assms have "bus_inv s" by (induction rule: rtranclp_induct) (auto intro: bus_inv_step)
  moreover have "\<exists>r. inbox (bs_bus s) t r \<noteq> None" if "channels (bs_bus s) t = Some ch" "ch \<noteq> []" for ch
    using inbox_None [of "bs_bus s" t] that by auto
  ultimately show ?thesis unfolding bus_inv_def by (metis empty_iff list.set(1) not_None_eq)
qed

text \<open>Example: one subscriber, and an eviction that believes its topic dead.\<close>

definition ex_bus_state :: bus_state where
  "ex_bus_state = bus_init\<lparr>bs_bus := live_evict (subscribe new_bus (Topic ''t'') 7) [Topic ''t''], bs_held := {(Topic ''t'', 7)}\<rparr>"

theorem bus_never_cuts_off_witness: "inbox (bs_bus ex_bus_state) (Topic ''t'') 7 \<noteq> None"
proof -
  let ?s = "bus_init\<lparr>bs_bus := subscribe (bs_bus bus_init) (Topic ''t'') 7,
      bs_held := insert (Topic ''t'', 7) (bs_held bus_init)\<rparr>"
  have "bus_step bus_init ?s" by (rule Subscribe) (simp add: bus_init_def)
  moreover have "bus_step ?s ex_bus_state"
    using Evict [of ?s "[Topic ''t'']"] by (simp add: ex_bus_state_def bus_init_def)
  ultimately have "bus_step\<^sup>*\<^sup>* bus_init ex_bus_state" by simp
  from bus_never_cuts_off [OF this, of "Topic ''t''" 7] show ?thesis by (simp add: ex_bus_state_def)
qed

end
