(* ===== verification/Shapes.thy ===== *)
theory Shapes
  imports Edge
begin

text \<open>
  Constraint documents, \<^verbatim>\<open>src/shapes.rs\<close>, and how the handlers use them: the document a
  container binds, validation through the SHACL engine (a parameter), and the replies of
  \<^verbatim>\<open>src/http.rs\<close> that a shape earns.
\<close>

definition SH_RESULT_SEVERITY :: iri where "SH_RESULT_SEVERITY = ''http://www.w3.org/ns/shacl#resultSeverity''"
definition SH_VIOLATION :: iri where "SH_VIOLATION = ''http://www.w3.org/ns/shacl#Violation''"

definition SHACL_SPARQL_TERMS :: "iri list" where
  "SHACL_SPARQL_TERMS =
     [''http://www.w3.org/ns/shacl#sparql'', ''http://www.w3.org/ns/shacl#select'', ''http://www.w3.org/ns/shacl#ask'',
      ''http://www.w3.org/ns/shacl#construct'', ''http://www.w3.org/ns/shacl#update'']"

definition mentions_shacl_sparql :: "triple list \<Rightarrow> bool" where
  "mentions_shacl_sparql ts = list_ex (\<lambda>t. t_predicate t \<in> set SHACL_SPARQL_TERMS \<or>
     (case t_object t of TermNamed n \<Rightarrow> n \<in> set SHACL_SPARQL_TERMS | _ \<Rightarrow> False)) ts"

definition report_refuses :: "dataset \<Rightarrow> bool" where
  "report_refuses d = list_ex (\<lambda>q. q_predicate q = SH_RESULT_SEVERITY \<and> q_object q = TermNamed SH_VIOLATION) d"

definition report_is_empty :: "dataset \<Rightarrow> bool" where
  "report_is_empty d = (\<not> list_ex (\<lambda>q. q_predicate q = SH_RESULT_SEVERITY) d)"

definition validate :: "('db, 'bl) server \<Rightarrow> string \<Rightarrow> dataset \<Rightarrow> shape_error + dataset" where
  "validate S shapes_turtle d =
     (let engine = (\<lambda>e. Engine (sv_show_rdf_error S e)) in
      res_bind (map_err engine (format_serialize (sv_writer S) (sv_show_quad S) Turtle (default_graph_only d))) (\<lambda>data.
      res_bind (map_err Engine (sv_load_data S data)) (\<lambda>_.
      res_bind (map_err Unparsable (sv_load_shapes S shapes_turtle)) (\<lambda>_.
      res_bind (map_err Engine (sv_validate S data shapes_turtle)) (\<lambda>out.
        map_err engine (format_parse (sv_parser S) Turtle out ''urn:quadpod:report'' Rdf12))))))"

definition LDP_CONSTRAINED_BY :: iri where "LDP_CONSTRAINED_BY = ''http://www.w3.org/ns/ldp#constrainedBy''"

record shape_doc =
  sd_turtle :: string
  sd_iri :: iri

fun bindings_of :: "('db, 'bl) server \<Rightarrow> iri \<Rightarrow> triple list \<Rightarrow> shape_error + iri list" where
  "bindings_of S c [] = Inr []"
| "bindings_of S c (t # ts) =
     (case t_object t of
        TermNamed n \<Rightarrow> res_bind (bindings_of S c ts) (\<lambda>ns. Inr (n # ns))
      | other \<Rightarrow> Inl (Unsupported (c @ '' binds ldp:constrainedBy to '' @ sv_show_term S other @ '', which is not an IRI'')))"

definition shape_target :: "('db, 'bl) server \<Rightarrow> iri \<Rightarrow> shape_error + resource_url" where
  "shape_target S iri =
     (case strip_prefix (trim_end_matches (CHR ''/'') (container_iri (space_root (sv_space S)))) iri of
        None \<Rightarrow> Inl (Unsupported iri)
      | Some rest \<Rightarrow>
          if \<not> starts_with ''/'' rest then Inl (Unsupported iri)
          else case resolve (e_valid_iri (sv_env S)) (sv_space S) rest of
            Inr (Resource r) \<Rightarrow> Inr r
          | _ \<Rightarrow> Inl (Unsupported iri))"

definition shape_document :: "('db, 'bl) server \<Rightarrow> iri \<Rightarrow> triple list \<Rightarrow> shape_error + shape_doc" where
  "shape_document S iri triples =
     (if mentions_shacl_sparql triples
      then Inl (Unsupported (iri @ '' uses SHACL-SPARQL (sh:sparql/sh:select/sh:ask/sh:construct/sh:update), ''
        @ ''which is not supported: it would let a shapes document make this pod issue arbitrary outbound HTTP requests''))
      else case ground_dataset triples of
        None \<Rightarrow> Inl (ShapeResource Panicked)
      | Some ground \<Rightarrow>
          res_bind (map_err (\<lambda>e. Unparsable (sv_show_rdf_error S e))
              (format_serialize (sv_writer S) (sv_show_quad S) Turtle (sv_visible S ground)))
            (\<lambda>bytes. Inr \<lparr>sd_turtle = bytes, sd_iri = iri\<rparr>))"

definition load_shape ::
  "('db, 'bl) server \<Rightarrow> container_url \<Rightarrow> (('db, 'bl) world, shape_error, shape_doc option) op" where
  "load_shape S c =
     (let E = sv_env S; c_iri = container_iri c in
      op_bind (op_map_err ShapeResource
          (st_read (\<lambda>db. b_objects (e_store E) db c_iri c_iri LDP_CONSTRAINED_BY))) (\<lambda>triples.
      op_bind (op_res (bindings_of S c_iri triples)) (\<lambda>bindings.
        case bindings of
          [] \<Rightarrow> op_ok None
        | [iri] \<Rightarrow>
            op_bind (op_res (shape_target S iri)) (\<lambda>r.
            op_bind (op_map_err ShapeResource (kind_of E (r_iri r))) (\<lambda>kind.
              case kind of
                None \<Rightarrow> op_err ShapeMissing
              | Some (KindBinary mt) \<Rightarrow> op_err (Unsupported (mt_raw mt))
              | Some KindRdf \<Rightarrow>
                  op_bind (op_map_err ShapeResource (get_rdf E (r_iri r))) (\<lambda>doc.
                  op_bind (op_res (ok_or ShapeMissing doc)) (\<lambda>ts.
                  op_bind (op_res (shape_document S iri ts)) (\<lambda>d. op_ok (Some d))))))
        | _ \<Rightarrow> op_err (Unsupported (c_iri @ '' carries '' @ show_nat (length bindings)
            @ '' ldp:constrainedBy bindings ('' @ join_with '', '' bindings @ ''), not one'')))))"

section \<open>What a shape costs a request\<close>

definition shape_status :: "shape_error \<Rightarrow> reply" where
  "shape_status e =
     (case e of
        ShapeResource r \<Rightarrow> if r = Panicked then panicked
          else if put_status r = 500 then internal_error else cause_reply (put_status r) (CauseShape e)
      | Engine _ \<Rightarrow> internal_error
      | _ \<Rightarrow> cause_reply 409 (CauseShape e))"

definition turtle_bytes :: "('db, 'bl) server \<Rightarrow> dataset \<Rightarrow> string" where
  "turtle_bytes S d =
     (case format_serialize (sv_writer S) (sv_show_quad S) Turtle d of Inr b \<Rightarrow> b | Inl _ \<Rightarrow> [])"

definition constraining_container :: "target \<Rightarrow> container_url option" where
  "constraining_container t = (case t of Aux _ \<Rightarrow> None | _ \<Rightarrow> parent (target_subject t))"

definition enforce_shape ::
  "('db, 'bl) server \<Rightarrow> target \<Rightarrow> dataset \<Rightarrow> (('db, 'bl) world, reply, dataset option) op" where
  "enforce_shape S t d =
     (case constraining_container t of
        None \<Rightarrow> op_ok None
      | Some c \<Rightarrow>
          op_bind (op_map_err shape_status (load_shape S c)) (\<lambda>doc.
            case doc of
              None \<Rightarrow> op_ok None
            | Some doc \<Rightarrow>
                op_bind (op_res (map_err shape_status (validate S (sd_turtle doc) d))) (\<lambda>report.
                  if report_refuses report
                  then (let link = ''<'' @ sd_iri doc @ ''>; rel='' @ dq @ ''http://www.w3.org/ns/ldp#constrainedBy'' @ dq in
                    op_err \<lparr>re_status = 422,
                      re_headers = (''content-type'', ''text/turtle'')
                        # (if e_header_ok (sv_env S) link then [(''link'', link)] else []),
                      re_body = Bytes (turtle_bytes S report)\<rparr>)
                  else op_ok (if report_is_empty report then None else Some report))))"

definition EM_DASH :: string where "EM_DASH = map char_of [226 :: nat, 128, 148]"

definition patch_shape_conflict ::
  "('db, 'bl) server \<Rightarrow> target \<Rightarrow> (('db, 'bl) world, reply, unit) op" where
  "patch_shape_conflict S t =
     (case constraining_container t of
        None \<Rightarrow> op_ok ()
      | Some c \<Rightarrow>
          op_bind (op_map_err shape_status (load_shape S c)) (\<lambda>doc.
            case doc of
              None \<Rightarrow> op_ok ()
            | Some doc \<Rightarrow> op_err (text_reply 409
                (container_iri c @ '' is shape-constrained (by '' @ sd_iri doc
                 @ ''); a PATCH cannot be validated against a shape, so it is refused rather than risk writing a ''
                 @ ''state the shape does not allow '' @ EM_DASH @ '' PUT a full representation to write a validated one''))))"

definition report_link :: "('db, 'bl) server \<Rightarrow> target \<Rightarrow> reply \<Rightarrow> reply" where
  "report_link S t r =
     (case t of
        Aux _ \<Rightarrow> r
      | _ \<Rightarrow> (let v = ''<'' @ r_path (target_subject t) @ ''?validate>; rel='' @ dq @ ''describedby'' @ dq in
          if e_header_ok (sv_env S) v then r\<lparr>re_headers := hdr_append ''link'' v (re_headers r)\<rparr> else r))"

section \<open>Shapes are only read\<close>

lemma reads_load_shape [reads_intros]: "reads (load_shape S c)"
  unfolding load_shape_def Let_def
  by (intro reads_intros)

lemma reads_enforce_shape [reads_intros]: "reads (enforce_shape S t d)"
  unfolding enforce_shape_def Let_def by (intro reads_intros)

lemma reads_shape_conflict [reads_intros]: "reads (patch_shape_conflict S t)"
  unfolding patch_shape_conflict_def by (intro reads_intros)

end
