(* ===== verification/Writes.thy ===== *)
theory Writes
  imports Notify Shapes
begin

text \<open>
  The four writing handlers of \<^verbatim>\<open>src/http.rs\<close>. Each is a sequence of steps that may leave early with
  the reply to send; the state is the storage world and the bus. \<open>returned\<close> forgets whether a reply
  was an early exit.
\<close>

definition returned :: "('w, 'a, 'a) op \<Rightarrow> 'w \<Rightarrow> 'a \<times> 'w" where
  "returned m w = (case m w of (Inl x, w') \<Rightarrow> (x, w') | (Inr x, w') \<Rightarrow> (x, w'))"

definition attempt :: "('w, 'e, 'a) op \<Rightarrow> ('e + 'a \<Rightarrow> 'b) \<Rightarrow> ('w, 'f, 'b) op" where
  "attempt m f w = (case m w of (r, w') \<Rightarrow> (Inr (f r), w'))"

definition no_materialized :: materialized where
  "no_materialized = \<lparr>m_created = [], m_linked = []\<rparr>"

definition RESERVED_MESSAGE :: string where "RESERVED_MESSAGE = ''the urn:quadpod: namespace is reserved''"
definition NAMED_GRAPHS_MESSAGE :: string where "NAMED_GRAPHS_MESSAGE = ''named graphs are only allowed on resources''"

definition existence_of :: "guard_rec \<Rightarrow> existence" where
  "existence_of g = (if target_exists g then Existed else Absent)"

section \<open>\<open>PUT\<close>\<close>

type_synonym put_out = "reply \<times> existence \<times> materialized"

definition stop :: "existence \<Rightarrow> reply \<Rightarrow> put_out" where
  "stop ex r = (r, ex, no_materialized)"

text \<open>The refusals that need no store, shared with \<open>POST\<close>.\<close>

definition check_dataset :: "target \<Rightarrow> dataset \<Rightarrow> reply + unit" where
  "check_dataset t d =
     (if uses_reserved_namespace d then Inl (text_reply 400 RESERVED_MESSAGE)
      else if has_named_graphs d \<and> \<not> is_resource t then Inl (text_reply 400 NAMED_GRAPHS_MESSAGE)
      else if is_container t \<and> body_sets_containment (triples_of d) then Inl (status_reply 409)
      else Inr ())"

definition version_message :: "rdf_version \<Rightarrow> rdf_version \<Rightarrow> string" where
  "version_message held declared =
     ''this resource holds RDF '' @ version_label held @ '' terms that '' @ version_label declared
     @ '' cannot carry; send Content-Type with version='' @ version_label held @ '', or DELETE it first''"

definition named_graph_list :: "('db, 'bl) server \<Rightarrow> skolemized \<Rightarrow> string" where
  "named_graph_list S existing =
     (let named = named_graphs (sv_visible S existing);
          blank_named = length (sk_named_graphs existing) - length named
      in join_with '', '' (named @ (if blank_named > 0 then [show_nat blank_named @ '' named by a blank node''] else [])))"

definition named_graphs_message :: "('db, 'bl) server \<Rightarrow> skolemized \<Rightarrow> format \<Rightarrow> string" where
  "named_graphs_message S existing fmt =
     ''this resource has named graphs ('' @ named_graph_list S existing @ '') that '' @ format_media_type fmt
     @ '' cannot carry; write it as application/trig or application/ld+json, or DELETE it first''"

definition check_loss ::
  "('db, 'bl) server \<Rightarrow> target \<Rightarrow> format \<Rightarrow> rdf_version \<Rightarrow> (('db, 'bl) world, reply, unit) op" where
  "check_loss S t fmt declared =
     (case t of
        Resource r \<Rightarrow>
          op_bind (op_map_err put_error (get_dataset (sv_env S) (r_iri r))) (\<lambda>existing.
            if (case existing of Some e \<Rightarrow> declared < dataset_version (sv_visible S e) | None \<Rightarrow> False)
            then op_err (text_reply 409 (version_message (dataset_version (sv_visible S (the existing))) declared))
            else if carries_dataset fmt then op_ok ()
            else op_bind (op_map_err put_error (get_dataset (sv_env S) (r_iri r))) (\<lambda>existing.
              case existing of
                Some e \<Rightarrow> if sk_has_named_graphs e then op_err (text_reply 409 (named_graphs_message S e fmt)) else op_ok ()
              | None \<Rightarrow> op_ok ()))
      | _ \<Rightarrow> op_ok ())"

definition blob_result :: "target \<Rightarrow> resource_error + unit \<Rightarrow> reply" where
  "blob_result t r =
     (case r of
        Inr _ \<Rightarrow> created t
      | Inl KeyTooLong \<Rightarrow> status_reply 414
      | Inl e \<Rightarrow> put_error e)"

definition write_result :: "target \<Rightarrow> resource_error + unit \<Rightarrow> reply" where
  "write_result t r = (case r of Inr _ \<Rightarrow> created t | Inl e \<Rightarrow> put_error e)"

definition aux_put_result :: "('db, 'bl) server \<Rightarrow> aux_url \<Rightarrow> triple list \<Rightarrow> aux_error + unit \<Rightarrow> reply" where
  "aux_put_result S a triples r =
     (case r of
        Inr _ \<Rightarrow> warn_if_acl_grants_nothing S a triples (created (Aux a))
      | Inl SubjectMissing \<Rightarrow> text_reply 404 AUX_SUBJECT_MISSING_MESSAGE
      | Inl (TooLarge n) \<Rightarrow> cause_reply 413 (CauseAux (TooLarge n))
      | Inl AuxMissing \<Rightarrow> internal_error
      | Inl (AuxResource e) \<Rightarrow> put_error e)"

definition put_blob_arm ::
  "('db, 'bl) server \<Rightarrow> target \<Rightarrow> headers \<Rightarrow> guard_rec \<Rightarrow> string \<Rightarrow> media_type_rec \<Rightarrow>
     (('db, 'bl) world, put_out, put_out) op" where
  "put_blob_arm S t hs g bytes mt =
     (let E = sv_env S; ex = existence_of g in
      case t of
        Resource r \<Rightarrow>
          if blob_key (e_path_from E) r = None then op_err (stop ex (status_reply 414))
          else op_bind (op_map_err (stop ex) (check_conditionals S hs t)) (\<lambda>_.
            op_bind (op_map_err (\<lambda>d. stop ex (refused t d)) (materialize E g)) (\<lambda>m.
              attempt (put_blob E r bytes mt) (\<lambda>res. (blob_result t res, ex, m))))
      | _ \<Rightarrow> op_err (stop ex panicked))"

definition store_representation ::
  "('db, 'bl) server \<Rightarrow> target \<Rightarrow> dataset \<Rightarrow> skolemized \<Rightarrow> format \<Rightarrow> existence \<Rightarrow> materialized \<Rightarrow>
     (('db, 'bl) world, put_out, reply) op" where
  "store_representation S t d sk fmt ex m =
     (let E = sv_env S in
      case t of
        Aux a \<Rightarrow> (let triples = triples_of (default_graph_only d) in
          attempt (aux_put E a triples) (aux_put_result S a triples))
      | Container c \<Rightarrow>
          op_bind (op_map_err (\<lambda>e. (put_error e, ex, m)) (get_rdf E (container_iri c))) (\<lambda>existing.
            let merged = triples_of (default_graph_only d)
                  @ filter (\<lambda>t. t_predicate t = LDP_CONTAINS) (case existing of Some ts \<Rightarrow> ts | None \<Rightarrow> []) in
            op_bind (op_map_err (\<lambda>e. (put_error e, ex, m)) (put_rdf E (container_iri c) merged)) (\<lambda>_.
            op_bind (op_map_err (\<lambda>e. (put_error e, ex, m)) (ensure_container E c)) (\<lambda>_.
              op_ok (created t))))
      | Resource r \<Rightarrow> attempt (put_dataset E r sk fmt) (write_result t))"

definition put_rdf_arm ::
  "('db, 'bl) server \<Rightarrow> target \<Rightarrow> headers \<Rightarrow> guard_rec \<Rightarrow> dataset \<Rightarrow> format \<Rightarrow> rdf_version \<Rightarrow>
     (('db, 'bl) world, put_out, put_out) op" where
  "put_rdf_arm S t hs g d fmt declared =
     (let E = sv_env S; ex = existence_of g in
      op_bind (op_res (map_err (stop ex) (check_dataset t d))) (\<lambda>_.
      op_bind (op_map_err (stop ex) (check_loss S t fmt declared)) (\<lambda>_.
      op_bind (op_map_err (\<lambda>e. stop ex (put_error e)) (w_skolemize E d)) (\<lambda>skolemized.
      op_bind (op_map_err (stop ex) (check_conditionals S hs t)) (\<lambda>_.
      op_bind (op_map_err (stop ex) (enforce_shape S t d)) (\<lambda>findings.
      op_bind (op_map_err (\<lambda>e. stop ex (refused t e)) (materialize E g)) (\<lambda>m.
      op_bind (store_representation S t d skolemized fmt ex m) (\<lambda>res.
        op_ok (if findings \<noteq> None \<and> is_success (re_status res) then report_link S t res else res, ex, m)))))))))"

definition put_write ::
  "('db, 'bl) server \<Rightarrow> agent \<Rightarrow> target \<Rightarrow> headers \<Rightarrow> string \<Rightarrow> (('db, 'bl) world, put_out, put_out) op" where
  "put_write S ag t hs bytes =
     op_bind (op_map_err (\<lambda>d. stop Absent (refused t d)) (probe (sv_env S) ag t)) (\<lambda>g.
     op_bind (op_res (map_err (\<lambda>d. stop Absent (refused t d)) (authorize g Write))) (\<lambda>_.
     op_bind (op_res (map_err (stop (existence_of g)) (classify_body S hs bytes t))) (\<lambda>repr.
       case repr of
         ReprBlob bytes mt \<Rightarrow> put_blob_arm S t hs g bytes mt
       | ReprRdf d fmt declared \<Rightarrow> put_rdf_arm S t hs g d fmt declared)))"

type_synonym ('db, 'bl) srv = "('db, 'bl) world \<times> bus"

definition put_impl ::
  "('db, 'bl) server \<Rightarrow> agent \<Rightarrow> target \<Rightarrow> headers \<Rightarrow> string \<Rightarrow> ('db, 'bl) srv \<Rightarrow> reply \<times> ('db, 'bl) srv" where
  "put_impl S ag t hs bytes = (\<lambda>(w, b).
     let ((res, ex, m), w') = returned (put_write S ag t hs bytes) w
     in (res, (w', emit_put S w' t ex m (re_status res) b)))"

section \<open>\<open>POST\<close>\<close>

definition draw_uuid :: "('db, 'bl) env \<Rightarrow> (('db, 'bl) world, 'e, string) op" where
  "draw_uuid E w = (Inr (e_mint E (w_draws w)), w\<lparr>w_draws := Suc (w_draws w)\<rparr>)"

definition post_child ::
  "('db, 'bl) server \<Rightarrow> agent \<Rightarrow> container_url \<Rightarrow> headers \<Rightarrow> (('db, 'bl) world, reply, target \<times> guard_rec) op" where
  "post_child S ag p hs =
     (let E = sv_env S;
          suf = (if type_link_requests_container (header_str hs ''link'') then ''/'' else [])
      in
      op_bind (op_map_err put_error (child_name E (header_get hs ''slug''))) (\<lambda>name.
      op_bind (op_res (map_err status_reply (classify S (container_path p @ name @ suf)))) (\<lambda>child.
      op_bind (op_map_err (refused child) (probe E ag child)) (\<lambda>g.
        if \<not> is_taken g then op_ok (child, g)
        else op_bind (draw_uuid E) (\<lambda>uuid.
          op_bind (op_res (map_err status_reply (classify S (container_path p @ name @ ''-'' @ uuid @ suf)))) (\<lambda>child.
          op_bind (op_map_err (refused child) (probe E ag child)) (\<lambda>g. op_ok (child, g))))))))"

definition post_checks ::
  "('db, 'bl) server \<Rightarrow> target \<Rightarrow> repr \<Rightarrow> (('db, 'bl) world, reply, dataset option \<times> skolemized option) op" where
  "post_checks S child repr =
     (let E = sv_env S in
      case repr of
        ReprRdf d _ _ \<Rightarrow>
          op_bind (op_res (check_dataset child d)) (\<lambda>_.
          op_bind (enforce_shape S child d) (\<lambda>findings.
          op_bind (op_map_err put_error (w_skolemize E d)) (\<lambda>sk. op_ok (findings, Some sk))))
      | ReprBlob _ _ \<Rightarrow>
          (case child of
             Resource r \<Rightarrow> if blob_key (e_path_from E) r = None then op_err (status_reply 414) else op_ok (None, None)
           | _ \<Rightarrow> op_err panicked))"

definition post_store ::
  "('db, 'bl) server \<Rightarrow> target \<Rightarrow> repr \<Rightarrow> skolemized option \<Rightarrow> (('db, 'bl) world, reply, reply) op" where
  "post_store S child repr sk =
     (let E = sv_env S in
      case child of
        Resource r \<Rightarrow>
          (case repr of
             ReprBlob bytes mt \<Rightarrow> attempt (put_blob E r bytes mt) (blob_result child)
           | ReprRdf _ fmt _ \<Rightarrow> (case sk of
               None \<Rightarrow> op_err panicked
             | Some sk \<Rightarrow> attempt (put_dataset E r sk fmt) (write_result child)))
      | Container c \<Rightarrow>
          (case repr of
             ReprRdf d _ _ \<Rightarrow> attempt (op_bind (put_rdf E (container_iri c) (triples_of (default_graph_only d)))
               (\<lambda>_. ensure_container E c)) (write_result child)
           | ReprBlob _ _ \<Rightarrow> op_err panicked)
      | Aux _ \<Rightarrow> op_ok internal_error)"

definition post_write ::
  "('db, 'bl) server \<Rightarrow> agent \<Rightarrow> target \<Rightarrow> headers \<Rightarrow> string \<Rightarrow>
     (('db, 'bl) world, reply, reply \<times> target \<times> materialized) op" where
  "post_write S ag t hs bytes =
     op_bind (op_map_err (refused t) (probe (sv_env S) ag t)) (\<lambda>pg.
     op_bind (op_res (map_err (refused t) (authorize pg Append))) (\<lambda>_.
       case t of
         Container p \<Rightarrow>
           op_bind (post_child S ag p hs) (\<lambda>(child, g).
           op_bind (op_res (classify_body S hs bytes child)) (\<lambda>repr.
           op_bind (post_checks S child repr) (\<lambda>(findings, sk).
           op_bind (op_map_err (refused child) (materialize (sv_env S) g)) (\<lambda>m.
           op_bind (post_store S child repr sk) (\<lambda>res.
             op_ok (if findings \<noteq> None \<and> is_success (re_status res) then report_link S child res else res, child, m))))))
       | _ \<Rightarrow> op_err (status_reply 409)))"

definition post_impl ::
  "('db, 'bl) server \<Rightarrow> agent \<Rightarrow> target \<Rightarrow> headers \<Rightarrow> string \<Rightarrow> ('db, 'bl) srv \<Rightarrow> reply \<times> ('db, 'bl) srv" where
  "post_impl S ag t hs bytes = (\<lambda>(w, b).
     case post_write S ag t hs bytes w of
       (Inl res, w') \<Rightarrow> (res, (w', b))
     | (Inr (res, child, m), w') \<Rightarrow> (res, (w', emit_post S w' child m (re_status res) b)))"

section \<open>\<open>PATCH\<close>\<close>

definition BINARY_TARGET_MESSAGE :: string where
  "BINARY_TARGET_MESSAGE = ''this resource holds bytes rather than triples, so there is nothing to patch''"
definition CONTAINMENT_MESSAGE :: string where "CONTAINMENT_MESSAGE = ''ldp:contains is server-managed''"
definition CONTAINMENT_VARIABLE_PREDICATE_MESSAGE :: string where
  "CONTAINMENT_VARIABLE_PREDICATE_MESSAGE =
     ''a variable predicate on a container may bind ldp:contains, which is server-managed''"

datatype containment_conflict = GroundConflict | VariablePredicate

fun conflict_message :: "containment_conflict \<Rightarrow> string" where
  "conflict_message GroundConflict = CONTAINMENT_MESSAGE"
| "conflict_message VariablePredicate = CONTAINMENT_VARIABLE_PREDICATE_MESSAGE"

fun written_triples :: "iri \<Rightarrow> pattern list \<Rightarrow> triple list option" where
  "written_triples iri [] = Some []"
| "written_triples iri (p # ps) =
     (case p_predicate p of
        PNamed n \<Rightarrow> map_option ((#) (mk_triple (NamedNode iri) n (TermNamed iri))) (written_triples iri ps)
      | _ \<Rightarrow> None)"

definition patch_sets_containment :: "patch \<Rightarrow> container_url \<Rightarrow> containment_conflict option" where
  "patch_sets_containment p c =
     (case written_triples (container_iri c) (insertions p @ deletions p) of
        None \<Rightarrow> Some VariablePredicate
      | Some written \<Rightarrow> if body_sets_containment written then Some GroundConflict else None)"

definition patch_response :: "patch_result \<Rightarrow> patch \<Rightarrow> reply" where
  "patch_response result p =
     (case result of
        Applied \<Rightarrow> status_reply 204
      | NoMapping \<Rightarrow> cause_reply 409 (CauseConflict ''nothing matches the conditions'' (conditions p))
      | SeveralMappings \<Rightarrow> cause_reply 409 (CauseConflict ''more than one mapping satisfies the conditions'' (conditions p))
      | DeletionMissing \<Rightarrow> cause_reply 409 (CauseConflict ''a triple this patch deletes is not there'' (deletions p)))"

definition create_by_patch ::
  "('db, 'bl) server \<Rightarrow> guard_rec \<Rightarrow> target \<Rightarrow> patch \<Rightarrow>
     (('db, 'bl) world, reply \<times> materialized, reply \<times> materialized) op" where
  "create_by_patch S g t p =
     (let E = sv_env S in
      case ground_insertions p of
        None \<Rightarrow> op_err (patch_response NoMapping p, no_materialized)
      | Some triples \<Rightarrow>
          if deletions p \<noteq> [] then op_err (patch_response DeletionMissing p, no_materialized)
          else op_bind (op_map_err (\<lambda>d. (refused t d, no_materialized)) (materialize E g)) (\<lambda>m.
            let done = (\<lambda>r. case r of Inr _ \<Rightarrow> (created t, m) | Inl e \<Rightarrow> (put_error e, no_materialized)) in
            case t of
              Resource r \<Rightarrow> (case ground_dataset triples of
                None \<Rightarrow> op_err (panicked, no_materialized)
              | Some sk \<Rightarrow> attempt (put_dataset E r sk Turtle) done)
            | Container c \<Rightarrow> attempt (op_bind (put_rdf E (container_iri c) triples) (\<lambda>_. ensure_container E c)) done
            | Aux _ \<Rightarrow> op_err (panicked, no_materialized)))"

definition aux_patch_result :: "patch \<Rightarrow> aux_error + patch_result \<Rightarrow> reply" where
  "aux_patch_result p r =
     (case r of
        Inr result \<Rightarrow> patch_response result p
      | Inl SubjectMissing \<Rightarrow> text_reply 404 AUX_SUBJECT_MISSING_MESSAGE
      | Inl AuxMissing \<Rightarrow> cause_reply 404 (CauseAux AuxMissing)
      | Inl (TooLarge _) \<Rightarrow> internal_error
      | Inl (AuxResource e) \<Rightarrow> put_error e)"

definition patch_existing ::
  "('db, 'bl) server \<Rightarrow> target \<Rightarrow> patch \<Rightarrow> (('db, 'bl) world, reply, reply) op" where
  "patch_existing S t p =
     (let E = sv_env S in
      op_bind (op_map_err put_error (patch_dataset E (r_iri (target_subject t)) p)) (\<lambda>result.
        case t of
          Container c \<Rightarrow> attempt (ensure_container E c) (\<lambda>r. case r of
            Inr _ \<Rightarrow> patch_response result p | Inl e \<Rightarrow> put_error e)
        | _ \<Rightarrow> op_ok (patch_response result p)))"

definition patch_body :: "('db, 'bl) server \<Rightarrow> target \<Rightarrow> headers \<Rightarrow> string \<Rightarrow> reply + patch" where
  "patch_body S t hs bytes =
     (let ct = trim (header_str hs ''content-type'') in
      if ct = [] then
        (if bytes = [] then Inl (status_reply 415) else Inl (text_reply 400 ''Content-Type is required''))
      else if map_option essence (media_type_parse (e_header_ok (sv_env S)) ct) \<noteq> Some ''text/n3''
      then Inl (status_reply 415)
      else map_err (\<lambda>e. case e of
          Shape _ \<Rightarrow> cause_reply 422 (CausePatch e)
        | _ \<Rightarrow> cause_reply 400 (CausePatch e)) (patch_parse (sv_n3 S) bytes (target_iri t)))"

definition patch_write ::
  "('db, 'bl) server \<Rightarrow> agent \<Rightarrow> target \<Rightarrow> headers \<Rightarrow> string \<Rightarrow> (('db, 'bl) world, reply, put_out) op" where
  "patch_write S ag t hs bytes =
     (let E = sv_env S in
      op_bind (op_map_err (refused t) (probe E ag t)) (\<lambda>g.
      op_bind (op_res (map_err (refused t) (authorize g Append))) (\<lambda>decision.
      op_bind (op_res (patch_body S t hs bytes)) (\<lambda>p.
        if \<not> is_aux t \<and> \<not> satisfied_by (required_modes_of p) (d_user decision)
        then op_err (refused t (guard_deny g))
        else
          op_bind (case t of
              Resource r \<Rightarrow> op_bind (op_map_err put_error (kind_of E (r_iri r))) (\<lambda>kind.
                case kind of Some (KindBinary _) \<Rightarrow> op_err (text_reply 409 BINARY_TARGET_MESSAGE) | _ \<Rightarrow> op_ok ())
            | _ \<Rightarrow> op_ok ()) (\<lambda>_.
          op_bind (patch_shape_conflict S t) (\<lambda>_.
          op_bind (case t of
              Container c \<Rightarrow> (case patch_sets_containment p c of
                Some conflict \<Rightarrow> op_err (text_reply 409 (conflict_message conflict))
              | None \<Rightarrow> op_ok ())
            | _ \<Rightarrow> op_ok ()) (\<lambda>_.
          op_bind (check_conditionals S hs t) (\<lambda>_.
            case t of
              Aux a \<Rightarrow> attempt (aux_patch E a p) (\<lambda>r. (aux_patch_result p r, Existed, no_materialized))
            | _ \<Rightarrow>
                (case existence_of g of
                   Absent \<Rightarrow> (\<lambda>w. case returned (create_by_patch S g t p) w of
                     ((res, m), w') \<Rightarrow> (Inr (res, Absent, m), w'))
                 | Existed \<Rightarrow> (\<lambda>w. case returned (patch_existing S t p) w of
                     (res, w') \<Rightarrow> (Inr (res, Existed, no_materialized), w')))))))))))"

definition patch_impl ::
  "('db, 'bl) server \<Rightarrow> agent \<Rightarrow> target \<Rightarrow> headers \<Rightarrow> string \<Rightarrow> ('db, 'bl) srv \<Rightarrow> reply \<times> ('db, 'bl) srv" where
  "patch_impl S ag t hs bytes = (\<lambda>(w, b).
     case patch_write S ag t hs bytes w of
       (Inl res, w') \<Rightarrow> (res, (w', b))
     | (Inr (res, ex, m), w') \<Rightarrow> (res, (w', emit_patch S w' t ex m (re_status res) b)))"

section \<open>\<open>DELETE\<close>\<close>

fun present_auxiliaries :: "guard_rec \<Rightarrow> resource_url \<Rightarrow> aux_kind list \<Rightarrow> denial + aux_url list" where
  "present_auxiliaries g u [] = Inr []"
| "present_auxiliaries g u (k # ks) =
     res_bind (authorize_aux g k) (\<lambda>found.
     res_bind (present_auxiliaries g u ks) (\<lambda>rest.
       Inr (if found \<noteq> None then url_aux u k # rest else rest)))"

definition delete_result :: "target \<Rightarrow> resource_error + bool \<Rightarrow> reply" where
  "delete_result t r =
     (case r of
        Inr True \<Rightarrow> status_reply 204
      | Inr False \<Rightarrow> with_aux_links t (status_reply 404)
      | Inl Panicked \<Rightarrow> panicked
      | Inl _ \<Rightarrow> internal_error)"

definition deletable :: "('db, 'bl) server \<Rightarrow> target \<Rightarrow> (('db, 'bl) world, reply, unit) op" where
  "deletable S t =
     (case t of
        Container c \<Rightarrow>
          if parent (target_subject t) = None then op_err (status_reply 405)
          else op_bind (op_map_err (\<lambda>_. internal_error) (container_is_empty (sv_env S) c)) (\<lambda>empty.
            if empty then op_ok () else op_err (status_reply 409))
      | _ \<Rightarrow> op_ok ())"

definition delete_write ::
  "('db, 'bl) server \<Rightarrow> agent \<Rightarrow> target \<Rightarrow> (('db, 'bl) world, reply, reply \<times> aux_url list) op" where
  "delete_write S ag t =
     (let E = sv_env S; subject = target_subject t in
      op_bind (op_map_err (refused t) (probe E ag t)) (\<lambda>g.
      op_bind (op_res (map_err (refused t) (authorize g Write))) (\<lambda>_.
        case t of
          Aux a \<Rightarrow> attempt (delete_rdf E (a_iri a)) (\<lambda>r. (case r of
              Inr True \<Rightarrow> status_reply 204 | Inr False \<Rightarrow> status_reply 404 | Inl _ \<Rightarrow> internal_error, []))
        | _ \<Rightarrow>
            op_bind (op_res (map_err (refused t) (authorize_parent g Write))) (\<lambda>_.
            op_bind (op_res (map_err (refused t) (present_auxiliaries g subject aux_kind_all))) (\<lambda>auxs.
            op_bind (deletable S t) (\<lambda>_.
              attempt (delete_subject E subject) (\<lambda>r. (delete_result t r, auxs))))))))"

definition delete_impl ::
  "('db, 'bl) server \<Rightarrow> agent \<Rightarrow> target \<Rightarrow> ('db, 'bl) srv \<Rightarrow> reply \<times> ('db, 'bl) srv" where
  "delete_impl S ag t = (\<lambda>(w, b).
     case delete_write S ag t w of
       (Inl res, w') \<Rightarrow> (res, (w', b))
     | (Inr (res, auxs), w') \<Rightarrow> (res, (w', emit_delete S w' t auxs (re_status res) b)))"

lemma reads_check_loss [reads_intros]: "reads (check_loss S t fmt v)"
  unfolding check_loss_def by (intro reads_intros)

section \<open>What a successful \<open>DELETE\<close> has checked\<close>

lemma unsuccessful_simps [simp]:
  "is_success (re_status (status_reply s)) = is_success s" "is_success (re_status (text_reply s m)) = is_success s"
  "\<not> is_success (re_status internal_error)" "\<not> is_success (re_status panicked)"
  by (simp_all add: status_reply_def text_reply_def internal_error_def panicked_def is_success_def)

lemma raises_attempt: "raises P (attempt m f)"
  by (simp add: raises_def attempt_def split: prod.split)

lemma delete_errors: "raises (\<lambda>r. \<not> is_success (re_status r)) (delete_write S ag t)"
  unfolding delete_write_def deletable_def Let_def
  by (intro raises_intros raises_attempt) simp_all

lemma present_auxiliaries_ok:
  assumes "present_auxiliaries g u ks = Inr auxs" "k \<in> set ks"
  shows "authorize_aux g k = Inr None \<or> (\<exists>d. authorize_aux g k = Inr (Some d))"
  using assms by (induction ks arbitrary: auxs) (auto simp: res_bind_Inr)

lemma delete_write_steps:
  assumes "delete_write S ag t w = (Inr (re, auxs), w')" and "\<not> is_aux t" and "is_success (re_status re)"
  obtains g d p where "probe (sv_env S) ag t w = (Inr g, w)" "authorize g Write = Inr d" "authorize_parent g Write = Inr p"
    "present_auxiliaries g (target_subject t) aux_kind_all = Inr auxs"
    "\<And>c. t = Container c \<Longrightarrow> parent (target_subject t) \<noteq> None \<and> container_is_empty (sv_env S) c w = (Inr True, w)"
    "delete_subject (sv_env S) (target_subject t) w = (Inr True, w')"
proof -
  obtain g d where g: "probe (sv_env S) ag t w = (Inr g, w)" "authorize g Write = Inr d"
    and rest: "op_bind (op_res (map_err (refused t) (authorize_parent g Write))) (\<lambda>_.
            op_bind (op_res (map_err (refused t) (present_auxiliaries g (target_subject t) aux_kind_all))) (\<lambda>auxs.
            op_bind (deletable S t) (\<lambda>_.
              attempt (delete_subject (sv_env S) (target_subject t)) (\<lambda>r. (delete_result t r, auxs))))) w = (Inr (re, auxs), w')"
    using assms(1) unfolding delete_write_def Let_def     by (rule gate_admits) (use assms(2) in \<open>cases t; auto simp: is_aux_def\<close>)
  then obtain p w1 r where p: "authorize_parent g Write = Inr p" "present_auxiliaries g (target_subject t) aux_kind_all = Inr auxs"
    "deletable S t w = (Inr (), w1)" "delete_subject (sv_env S) (target_subject t) w1 = (r, w')" "re = delete_result t r"
    by (auto simp: attempt_def elim!: op_bind_InrE split: prod.splits)
  have "reads (deletable S t)"
    unfolding deletable_def container_is_empty_def by (intro reads_intros)
  then have w1: "w1 = w" using p(3) by (rule readsD)
  have r: "r = Inr True"
    using p(5) assms(3) by (cases r) (auto simp: delete_result_def split: bool.splits resource_error.splits)
  have "parent (target_subject t) \<noteq> None \<and> container_is_empty (sv_env S) c w = (Inr True, w)" if "t = Container c" for c
    using p(3) unfolding deletable_def that w1
    by (auto simp: op_map_err_conv split: if_splits elim!: op_bind_InrE)
  with g p w1 r that show thesis by metis
qed

text \<open>C8: a \<open>DELETE\<close> of a resource or container that succeeds removed something that was there, and
  did so with the agent's grants as the lists stood before it: Write on the target, Write on the
  parent (if any), and Control when an access-control list goes with it. A container it removes is
  not the root and has no members. Afterwards nothing of the subject is left (graph, marker,
  shelves, auxiliaries with their markers), its parent no longer contains it, and every other
  graph is as it was.\<close>

theorem delete_success_spec:
  assumes "pod (sv_env S) sabs babs" and "pod_space sp" and "storage_url sp (target_subject t)"
    and "registry_ok (sabs (w_db w))" and "\<not> is_aux t"
    and "delete_impl S ag t (w, b) = (re, (w', b'))" and "is_success (re_status re)"
  shows "let G = sabs (w_db w); u = target_subject t in
    may G ag (request_chain t) Write \<and>
    (parent u \<noteq> None \<longrightarrow> may G ag (drop 1 (request_chain t)) Write) \<and>
    (presentG G (acl_iri u) \<longrightarrow> may G ag (request_chain t) Control) \<and>
    presentG G (r_iri u) \<and>
    (is_container t \<longrightarrow> parent u \<noteq> None \<and> (\<forall>x. mk_triple (NamedNode (r_iri u)) LDP_CONTAINS x \<notin> G (r_iri u))) \<and>
    (\<forall>h. sabs (w_db w') h =
      (if h \<in> {r_iri u, sys_graph_iri (r_iri u), acl_iri u, sys_graph_iri (acl_iri u)}
          \<or> mk_triple (NamedNode (r_iri u)) SYS_HAS_SUBGRAPH (TermNamed h) \<in> G (sys_graph_iri (r_iri u))
       then {}
       else if \<exists>p. parent u = Some p \<and> h = container_iri p then G h - {contains_triple h (r_iri u)}
       else G h))"
proof -
  let ?G = "sabs (w_db w)" and ?u = "target_subject t"
  from assms(6,7) obtain auxs where d: "delete_write S ag t w = (Inr (re, auxs), w')"
    using raisesD [OF delete_errors] by (fastforce simp: delete_impl_def split: prod.splits sum.splits)
  obtain g dec p where g: "probe (sv_env S) ag t w = (Inr g, w)" and ok: "authorize g Write = Inr dec"
      "authorize_parent g Write = Inr p" "present_auxiliaries g ?u aux_kind_all = Inr auxs"
    and cont: "\<And>c. t = Container c \<Longrightarrow> parent ?u \<noteq> None \<and> container_is_empty (sv_env S) c w = (Inr True, w)"
    and del: "delete_subject (sv_env S) ?u w = (Inr True, w')"
    by (rule delete_write_steps [OF d assms(5,7)]) blast
  note chain = pod.probe_chain [OF assms(1-3) g]
  have req: "required_mode t Write = Write" using assms(5) by (cases t) (auto simp: required_mode_def is_aux_def)
  have own: "may ?G ag (request_chain t) Write"
    using pod.authorize_may [OF assms(1-3) g ok(1)] req by simp
  moreover have "may ?G ag (drop 1 (request_chain t)) Write" if "parent ?u \<noteq> None"
  proof -
    have "\<not> length (gu_chain g) < 2" using that by (subst chain(3)) (auto simp: request_chain_def ancestors.simps [of ?u])
    then obtain d where "decide_from g 1 Write = Inr d" using ok(2) by (auto simp: authorize_parent_def res_bind_Inr)
    from decide_from_may [OF chain(1) this] show ?thesis by (simp only: chain)
  qed
  moreover have "may ?G ag (request_chain t) Control" if "presentG ?G (acl_iri ?u)"
  proof -
    have "acl_iri (gu_chain g ! 0) \<in> gu_present g"
      using snapshot_present(2) [OF chain(5), of ?u] that by (simp add: chain(3) request_chain_def)
    then obtain d where "decide_from g 0 Control = Inr d"
      using present_auxiliaries_ok [OF ok(3), of Acl] by (auto simp: aux_kind_all_def authorize_aux_def res_bind_Inr)
    from decide_from_may [OF chain(1) this] show ?thesis by (simp add: chain)
  qed
  moreover have "parent ?u \<noteq> None \<and> (\<forall>x. mk_triple (NamedNode (r_iri ?u)) LDP_CONTAINS x \<notin> ?G (r_iri ?u))" if "is_container t"
  proof -
    from that obtain c where c: "t = Container c" by (cases t) auto
    with cont pod.container_is_empty_ok [OF assms(1), of c w True w] show ?thesis by (auto simp: container_iri_def)
  qed
  moreover note effect = delete_subject_effect [OF assms(1-4) del]
  then have "presentG ?G (r_iri ?u)" by simp
  ultimately show ?thesis
    using effect [THEN conjunct2, THEN conjunct1] unfolding Let_def by blast
qed

text \<open>Example: everyone may write below the root, and there is a resource.\<close>

definition delete_world :: "(mem_db, mem_bl) world" where
  "delete_world = (public_world [ACL_WRITE])\<lparr>w_db :=
     (sys_graph_iri (r_iri ex_url), present_triple (r_iri ex_url)) # (r_iri ex_url, mk_triple (NamedNode ''s'') ''p'' (TermNamed ''o''))
     # w_db (public_world [ACL_WRITE])\<rparr>"

lemma delete_world_registry: "registry_ok (mem_abs (w_db delete_world))"
proof -
  have "list_all (\<lambda>(g, t). t_predicate t \<noteq> SYS_HAS_SUBGRAPH) (w_db delete_world)" by code_simp
  then show ?thesis by (auto simp: registry_ok_def mem_abs_def list_all_iff)
qed

theorem delete_success_spec_witness:
  "re_status (fst (delete_impl ex_server Public (Resource ex_url) (delete_world, new_bus))) = 204 \<and>
   mem_abs (w_db (fst (snd (delete_impl ex_server Public (Resource ex_url) (delete_world, new_bus))))) (r_iri ex_url) = {}"
proof -
  let ?del = "delete_impl ex_server Public (Resource ex_url) (delete_world, new_bus)"
  have st: "re_status (fst ?del) = 204" by code_simp
  have pod: "pod (sv_env ex_server) mem_abs map_of" using mem_pod.pod_axioms by (simp add: ex_server_def)
  have run: "?del = (fst ?del, (fst (snd ?del), snd (snd ?del)))" by simp
  have "is_success (re_status (fst ?del))" unfolding st by simp
  from delete_success_spec [OF pod ex_space _ delete_world_registry _ run this] ex_storage st show ?thesis
    by (simp add: is_aux_def Let_def)
qed

end
