(* ===== verification/Reads.thy ===== *)
theory Reads
  imports Shapes
begin

text \<open>
  The reading handlers of \<^verbatim>\<open>src/http.rs\<close>: \<open>GET\<close> of resources, blobs, containers and auxiliaries,
  the validation view, and \<open>OPTIONS\<close> with the CORS layer. A read is an operation on the storage
  world alone; \<open>HEAD\<close> is axum's \<open>GET\<close> without the body.
\<close>

definition read_error :: "resource_error \<Rightarrow> reply" where
  "read_error e = (case e of InvalidIri \<Rightarrow> status_reply 400 | Panicked \<Rightarrow> panicked | _ \<Rightarrow> internal_error)"

definition not_found :: "target \<Rightarrow> reply" where
  "not_found t = with_aux_links t (status_reply 404)"

definition content_type_of :: "format \<Rightarrow> rdf_version \<Rightarrow> rdf_version \<Rightarrow> string" where
  "content_type_of fmt held shown =
     (if held > Rdf11 then format_media_type fmt @ '';version='' @ version_label shown else format_media_type fmt)"

definition rel_link :: "iri \<Rightarrow> string \<Rightarrow> string" where
  "rel_link iri rel = ''<'' @ iri @ ''>; rel='' @ dq @ rel @ dq"

definition alternate_link :: "iri \<Rightarrow> string \<Rightarrow> string" where
  "alternate_link iri ty = rel_link iri ''alternate'' @ ''; type='' @ dq @ ty @ dq"

definition tag_headers :: "string \<Rightarrow> headers" where
  "tag_headers tag = [(''etag'', tag), (''vary'', ''Accept'')]"

section \<open>Blobs\<close>

definition blob_read ::
  "('db, 'bl) server \<Rightarrow> target \<Rightarrow> headers \<Rightarrow> media_type_rec \<Rightarrow> (('db, 'bl) world, reply, reply) op" where
  "blob_read S t hs mt =
     (let E = sv_env S in
      case t of
        Resource r \<Rightarrow>
          if \<not> accept_allows (sv_f32 S) (header_str hs ''accept'') mt then op_err (status_reply 406)
          else (case blob_key (e_path_from E) r of
            None \<Rightarrow> op_err (status_reply 414)
          | Some key \<Rightarrow>
              op_bind (op_map_err (\<lambda>_. internal_error) (bl_get E key)) (\<lambda>found.
                case found of
                  None \<Rightarrow> op_err (with_aux_links t ((status_reply 404)\<lparr>re_headers :=
                    insert_opt ''warning'' (warning_header E ''the storage backend has no object for this resource'') []\<rparr>))
                | Some bytes \<Rightarrow>
                    (let tag = blob_etag E bytes in
                     if header_get hs ''if-none-match'' = Some tag
                     then op_ok (with_allow t (sv_version S) (with_aux_links t
                       ((status_reply 304)\<lparr>re_headers := tag_headers tag\<rparr>)))
                     else op_ok (with_allow t (sv_version S) (with_aux_links t
                       \<lparr>re_status = 200, re_headers = tag_headers tag @ [(''content-type'', mt_raw mt)],
                        re_body = Bytes bytes\<rparr>)))))
      | _ \<Rightarrow> op_err panicked)"

section \<open>Graphs and datasets\<close>

definition loss_links :: "('db, 'bl) server \<Rightarrow> iri \<Rightarrow> skolemized \<Rightarrow> format \<Rightarrow> headers" where
  "loss_links S iri stored fmt =
     (if \<not> carries_dataset fmt \<and> sk_has_named_graphs stored
      then (''link'', rel_link iri ''https://w3id.org/quadpod/ns#partialDataset'')
        # map (\<lambda>n. (''link'', rel_link n ''https://w3id.org/quadpod/ns#containsGraph'')) (named_graphs (sv_visible S stored))
        @ map (\<lambda>ty. (''link'', alternate_link iri ty)) [''application/trig'', ''application/ld+json'']
      else [])"

definition version_links :: "iri \<Rightarrow> format \<Rightarrow> rdf_version \<Rightarrow> rdf_version \<Rightarrow> headers" where
  "version_links iri fmt held shown =
     (if shown < held
      then [(''link'', alternate_link iri (format_media_type fmt @ '';version='' @ version_label held))] else [])"

definition dataset_read ::
  "('db, 'bl) server \<Rightarrow> resource_url \<Rightarrow> decision \<Rightarrow> headers \<Rightarrow> skolemized \<Rightarrow> format option \<Rightarrow> reply + reply" where
  "dataset_read S r dec hs stored stored_type =
     (let t = Resource r;
          visible = sv_visible S stored;
          shape = (if sk_has_named_graphs stored then Dataset_shape else Graph)
      in case negotiate (sv_f32 S) (header_str hs ''accept'') shape stored_type of
           None \<Rightarrow> Inl (status_reply 406)
         | Some (fmt, requested) \<Rightarrow>
             (let held = dataset_version visible;
                  served_version = min requested held;
                  tag = sv_etag S stored fmt served_version
              in if header_get hs ''if-none-match'' = Some tag
                 then Inr (with_read_headers t dec (sv_version S) ((status_reply 304)\<lparr>re_headers := tag_headers tag\<rparr>))
                 else
                   (let shown = project_to (if carries_dataset fmt then visible else default_graph_only visible) served_version
                    in case format_serialize (sv_writer S) (sv_show_quad S) fmt shown of
                         Inl _ \<Rightarrow> Inl internal_error
                       | Inr bytes \<Rightarrow> Inr (with_read_headers t dec (sv_version S)
                           \<lparr>re_status = 200,
                            re_headers = (''content-type'', content_type_of fmt held served_version) # tag_headers tag
                              @ version_links (r_iri r) fmt held served_version @ loss_links S (r_iri r) stored fmt,
                            re_body = Bytes bytes\<rparr>))))"

definition legacy_graph_read ::
  "('db, 'bl) server \<Rightarrow> decision \<Rightarrow> target \<Rightarrow> headers \<Rightarrow> (('db, 'bl) world, reply, reply) op" where
  "legacy_graph_read S dec t hs =
     (case negotiate (sv_f32 S) (header_str hs ''accept'') Graph None of
        None \<Rightarrow> op_err (status_reply 406)
      | Some (fmt, requested) \<Rightarrow>
          op_bind (op_map_err read_error (get_rdf (sv_env S) (target_iri t))) (\<lambda>found.
            case found of
              None \<Rightarrow> op_err (not_found t)
            | Some triples \<Rightarrow> (case ground_dataset triples of
                None \<Rightarrow> op_err panicked
              | Some ground \<Rightarrow>
                  (let visible = sv_visible S ground;
                       held = dataset_version visible;
                       served_version = min requested held;
                       tag = sv_etag S ground fmt served_version
                   in if header_get hs ''if-none-match'' = Some tag
                      then op_ok (with_read_headers t dec (sv_version S) ((status_reply 304)\<lparr>re_headers := tag_headers tag\<rparr>))
                      else (case format_serialize (sv_writer S) (sv_show_quad S) fmt (project_to visible served_version) of
                         Inl _ \<Rightarrow> op_err internal_error
                       | Inr bytes \<Rightarrow> op_ok (with_read_headers t dec (sv_version S)
                           \<lparr>re_status = 200,
                            re_headers = (''content-type'', content_type_of fmt held served_version) # tag_headers tag
                              @ version_links (target_iri t) fmt held served_version,
                            re_body = Bytes bytes\<rparr>))))))"

definition stored_format :: "('db, 'bl) server \<Rightarrow> iri \<Rightarrow> (('db, 'bl) world, reply, format option) op" where
  "stored_format S iri w =
     (case stored_media_type (sv_env S) iri w of
        (Inr (Some mt), w') \<Rightarrow> (Inr (from_content_type (mt_raw mt)), w')
      | (_, w') \<Rightarrow> (Inr None, w'))"

definition get_body ::
  "('db, 'bl) server \<Rightarrow> decision \<Rightarrow> target \<Rightarrow> headers \<Rightarrow> (('db, 'bl) world, reply, reply) op" where
  "get_body S dec t hs =
     (let E = sv_env S in
      case t of
        Resource r \<Rightarrow>
          op_bind (op_map_err read_error (kind_of E (r_iri r))) (\<lambda>kind.
            case kind of
              Some (KindBinary mt) \<Rightarrow> blob_read S t hs mt
            | None \<Rightarrow> op_err (not_found t)
            | Some KindRdf \<Rightarrow>
                op_bind (op_map_err read_error (get_dataset E (r_iri r))) (\<lambda>found.
                  case found of
                    None \<Rightarrow> op_err (not_found t)
                  | Some stored \<Rightarrow>
                      op_bind (stored_format S (r_iri r)) (\<lambda>stored_type.
                        op_res (dataset_read S r dec hs stored stored_type))))
      | _ \<Rightarrow> legacy_graph_read S dec t hs)"

definition get_op ::
  "('db, 'bl) server \<Rightarrow> agent \<Rightarrow> target \<Rightarrow> headers \<Rightarrow> (('db, 'bl) world, reply, reply) op" where
  "get_op S ag t hs =
     op_bind (op_map_err (refused t) (probe (sv_env S) ag t)) (\<lambda>g.
     op_bind (op_res (map_err (refused t) (authorize g Read))) (\<lambda>dec. get_body S dec t hs))"

definition get_impl ::
  "('db, 'bl) server \<Rightarrow> agent \<Rightarrow> target \<Rightarrow> headers \<Rightarrow> ('db, 'bl) world \<Rightarrow> reply \<times> ('db, 'bl) world" where
  "get_impl S ag t hs w = (case get_op S ag t hs w of (Inl r, w') \<Rightarrow> (r, w') | (Inr r, w') \<Rightarrow> (r, w'))"

section \<open>The validation view\<close>

definition wants_validation :: "string option \<Rightarrow> bool" where
  "wants_validation q = (case q of None \<Rightarrow> False | Some q \<Rightarrow> ''validate'' \<in> set (split_on (CHR ''&'') q))"

definition validated_content :: "('db, 'bl) server \<Rightarrow> target \<Rightarrow> (('db, 'bl) world, reply, dataset) op" where
  "validated_content S t =
     (let E = sv_env S in
      case t of
        Resource r \<Rightarrow> (\<lambda>w.
          if (case fst (kind_of E (r_iri r) w) of Inr (Some (KindBinary _)) \<Rightarrow> True | _ \<Rightarrow> False)
          then (Inl (not_found t), w)
          else op_bind (op_map_err put_error (get_dataset E (r_iri r))) (\<lambda>found.
            case found of None \<Rightarrow> op_err (not_found t) | Some d \<Rightarrow> op_ok (sv_visible S d)) w)
      | Container c \<Rightarrow>
          op_bind (op_map_err put_error (get_rdf E (container_iri c))) (\<lambda>found.
            case found of
              None \<Rightarrow> op_err (not_found t)
            | Some ts \<Rightarrow> (case ground_dataset (without_server_managed ts (container_iri c)) of
                None \<Rightarrow> op_err panicked | Some ground \<Rightarrow> op_ok (sv_visible S ground)))
      | Aux _ \<Rightarrow> op_err panicked)"

definition validate_op ::
  "('db, 'bl) server \<Rightarrow> agent \<Rightarrow> target \<Rightarrow> headers \<Rightarrow> (('db, 'bl) world, reply, reply) op" where
  "validate_op S ag t hs =
     (let E = sv_env S in
      op_bind (op_map_err (refused t) (probe E ag t)) (\<lambda>g.
      op_bind (op_res (map_err (refused t) (authorize g Read))) (\<lambda>_.
        case constraining_container t of
          None \<Rightarrow> op_err (not_found t)
        | Some c \<Rightarrow>
            op_bind (op_map_err shape_status (load_shape S c)) (\<lambda>doc.
              case doc of
                None \<Rightarrow> op_err (not_found t)
              | Some doc \<Rightarrow>
                  op_bind (validated_content S t) (\<lambda>d.
                  op_bind (op_res (map_err shape_status (validate S (sd_turtle doc) d))) (\<lambda>report.
                    case negotiate (sv_f32 S) (header_str hs ''accept'') Graph None of
                      None \<Rightarrow> op_err (status_reply 406)
                    | Some (fmt, _) \<Rightarrow> (case format_serialize (sv_writer S) (sv_show_quad S) fmt report of
                        Inl _ \<Rightarrow> op_err internal_error
                      | Inr bytes \<Rightarrow> op_ok \<lparr>re_status = 200,
                          re_headers = [(''content-type'', format_media_type fmt), (''vary'', ''Accept'')],
                          re_body = Bytes bytes\<rparr>)))))))"

definition validate_view ::
  "('db, 'bl) server \<Rightarrow> agent \<Rightarrow> target \<Rightarrow> headers \<Rightarrow> ('db, 'bl) world \<Rightarrow> reply \<times> ('db, 'bl) world" where
  "validate_view S ag t hs w = (case validate_op S ag t hs w of (Inl r, w') \<Rightarrow> (r, w') | (Inr r, w') \<Rightarrow> (r, w'))"

section \<open>\<open>OPTIONS\<close> and CORS\<close>

definition options_impl :: "target \<Rightarrow> headers \<Rightarrow> rdf_version \<Rightarrow> reply" where
  "options_impl t hs version = (status_reply 204)\<lparr>re_headers :=
     insert_opt ''access-control-allow-headers'' (map_of hs ''access-control-request-headers'')
       (insert_opt ''accept-post'' (accept_write t WPost version)
         (insert_opt ''accept-put'' (accept_write t WPut version)
           [(''allow'', allowed_methods t), (''access-control-allow-methods'', allowed_methods t),
            (''accept-patch'', ACCEPT_PATCH)]))\<rparr>"

definition EXPOSED_HEADERS :: string where
  "EXPOSED_HEADERS = ''Accept-Patch, Accept-Post, Accept-Put, Allow, Content-Type, ETag, Link, Location, Vary, WAC-Allow, Warning, WWW-Authenticate''"

definition vary_parts :: "headers \<Rightarrow> string list" where
  "vary_parts hs = filter (\<lambda>p. p \<noteq> []) (map trim (concat (map (split_on (CHR '',''))
     (List.map_filter (\<lambda>(n, v). if n = ''vary'' then to_str v else None) hs))))"

definition cors_layer :: "('db, 'bl) env \<Rightarrow> headers \<Rightarrow> reply \<Rightarrow> reply" where
  "cors_layer E request_headers res =
     (case map_of request_headers ''origin'' of
        None \<Rightarrow> res
      | Some origin \<Rightarrow>
          (let hs = hdr_insert ''access-control-allow-origin'' origin (re_headers res);
               parts = vary_parts hs;
               parts = (if list_ex (\<lambda>p. eq_ignore_ascii_case p ''origin'') parts then parts else parts @ [''Origin'']);
               vary = join_with '', '' parts;
               hs = (if e_header_ok E vary then hdr_insert ''vary'' vary hs else hs)
           in res\<lparr>re_headers := hdr_insert ''access-control-expose-headers'' EXPOSED_HEADERS hs\<rparr>))"

section \<open>The tag a read hands out\<close>

definition tag_of :: "reply \<Rightarrow> string option" where
  "tag_of r = map_of (re_headers r) ''etag''"

lemma map_of_hdr_insert: "map_of (hdr_insert n v hs) k = (if k = n then Some v else map_of hs k)"
proof -
  have "map_of (filter (\<lambda>h. fst h \<noteq> n) hs) k = (if k = n then None else map_of hs k)"
    by (induction hs) auto
  then show ?thesis by (simp add: hdr_insert_def map_add_def split: option.split)
qed

lemma map_of_insert_opt: "map_of (insert_opt n v hs) k = (if k = n \<and> v \<noteq> None then v else map_of hs k)"
  by (simp add: insert_opt_def map_of_hdr_insert split: option.split)

lemma tag_of_simps [simp]:
  "tag_of (status_reply s) = None" "tag_of (text_reply s m) = None" "tag_of (cause_reply s c) = None"
  "tag_of internal_error = None" "tag_of panicked = None" "tag_of (with_aux_links t r) = tag_of r"
  "tag_of (with_allow t v r) = tag_of r" "tag_of (with_read_headers t d v r) = tag_of r"
  "tag_of (refused t d') = None" "tag_of (read_error e) = None" "tag_of (not_found t) = None"
proof -
  show links: "tag_of (with_aux_links t r) = tag_of r" for r
    by (simp add: tag_of_def with_aux_links_def hdr_append_def map_add_def split: option.split)
  show allow: "tag_of (with_allow t v r) = tag_of r" for r
    by (simp add: tag_of_def with_allow_def map_of_hdr_insert map_of_insert_opt)
  show "tag_of (with_read_headers t d v r) = tag_of r"
    using links allow by (simp add: tag_of_def with_read_headers_def map_of_hdr_insert Let_def)
  show basic: "tag_of (status_reply s) = None" "tag_of (text_reply s m) = None" "tag_of (cause_reply s c) = None" for s m c
    by (simp_all add: tag_of_def status_reply_def text_reply_def cause_reply_def)
  show "tag_of internal_error = None" "tag_of panicked = None"
    by (simp_all add: internal_error_def panicked_def basic)
  then show "tag_of (refused t d') = None" "tag_of (read_error e) = None" "tag_of (not_found t) = None"
    unfolding refused_def links denial_reply_def read_error_def not_found_def
    by (simp_all add: basic split: denial.split resource_error.split) (simp add: tag_of_def)
qed

lemma tag_of_warning [simp]: "tag_of (r\<lparr>re_headers := insert_opt ''warning'' v []\<rparr>) = None"
  by (simp add: tag_of_def map_of_insert_opt)

lemma tag_of_tag_headers [simp]:
  "tag_of (r\<lparr>re_headers := tag_headers tag\<rparr>) = Some tag"
  "tag_of \<lparr>re_status = st, re_headers = tag_headers tag @ hs, re_body = bd\<rparr> = Some tag"
  "tag_of \<lparr>re_status = st, re_headers = (''content-type'', ct) # tag_headers tag @ hs, re_body = bd\<rparr> = Some tag"
  by (simp_all add: tag_of_def tag_headers_def)

definition served_tag :: "('db, 'bl) server \<Rightarrow> skolemized \<Rightarrow> string \<Rightarrow> bool" where
  "served_tag S d tag \<longleftrightarrow> (\<exists>fmt v. tag = sv_etag S d fmt (min v (dataset_version (sv_visible S d))))"

definition basic_tag :: "('db, 'bl) server \<Rightarrow> skolemized \<Rightarrow> string \<Rightarrow> bool" where
  "basic_tag S d tag \<longleftrightarrow> dataset_version (sv_visible S d) = Rdf12 \<and> (\<exists>fmt. tag = sv_etag S d fmt Rdf12Basic)"

lemma served_tagI [simp]: "served_tag S d (sv_etag S d fmt (min v (dataset_version (sv_visible S d))))"
  by (auto simp: served_tag_def)

lemma servable_formats: "List.map_filter from_content_type SERVABLE = format_all"
  by code_simp

lemma served_tag_listed: "served_tag S d tag \<Longrightarrow> tag \<in> set (etag_candidates S d) \<or> basic_tag S d tag"
proof -
  assume "served_tag S d tag"
  then obtain fmt v where tag: "tag = sv_etag S d fmt (min v (dataset_version (sv_visible S d)))"
    by (auto simp: served_tag_def)
  have "fmt \<in> set format_all" by (cases fmt) (simp_all add: format_all_def)
  moreover have "min v h \<in> {Rdf11, h} \<or> h = Rdf12 \<and> min v h = Rdf12Basic" for h :: rdf_version
    by (cases v; cases h) (simp_all add: min_def less_eq_rdf_version_def)
  ultimately show ?thesis
    unfolding tag etag_candidates_def servable_formats Let_def basic_tag_def by fastforce
qed

lemma dataset_read_tag:
  "dataset_read S r dec hs d ty = Inr re \<Longrightarrow> \<exists>tag. tag_of re = Some tag \<and> served_tag S d tag"
  "dataset_read S r dec hs d ty = Inl re \<Longrightarrow> tag_of re = None"
  by (auto simp: dataset_read_def Let_def split: option.splits if_splits sum.splits)

lemma legacy_read_errors: "raises (\<lambda>r. tag_of r = None) (legacy_graph_read S dec t hs)"
  unfolding legacy_graph_read_def Let_def by (intro raises_intros) simp_all

lemma blob_read_errors: "raises (\<lambda>r. tag_of r = None) (blob_read S t hs mt)"
  unfolding blob_read_def Let_def
  by (intro raises_intros) simp_all

lemma errors_have_no_tag: "raises (\<lambda>r. tag_of r = None) (get_op S ag t hs)"
  unfolding get_op_def get_body_def Let_def
  by (intro raises_intros raises_res legacy_read_errors blob_read_errors) (auto simp: stored_format_def raises_def dest: dataset_read_tag split: prod.splits sum.splits option.splits)

lemma reads_sum [reads_intros]:
  "(\<And>a. s = Inl a \<Longrightarrow> reads (f a)) \<Longrightarrow> (\<And>b. s = Inr b \<Longrightarrow> reads (g b)) \<Longrightarrow> reads (case s of Inl a \<Rightarrow> f a | Inr b \<Rightarrow> g b)"
  by (cases s) simp_all

lemma reads_prod [reads_intros]: "(\<And>a b. q = (a, b) \<Longrightarrow> reads (f a b)) \<Longrightarrow> reads (case q of (a, b) \<Rightarrow> f a b)"
  by (cases q) simp

lemma reads_stored_format [reads_intros]: "reads (stored_format S iri)"
  unfolding reads_def
proof
  fix w
  obtain r where "stored_media_type (sv_env S) iri w = (r, w)"
    by (metis readsD reads_storage(3) surj_pair)
  then show "snd (stored_format S iri w) = w"
    by (simp add: stored_format_def split: sum.split option.split)
qed

lemma reads_blob_read [reads_intros]: "reads (blob_read S t hs mt)"
  unfolding blob_read_def Let_def by (intro reads_intros)

lemma reads_legacy [reads_intros]: "reads (legacy_graph_read S dec t hs)"
  unfolding legacy_graph_read_def Let_def by (intro reads_intros)

lemma reads_get_op [reads_intros]: "reads (get_op S ag t hs)"
  unfolding get_op_def get_body_def Let_def by (intro reads_intros)

lemma reads_when [reads_intros]: "reads m \<Longrightarrow> reads (\<lambda>w. if c w then (x, w) else m w)"
  by (simp add: reads_def)

lemma reads_validated [reads_intros]: "reads (validated_content S t)"
  unfolding validated_content_def Let_def by (intro reads_intros)

lemma reads_validate_op [reads_intros]: "reads (validate_op S ag t hs)"
  unfolding validate_op_def Let_def by (intro reads_intros)

section \<open>A tag revalidates\<close>

text \<open>\<open>holds S t w d\<close>: the dataset a read of \<open>t\<close> serves.\<close>

definition holds :: "('db, 'bl) server \<Rightarrow> target \<Rightarrow> ('db, 'bl) world \<Rightarrow> skolemized \<Rightarrow> bool" where
  "holds S t w d \<longleftrightarrow>
     (case t of
        Resource r \<Rightarrow> get_dataset (sv_env S) (r_iri r) w = (Inr (Some d), w)
      | _ \<Rightarrow> (\<exists>ts. get_rdf (sv_env S) (target_iri t) w = (Inr (Some ts), w) \<and> ground_dataset ts = Some d))"

lemma legacy_read_tag:
  assumes "legacy_graph_read S dec t hs w = (Inr re, w')" "\<not> is_resource t"
  obtains d tag where "holds S t w d" "tag_of re = Some tag" "served_tag S d tag"
proof -
  obtain r where g: "get_rdf (sv_env S) (target_iri t) w = (r, w)"
    by (metis readsD reads_storage(5) surj_pair)
  with assms that show thesis
    by (cases r; cases t) (auto simp: legacy_graph_read_def Let_def holds_def op_bind_def op_map_err_def
      split: option.splits if_splits sum.splits)
qed

lemma blob_read_tag:
  assumes "blob_read S (Resource r) hs mt w = (Inr re, w')"
  obtains key bytes where "blob_key (e_path_from (sv_env S)) r = Some key"
    "bl_get (sv_env S) key w = (Inr (Some bytes), w)" "tag_of re = Some (blob_etag (sv_env S) bytes)"
  using assms
  by (auto simp: blob_read_def Let_def op_bind_def op_map_err_def bl_get_def
    split: option.splits if_splits sum.splits target.splits prod.splits)

lemma header_insert [simp]:
  "k \<noteq> n \<Longrightarrow> header_str (hdr_insert n v hs) k = header_str hs k"
  "header_get (hdr_insert n v hs) n = to_str v"
  by (simp_all add: header_str_def header_get_def map_of_hdr_insert)

definition revalidated :: "string \<Rightarrow> (('db, 'bl) world, reply, reply) op \<Rightarrow> ('db, 'bl) world \<Rightarrow> bool" where
  "revalidated tag m w \<longleftrightarrow> (\<exists>re. m w = (Inr re, w) \<and> re_status re = 304 \<and> tag_of re = Some tag)"

lemma dataset_read_304:
  assumes "dataset_read S r dec hs d ty = Inr re" "tag_of re = Some tag" "to_str tag = Some tag"
  shows "revalidated tag (op_res (dataset_read S r dec (hdr_insert ''if-none-match'' tag hs) d ty)) w"
  using assms by (auto simp: dataset_read_def revalidated_def Let_def split: option.splits if_splits sum.splits)

lemma legacy_read_304:
  assumes "legacy_graph_read S dec t hs w = (Inr re, w')" "tag_of re = Some tag" "to_str tag = Some tag"
  shows "revalidated tag (legacy_graph_read S dec t (hdr_insert ''if-none-match'' tag hs)) w"
proof -
  obtain r where g: "get_rdf (sv_env S) (target_iri t) w = (r, w)"
    by (metis readsD reads_storage(5) surj_pair)
  with assms show ?thesis
    by (cases r) (auto simp: legacy_graph_read_def revalidated_def Let_def op_bind_def op_map_err_def
      split: option.splits if_splits sum.splits)
qed

lemma blob_read_304:
  assumes "blob_read S t hs mt w = (Inr re, w')" "tag_of re = Some tag" "to_str tag = Some tag"
  shows "revalidated tag (blob_read S t (hdr_insert ''if-none-match'' tag hs) mt) w"
  using assms
  by (auto simp: blob_read_def revalidated_def Let_def op_bind_def op_map_err_def bl_get_def
    split: option.splits if_splits sum.splits target.splits prod.splits)

lemma check_conditionals_match:
  assumes "current_tags S t w = (Inr (Some tags), w)" "tag \<in> set tags"
    "header_get hs ''if-match'' = Some tag" "map_of hs ''if-none-match'' = None"
  shows "check_conditionals S hs t w = (Inr (), w)"
  using assms by (auto simp: check_conditionals_def op_map_err_def op_bind_def header_get_def)

lemma current_tags_held:
  assumes "holds S t w d" "\<And>r. t = Resource r \<Longrightarrow> kind_of (sv_env S) (r_iri r) w = (Inr (Some KindRdf), w)"
  shows "current_tags S t w = (Inr (Some (etag_candidates S d)), w)"
  using assms by (cases t) (auto simp: current_tags_def holds_def Let_def)

text \<open>What a tagged reply tells of the state it was read from: the same read with
  \<open>If-None-Match\<close> is answered 304, and the tag is a served one of the dataset held, or is the
  blob's only tag.\<close>

lemma get_body_tag:
  assumes "get_body S dec t hs w = (Inr re, w')" "tag_of re = Some tag" "to_str tag = Some tag"
  shows "revalidated tag (get_body S dec t (hdr_insert ''if-none-match'' tag hs)) w \<and>
    (current_tags S t w = (Inr (Some [tag]), w) \<or>
     (\<exists>d. holds S t w d \<and> served_tag S d tag \<and> current_tags S t w = (Inr (Some (etag_candidates S d)), w)))"
proof (cases "is_resource t")
  case False
  then have l: "legacy_graph_read S dec t hs w = (Inr re, w')"
    "get_body S dec t hs' = legacy_graph_read S dec t hs'" for hs'
    using assms(1) by (cases t; simp add: get_body_def)+
  moreover obtain d where "holds S t w d" "served_tag S d tag"
    using legacy_read_tag [OF l(1) False] assms(2) by auto
  ultimately show ?thesis
    using legacy_read_304 assms(2,3) current_tags_held False by fastforce
next
  case True
  then obtain r where t: "t = Resource r" by (cases t) auto
  obtain k where k: "kind_of (sv_env S) (r_iri r) w = (k, w)"
    by (metis readsD reads_storage(4) surj_pair)
  obtain d where d: "get_dataset (sv_env S) (r_iri r) w = (d, w)"
    by (metis readsD reads_get_dataset surj_pair)
  obtain ty where ty: "stored_format S (r_iri r) w = (ty, w)"
    by (metis readsD reads_stored_format surj_pair)
  consider mt where "k = Inr (Some (KindBinary mt))" "blob_read S t hs mt w = (Inr re, w')"
    | st ty' where "k = Inr (Some KindRdf)" "d = Inr (Some st)" "ty = Inr ty'" "dataset_read S r dec hs st ty' = Inr re"
    using assms(1) k d ty t
    by (auto simp: get_body_def Let_def op_bind_def op_map_err_def split: sum.splits option.splits kind.splits prod.splits)
  then show ?thesis
  proof cases
    case (1 mt)
    have "revalidated tag (get_body S dec t (hdr_insert ''if-none-match'' tag hs)) w"
      using blob_read_304 [OF 1(2) assms(2,3)] 1(1) k t by (simp add: get_body_def revalidated_def op_map_err_def Let_def)
    moreover obtain key bytes where "blob_key (e_path_from (sv_env S)) r = Some key"
      "bl_get (sv_env S) key w = (Inr (Some bytes), w)" "tag = blob_etag (sv_env S) bytes"
      using blob_read_tag [OF 1(2) [unfolded t]] assms(2) by auto
    then have "current_tags S t w = (Inr (Some [tag]), w)"
      using 1(1) k t by (simp add: current_tags_def Let_def)
    ultimately show ?thesis by blast
  next
    case (2 st ty')
    have "revalidated tag (get_body S dec t (hdr_insert ''if-none-match'' tag hs)) w"
      using dataset_read_304 [OF 2(4) assms(2,3), of w] 2 k d ty t
      by (simp add: get_body_def revalidated_def op_map_err_def Let_def)
    moreover have "holds S t w st" using 2 d t by (simp add: holds_def)
    moreover have "served_tag S st tag" using dataset_read_tag(1) [OF 2(4)] assms(2) by simp
    ultimately show ?thesis using current_tags_held k t 2(1) by blast
  qed
qed

text \<open>C15: reading changes nothing, and the entity tag of a reply revalidates it: the same request with
  \<open>If-None-Match\<close> set to the tag is answered 304 with that tag, and a write with \<open>If-Match\<close> set to it
  passes its conditions. The exception is a tag served at RDF 1.2 basic of a dataset that holds RDF
  1.2, which \<open>etag_candidates\<close> does not list.\<close>

theorem get_tag_revalidates:
  assumes "get_impl S ag t hs w = (re, w')" and "map_of (re_headers re) ''etag'' = Some tag" and "to_str tag = Some tag"
    and "header_get hs' ''if-match'' = Some tag" and "map_of hs' ''if-none-match'' = None"
  shows "w' = w \<and>
    (let (re', w2) = get_impl S ag t (hdr_insert ''if-none-match'' tag hs) w
     in w2 = w \<and> re_status re' = 304 \<and> map_of (re_headers re') ''etag'' = Some tag) \<and>
    (check_conditionals S hs' t w = (Inr (), w) \<or> (\<exists>d. holds S t w d \<and> basic_tag S d tag))"
proof -
  have tag: "tag_of re = Some tag" using assms(2) by (simp add: tag_of_def)
  obtain r where r: "get_op S ag t hs w = (r, w)"
    by (metis readsD reads_get_op surj_pair)
  have "r \<noteq> Inl re" using raisesD [OF errors_have_no_tag] r tag by fastforce
  then have re: "r = Inr re" and w: "w' = w"
    using assms(1) r by (auto simp: get_impl_def split: sum.splits)
  obtain g dec where g: "probe (sv_env S) ag t w = (Inr g, w)" "authorize g Read = Inr dec"
    and rest: "get_body S dec t hs w = (Inr re, w)"
    using r unfolding re get_op_def by (rule gate_admits)
  note body = get_body_tag [OF rest tag assms(3)]
  then have "revalidated tag (get_op S ag t (hdr_insert ''if-none-match'' tag hs)) w"
    using g by (simp add: get_op_def revalidated_def op_map_err_def)
  moreover have "check_conditionals S hs' t w = (Inr (), w) \<or> (\<exists>d. holds S t w d \<and> basic_tag S d tag)"
    using body check_conditionals_match [OF _ _ assms(4,5)] served_tag_listed by fastforce
  ultimately show ?thesis
    using w by (auto simp: get_impl_def revalidated_def tag_of_def)
qed

text \<open>Example: the public reads the root of a pod whose hash keeps tags on one line.\<close>

definition tag_server :: "(mem_db, mem_bl) server" where
  "tag_server = ex_server\<lparr>sv_env := mem_env\<lparr>e_sha := map (\<lambda>c. if c = CHR 0x0A then CHR '';'' else c)\<rparr>\<rparr>"

definition ex_tag :: string where "ex_tag = dq @ ''text/turtle;1.1;'' @ dq"

theorem get_tag_revalidates_witness:
  "re_status (fst (get_impl tag_server Public (Container ex_root) [(''if-none-match'', ex_tag)] (public_world [ACL_READ]))) = 304"
proof -
  let ?get = "get_impl tag_server Public (Container ex_root) [] (public_world [ACL_READ])"
  have "map_of (re_headers (fst ?get)) ''etag'' = Some ex_tag" "to_str ex_tag = Some ex_tag"
    "header_get [(''if-match'', ex_tag)] ''if-match'' = Some ex_tag" "hdr_insert ''if-none-match'' ex_tag [] = [(''if-none-match'', ex_tag)]"
    by code_simp+
  with get_tag_revalidates [OF prod.collapse [symmetric, of ?get], of ex_tag "[(''if-match'', ex_tag)]"]
  show ?thesis by (auto simp: split_def Let_def)
qed

text \<open>The exception is real: a resource that holds a triple term, read at 1.2 basic, is served with a
  tag that no later \<open>If-Match\<close> accepts.\<close>

definition ex_triple_term :: skolemized where
  "ex_triple_term = [\<lparr>g_subject = ''s'', g_predicate = ''p'', g_object = GroundTriple ''s'' ''p'' (GroundNamed ''o''), g_graph = GroundDefault\<rparr>]"

lemma basic_tag_refused:
  "let w = snd (put_dataset mem_env ex_url ex_triple_term Turtle (public_world [ACL_READ]));
       re = fst (get_impl tag_server Public (Resource ex_url) [(''accept'', ''text/turtle;version=1.2-basic'')] w)
   in re_status re = 200 \<and> (\<exists>tag. map_of (re_headers re) ''etag'' = Some tag \<and>
        fst (check_conditionals tag_server [(''if-match'', tag)] (Resource ex_url) w) = Inl (status_reply 412))"
proof -
  let ?w = "snd (put_dataset mem_env ex_url ex_triple_term Turtle (public_world [ACL_READ]))"
  let ?re = "fst (get_impl tag_server Public (Resource ex_url) [(''accept'', ''text/turtle;version=1.2-basic'')] ?w)"
  have "re_status ?re = 200" "map_of (re_headers ?re) ''etag'' \<noteq> None"
    "fst (check_conditionals tag_server [(''if-match'', the (map_of (re_headers ?re) ''etag''))] (Resource ex_url) ?w) = Inl (status_reply 412)"
    by code_simp+
  then show ?thesis unfolding Let_def by (metis option.collapse)
qed

end
