(* ===== verification/Router.thy ===== *)
theory Router
  imports Writes Reads Provider
begin

text \<open>
  The handlers behind their route table, \<open>router\<close> of \<^verbatim>\<open>src/http.rs\<close>, with the layers around them, and
  what holds of every request however it enters. The percent-decoding of a captured path is
  axum's; of the replies axum gives by itself (405, 413, 400 for a path that is not UTF-8) only the
  status is kept. \<open>HEAD\<close> is \<open>GET\<close> without the body.
\<close>

section \<open>Handlers\<close>

definition handle_put :: "('db, 'bl) server \<Rightarrow> agent \<Rightarrow> string \<Rightarrow> headers \<Rightarrow> string \<Rightarrow> ('db, 'bl) srv \<Rightarrow> reply \<times> ('db, 'bl) srv" where
  "handle_put S ag path hs bytes s =
     (case classify S path of Inl st \<Rightarrow> (status_reply st, s) | Inr t \<Rightarrow> put_impl S ag t hs bytes s)"

definition handle_post :: "('db, 'bl) server \<Rightarrow> agent \<Rightarrow> string \<Rightarrow> headers \<Rightarrow> string \<Rightarrow> ('db, 'bl) srv \<Rightarrow> reply \<times> ('db, 'bl) srv" where
  "handle_post S ag path hs bytes s =
     (case classify S path of Inl st \<Rightarrow> (status_reply st, s) | Inr t \<Rightarrow> post_impl S ag t hs bytes s)"

definition handle_patch :: "('db, 'bl) server \<Rightarrow> agent \<Rightarrow> string \<Rightarrow> headers \<Rightarrow> string \<Rightarrow> ('db, 'bl) srv \<Rightarrow> reply \<times> ('db, 'bl) srv" where
  "handle_patch S ag path hs bytes s =
     (case classify S path of Inl st \<Rightarrow> (status_reply st, s) | Inr t \<Rightarrow> patch_impl S ag t hs bytes s)"

definition handle_delete :: "('db, 'bl) server \<Rightarrow> agent \<Rightarrow> string \<Rightarrow> ('db, 'bl) srv \<Rightarrow> reply \<times> ('db, 'bl) srv" where
  "handle_delete S ag path s =
     (case classify S path of Inl st \<Rightarrow> (status_reply st, s) | Inr t \<Rightarrow> delete_impl S ag t s)"

definition handle_get ::
  "('db, 'bl) server \<Rightarrow> agent \<Rightarrow> string \<Rightarrow> string option \<Rightarrow> headers \<Rightarrow> ('db, 'bl) world \<Rightarrow> reply \<times> ('db, 'bl) world" where
  "handle_get S ag path query hs w =
     (case classify S path of
        Inl st \<Rightarrow> (status_reply st, w)
      | Inr t \<Rightarrow> if wants_validation query then validate_view S ag t hs w else get_impl S ag t hs w)"

definition handle_options :: "('db, 'bl) server \<Rightarrow> string \<Rightarrow> headers \<Rightarrow> reply" where
  "handle_options S path hs =
     (case classify S path of Inl st \<Rightarrow> status_reply st | Inr t \<Rightarrow> options_impl t hs (sv_version S))"

section \<open>The server as a whole\<close>

record ('db, 'bl, 'k, 'v, 's, 'a) app =
  ap_server :: "('db, 'bl) server"
  ap_jose :: "('k, 'v, 's) op_jose"
  ap_deps :: "('k, 'a) auth_deps"
  ap_max_body_bytes :: nat
  ap_op_keys :: "'k list option"
  ap_percent_decode :: "string \<Rightarrow> string option"

record http_request =
  hr_method :: string
  hr_path :: string
  hr_query :: "string option"
  hr_headers :: headers
  hr_body :: string

definition HEALTH_BODY :: string where
  "HEALTH_BODY = ''{'' @ dq @ ''status'' @ dq @ '':'' @ dq @ ''pass'' @ dq @ ''}''"

definition handle_well_known :: "('db, 'bl, 'k, 'v, 's, 'a) app \<Rightarrow> string option \<Rightarrow> reply" where
  "handle_well_known A name =
     (let json = (\<lambda>ty v. \<lparr>re_status = 200, re_headers = [(''content-type'', ty)], re_body = Bytes (json_to_string (ap_jose A) v)\<rparr>) in
      if name = Some ''health''
      then \<lparr>re_status = 200, re_headers = [(''content-type'', ''application/health+json'')], re_body = Bytes HEALTH_BODY\<rparr>
      else case ap_op_keys A of
        None \<Rightarrow> status_reply 404
      | Some keys \<Rightarrow>
          if name = Some ''openid-configuration''
          then json ''application/json'' (document (ap_jose A) (sv_space (ap_server A)) keys)
          else if name = Some ''jwks.json''
          then (case public_jwks (ap_jose A) keys of None \<Rightarrow> panicked | Some v \<Rightarrow> json ''application/jwk-set+json'' v)
          else status_reply 404)"

definition without_body :: "string \<Rightarrow> reply \<Rightarrow> reply" where
  "without_body method r = (if method = ''HEAD'' then r\<lparr>re_body := NoBody\<rparr> else r)"

definition well_known_route :: "('db, 'bl, 'k, 'v, 's, 'a) app \<Rightarrow> string \<Rightarrow> string option \<Rightarrow> reply" where
  "well_known_route A method rest =
     (if method \<notin> {''GET'', ''HEAD''} then status_reply 405
      else case rest of
        None \<Rightarrow> without_body method (handle_well_known A None)
      | Some raw \<Rightarrow> (case ap_percent_decode A raw of
          None \<Rightarrow> status_reply 400
        | Some name \<Rightarrow> without_body method (handle_well_known A (Some name))))"

definition resource_route ::
  "('db, 'bl, 'k, 'v, 's, 'a) app \<Rightarrow> agent \<Rightarrow> http_request \<Rightarrow> string \<Rightarrow> ('db, 'bl) srv \<Rightarrow> reply \<times> ('db, 'bl) srv" where
  "resource_route A ag rq path s =
     (let S = ap_server A; m = hr_method rq; hs = hr_headers rq in
      if m = ''GET'' \<or> m = ''HEAD'' then
        (let (r, w) = handle_get S ag path (hr_query rq) hs (fst s) in (without_body m r, (w, snd s)))
      else if m = ''DELETE'' then handle_delete S ag path s
      else if m = ''OPTIONS'' then (handle_options S path hs, s)
      else if m \<notin> {''PUT'', ''POST'', ''PATCH''} then (status_reply 405, s)
      else if length (hr_body rq) > ap_max_body_bytes A then (status_reply 413, s)
      else if m = ''PUT'' then handle_put S ag path hs (hr_body rq) s
      else if m = ''POST'' then handle_post S ag path hs (hr_body rq) s
      else handle_patch S ag path hs (hr_body rq) s)"

definition router ::
  "('db, 'bl, 'k, 'v, 's, 'a) app \<Rightarrow> agent \<Rightarrow> http_request \<Rightarrow> ('db, 'bl) srv \<Rightarrow> reply \<times> ('db, 'bl) srv" where
  "router A ag rq s =
     (let p = hr_path rq in
      if p = ''/'' then resource_route A ag rq ''/'' s
      else if p = ''/.well-known'' \<or> p = ''/.well-known/'' then (well_known_route A (hr_method rq) None, s)
      else case strip_prefix ''/.well-known/'' p of
        Some rest \<Rightarrow> (well_known_route A (hr_method rq) (Some rest), s)
      | None \<Rightarrow> (case strip_prefix ''/'' p of
          None \<Rightarrow> (status_reply 404, s)
        | Some rest \<Rightarrow> (case ap_percent_decode A rest of
            None \<Rightarrow> (status_reply 400, s)
          | Some path \<Rightarrow> resource_route A ag rq (''/'' @ path) s)))"

definition raw_request_of :: "http_request \<Rightarrow> raw_request" where
  "raw_request_of rq = \<lparr>rq_method = hr_method rq, rq_path = hr_path rq,
     rq_authorization = map_of (hr_headers rq) ''authorization'', rq_dpop = map_of (hr_headers rq) ''dpop''\<rparr>"

definition serve ::
  "('db, 'bl, 'k, 'v, 's, 'a) app \<Rightarrow> i64 \<Rightarrow> http_request \<Rightarrow> ('db, 'bl) srv \<times> 'a \<Rightarrow> reply \<times> (('db, 'bl) srv \<times> 'a)" where
  "serve A now rq = (\<lambda>(s, a).
     case auth_layer (ap_jose A) (sv_space (ap_server A)) (ap_deps A) now (raw_request_of rq) a of
       (None, a') \<Rightarrow> (cors_layer (sv_env (ap_server A)) (hr_headers rq) (status_reply 401), (s, a'))
     | (Some ag, a') \<Rightarrow>
         (let (r, s') = router A ag rq s in (cors_layer (sv_env (ap_server A)) (hr_headers rq) r, (s', a'))))"

section \<open>Refused requests\<close>

lemma refused_put_delete:
  assumes "authorized S ag t Write w = Inl d"
  shows "put_impl S ag t hs body (w, b) = (refused t d, (w, b))" "delete_impl S ag t (w, b) = (refused t d, (w, b))"
  using assms
  by (simp_all add: put_impl_def put_write_def delete_impl_def delete_write_def Let_def gate_refuses
    returned_def stop_def emit_put_def)

lemma refused_post_patch:
  assumes "authorized S ag t Append w = Inl d"
  shows "post_impl S ag t hs body (w, b) = (refused t d, (w, b))" "patch_impl S ag t hs body (w, b) = (refused t d, (w, b))"
  using assms by (simp_all add: post_impl_def post_write_def patch_impl_def patch_write_def Let_def gate_refuses)

lemma refused_reads:
  assumes "authorized S ag t Read w = Inl d"
  shows "get_impl S ag t hs w = (refused t d, w)" "validate_view S ag t hs w = (refused t d, w)"
  using assms by (simp_all add: get_impl_def get_op_def validate_view_def validate_op_def Let_def gate_refuses)

text \<open>C3: nothing happens without a grant. When the nearest access-control list does not give the
  agent the mode a handler asks for (Control in place of it when the target is itself a list),
  the request, whatever its headers and body, leaves the stores and the bus as they were, and its
  reply is the refusal for that agent: a function of the target's name and of whether there were
  credentials (or that the store failed), and so tells nothing of what is stored.\<close>

theorem nothing_without_a_grant:
  assumes "pod (sv_env S) sabs babs" and "pod_space sp" and "storage_url sp (target_subject t)"
    and "\<not> may (sabs (w_db w)) ag (request_chain t) (required_mode t m)"
  shows "\<exists>d. (d = deny ag \<or> (\<exists>e. d = StoreDenied e)) \<and>
    (m = Write \<longrightarrow> put_impl S ag t hs body (w, b) = (refused t d, (w, b)) \<and> delete_impl S ag t (w, b) = (refused t d, (w, b))) \<and>
    (m = Append \<longrightarrow> post_impl S ag t hs body (w, b) = (refused t d, (w, b)) \<and> patch_impl S ag t hs body (w, b) = (refused t d, (w, b))) \<and>
    (m = Read \<longrightarrow> get_impl S ag t hs w = (refused t d, w) \<and> validate_view S ag t hs w = (refused t d, w))"
proof -
  obtain d where "authorized S ag t m w = Inl d" "d = deny ag \<or> (\<exists>e. d = StoreDenied e)"
    by (rule authorized_may [OF assms])
  then show ?thesis by (cases m) (auto simp: refused_put_delete refused_post_patch refused_reads)
qed

theorem nothing_without_a_grant_witness:
  "\<exists>d. put_impl ex_server Public (Resource ex_url) [] ''x'' (mem_world, new_bus) = (refused (Resource ex_url) d, (mem_world, new_bus))"
proof -
  have pod: "pod (sv_env ex_server) mem_abs map_of" using mem_pod.pod_axioms by (simp add: ex_server_def)
  have "\<not> may (mem_abs (w_db mem_world)) Public (request_chain (Resource ex_url)) (required_mode (Resource ex_url) Write)"
    by (simp add: may_def governing_def presentG_def mem_abs_def mem_world_def)
  from nothing_without_a_grant [OF pod ex_space _ this, of "[]" "''x''" new_bus] ex_storage show ?thesis by auto
qed

section \<open>Whoever changes something\<close>

fun mode_of_method :: "string \<Rightarrow> mode" where
  "mode_of_method m = (if m = ''POST'' \<or> m = ''PATCH'' then Append else Write)"

text \<open>The stores and the bus change only through a handler that writes, and then with its grant.\<close>

lemma effect_needs_grant:
  assumes "pod (sv_env S) sabs babs" and "pod_space (sv_space S)" and "classify S path = Inr t"
    and "\<not> may (sabs (w_db w)) ag (request_chain t) (required_mode t (mode_of_method m))"
  shows "m = ''PUT'' \<Longrightarrow> snd (handle_put S ag path hs body (w, b)) = (w, b)"
    "m = ''DELETE'' \<Longrightarrow> snd (handle_delete S ag path (w, b)) = (w, b)"
    "m = ''POST'' \<Longrightarrow> snd (handle_post S ag path hs body (w, b)) = (w, b)"
    "m = ''PATCH'' \<Longrightarrow> snd (handle_patch S ag path hs body (w, b)) = (w, b)"
proof -
  have "storage_url (sv_space S) (target_subject t)"
    using assms(3) by (auto simp: classify_def dest: resolve_storage_url)
  then obtain d where d: "authorized S ag t (mode_of_method m) w = Inl d"
    using authorized_may [OF assms(1,2) _ assms(4)] by blast
  show "snd (handle_put S ag path hs body (w, b)) = (w, b)" if "m = ''PUT''"
    using d that assms(3) by (simp add: handle_put_def refused_put_delete(1))
  show "snd (handle_delete S ag path (w, b)) = (w, b)" if "m = ''DELETE''"
    using d that assms(3) by (simp add: handle_delete_def refused_put_delete(2))
  show "snd (handle_post S ag path hs body (w, b)) = (w, b)" if "m = ''POST''"
    using d that assms(3) by (simp add: handle_post_def refused_post_patch(1))
  show "snd (handle_patch S ag path hs body (w, b)) = (w, b)" if "m = ''PATCH''"
    using d that assms(3) by (simp add: handle_patch_def refused_post_patch(2))
qed

lemma handle_get_reads: "snd (handle_get S ag path q hs w) = w"
proof -
  have "snd (get_op S ag t hs w) = w" "snd (validate_op S ag t hs w) = w" for t
    using reads_get_op reads_validate_op unfolding reads_def by blast+
  then have "snd (get_impl S ag t hs w) = w" "snd (validate_view S ag t hs w) = w" for t
    by (auto simp: get_impl_def validate_view_def split: prod.splits sum.splits) (metis snd_conv)+
  then show ?thesis by (simp add: handle_get_def split: sum.split)
qed

lemma unclassified_changes_nothing:
  assumes "classify S path = Inl st"
  shows "snd (handle_put S ag path hs body s) = s" "snd (handle_delete S ag path s) = s"
    "snd (handle_post S ag path hs body s) = s" "snd (handle_patch S ag path hs body s) = s"
  using assms by (simp_all add: handle_put_def handle_delete_def handle_post_def handle_patch_def)

definition writing_methods :: "string set" where
  "writing_methods = {''PUT'', ''POST'', ''PATCH'', ''DELETE''}"

lemma resource_route_effect:
  assumes "pod (sv_env (ap_server A)) sabs babs" and "pod_space (sv_space (ap_server A))"
    and "snd (resource_route A ag rq path (w, b)) \<noteq> (w, b)"
  shows "hr_method rq \<in> writing_methods \<and> (hr_method rq \<noteq> ''DELETE'' \<longrightarrow> length (hr_body rq) \<le> ap_max_body_bytes A) \<and>
    (\<exists>t. resolve (e_valid_iri (sv_env (ap_server A))) (sv_space (ap_server A)) path = Inr t \<and>
      may (sabs (w_db w)) ag (request_chain t) (required_mode t (mode_of_method (hr_method rq))))"
proof -
  let ?S = "ap_server A" and ?m = "hr_method rq"
  have route: "?m \<in> writing_methods \<and> (?m \<noteq> ''DELETE'' \<longrightarrow> length (hr_body rq) \<le> ap_max_body_bytes A)"
    using assms(3) handle_get_reads [of ?S ag path "hr_query rq" "hr_headers rq" w]
    by (auto simp: resource_route_def writing_methods_def Let_def split: if_splits prod.splits)
  obtain t where t: "classify ?S path = Inr t"
    using assms(3) route unclassified_changes_nothing [of ?S path]
    by (cases "classify ?S path") (auto simp: resource_route_def writing_methods_def Let_def)
  have "may (sabs (w_db w)) ag (request_chain t) (required_mode t (mode_of_method ?m))"
  proof (rule ccontr)
    assume no: "\<not> ?thesis"
    from effect_needs_grant [OF assms(1,2) t no] route assms(3) show False
      by (auto simp: resource_route_def writing_methods_def Let_def)
  qed
  moreover have "resolve (e_valid_iri (sv_env ?S)) (sv_space ?S) path = Inr t" using t by (simp add: classify_def)
  ultimately show ?thesis using route by blast
qed

definition request_paths :: "('db, 'bl, 'k, 'v, 's, 'a) app \<Rightarrow> http_request \<Rightarrow> string \<Rightarrow> bool" where
  "request_paths A rq path \<longleftrightarrow> hr_path rq = ''/'' \<and> path = ''/'' \<or>
     (\<exists>rest decoded. hr_path rq = ''/'' @ rest \<and> rest \<noteq> ''.well-known'' \<and> \<not> starts_with ''.well-known/'' rest \<and>
        ap_percent_decode A rest = Some decoded \<and> path = ''/'' @ decoded)"

lemma router_effect:
  assumes "snd (router A ag rq s) \<noteq> s"
  obtains path where "request_paths A rq path" "snd (resource_route A ag rq path s) \<noteq> s"
proof (cases "hr_path rq = ''/''")
  case True
  with assms that [of "''/''"] show thesis by (simp add: router_def request_paths_def)
next
  case False
  with assms have wk: "hr_path rq \<noteq> ''/.well-known''" "strip_prefix ''/.well-known/'' (hr_path rq) = None"
    by (auto simp: router_def Let_def split: if_splits option.splits)
  with False assms obtain rest decoded where "strip_prefix ''/'' (hr_path rq) = Some rest" "ap_percent_decode A rest = Some decoded"
    "snd (resource_route A ag rq (''/'' @ decoded) s) \<noteq> s"
    by (auto simp: router_def Let_def split: if_splits option.splits)
  moreover from this have "hr_path rq = ''/'' @ rest" by (simp add: strip_prefix_Some)
  ultimately have "request_paths A rq (''/'' @ decoded)"
    using wk by (simp add: request_paths_def starts_with_def)
  with \<open>snd (resource_route A ag rq (''/'' @ decoded) s) \<noteq> s\<close> that show thesis by blast
qed

text \<open>Who a request has shown to come from.\<close>

definition agent_shown ::
  "('db, 'bl, 'k, 'v, 's, 'a) app \<Rightarrow> i64 \<Rightarrow> http_request \<Rightarrow> agent \<Rightarrow> 'a \<Rightarrow> 'a \<Rightarrow> bool" where
  "agent_shown A now rq ag a a' \<longleftrightarrow>
     (let ah = Option.bind (map_of (hr_headers rq) ''authorization'') to_str;
          dh = Option.bind (map_of (hr_headers rq) ''dpop'') to_str
      in case ag of
           Public \<Rightarrow> ah = None \<and> dh = None
         | WebId webid \<Rightarrow> webid_shown (ap_jose A) (ap_deps A) now ah dh (hr_method rq)
             (derive_htu (sv_space (ap_server A)) (hr_path rq)) webid a a')"

text \<open>C2: whatever a request changes, it was entitled to. If serving a request, through the CORS and
  authentication layers, the route table and its handler, leaves the stores or the bus different,
  then its method writes, its body (if it has one) is within the limit, its decoded path resolves
  to a target, never to \<open>.well-known\<close>, whose nearest access-control list grants the mode to the agent
  the authentication layer found; and that agent is the public if and only if no credential header
  was readable, or a WebID for which token, issuer, profile, proof, freshness and replay checks all
  passed.\<close>

theorem serve_effects_authorized:
  assumes "pod (sv_env (ap_server A)) sabs babs" and "pod_space (sv_space (ap_server A))"
    and "serve A now rq ((w, b), a) = (re, ((w', b'), a'))" and "(w', b') \<noteq> (w, b)"
  shows "\<exists>path t ag. request_paths A rq path \<and>
    resolve (e_valid_iri (sv_env (ap_server A))) (sv_space (ap_server A)) path = Inr t \<and>
    hr_method rq \<in> writing_methods \<and> (hr_method rq \<noteq> ''DELETE'' \<longrightarrow> length (hr_body rq) \<le> ap_max_body_bytes A) \<and>
    may (sabs (w_db w)) ag (request_chain t) (required_mode t (mode_of_method (hr_method rq))) \<and>
    agent_shown A now rq ag a a'"
proof -
  let ?auth = "auth_layer (ap_jose A) (sv_space (ap_server A)) (ap_deps A) now (raw_request_of rq) a"
  from assms(3,4) obtain ag r where auth: "?auth = (Some ag, a')" and route: "router A ag rq (w, b) = (r, (w', b'))"
    by (auto simp: serve_def Let_def split: prod.splits option.splits)
  from route assms(4) obtain path where path: "request_paths A rq path" "snd (resource_route A ag rq path (w, b)) \<noteq> (w, b)"
    by (metis router_effect snd_conv)
  note effect = resource_route_effect [OF assms(1,2) path(2)]
  have "agent_shown A now rq ag a a'"
  proof (cases ag)
    case Public
    with auth_layer_public_iff(1) [OF auth] show ?thesis by (simp add: agent_shown_def raw_request_of_def)
  next
    case (WebId webid)
    with auth have "authenticate (ap_jose A) (Option.bind (map_of (hr_headers rq) ''authorization'') to_str)
        (Option.bind (map_of (hr_headers rq) ''dpop'') to_str) (hr_method rq)
        (derive_htu (sv_space (ap_server A)) (hr_path rq)) (ap_deps A) now a = (Inr (WebId webid), a')"
      by (auto simp: auth_layer_def raw_request_of_def split: prod.splits sum.splits)
    from authenticate_webid_shown [OF this] WebId show ?thesis by (simp add: agent_shown_def)
  qed
  with path(1) effect show ?thesis by blast
qed

text \<open>Example: the public deletes a resource it may write.\<close>

definition ex_app :: "(mem_db, mem_bl, string option \<times> string option, unit, unit, unit) app" where
  "ex_app = \<lparr>ap_server = ex_server, ap_jose = ex_op_jose,
     ap_deps = \<lparr>d_resolve = static_jwks_resolve [], d_authorizes = (\<lambda>_ _. op_ok False),
       d_config = \<lparr>trusted_issuers = None, expected_audience = None\<rparr>, d_replay = (\<lambda>_ _. op_ok ())\<rparr>,
     ap_max_body_bytes = 100, ap_op_keys = None, ap_percent_decode = Some\<rparr>"

definition ex_delete :: http_request where
  "ex_delete = \<lparr>hr_method = ''DELETE'', hr_path = ''/a'', hr_query = None, hr_headers = [], hr_body = []\<rparr>"

theorem serve_effects_authorized_witness:
  "\<exists>t. resolve (\<lambda>_. True) ex_pod ''/a'' = Inr t \<and> may (mem_abs (w_db delete_world)) Public (request_chain t) (required_mode t Write)"
proof -
  let ?run = "serve ex_app 0 ex_delete ((delete_world, new_bus), ())"
  have pod: "pod (sv_env (ap_server ex_app)) mem_abs map_of" using mem_pod.pod_axioms by (simp add: ex_server_def ex_app_def)
  have sp: "pod_space (sv_space (ap_server ex_app))" using ex_space by (simp add: ex_app_def ex_server_def ex_pod_def)
  have run: "?run = (fst ?run, ((fst (fst (snd ?run)), snd (fst (snd ?run))), snd (snd ?run)))" by (metis prod.collapse)
  have "length (w_db (fst (fst (snd ?run)))) \<noteq> length (w_db delete_world)" by code_simp
  then have "(fst (fst (snd ?run)), snd (fst (snd ?run))) \<noteq> (delete_world, new_bus)" by auto
  from serve_effects_authorized [OF pod sp run this] obtain path t ag where
    *: "request_paths ex_app ex_delete path" "resolve (e_valid_iri (sv_env (ap_server ex_app))) (sv_space (ap_server ex_app)) path = Inr t"
      "may (mem_abs (w_db delete_world)) ag (request_chain t) (required_mode t (mode_of_method (hr_method ex_delete)))"
    and "agent_shown ex_app 0 ex_delete ag () (snd (snd ?run))"
    by blast
  then have "ag = Public" by (cases ag) (auto simp: agent_shown_def webid_shown_def ex_delete_def)
  with * show ?thesis
    by (auto simp: ex_app_def ex_server_def ex_delete_def request_paths_def mem_env_def)
qed

end
