(* ===== verification/Invariants.thy ===== *)
theory Invariants
  imports Router
begin

text \<open>
  What every request leaves intact, whatever it is, whoever sends it and however the stores fail:
  no auxiliary without its subject, a registry of shelves only, the root, every resource listed by
  its parent container, and no URL next to its trailing-slash counterpart. The handlers of
  \<open>Writes\<close> are followed step by step in a small Hoare logic over the graphs of the store.
\<close>

section \<open>The invariant\<close>

definition listed :: "graphs \<Rightarrow> container_url \<Rightarrow> resource_url \<Rightarrow> bool" where
  "listed G p u \<longleftrightarrow> presentG G (container_iri p) \<and>
     contains_triple (container_iri p) (r_iri u) \<in> G (container_iri p)"

definition all_listed :: "storage_space \<Rightarrow> graphs \<Rightarrow> bool" where
  "all_listed sp G \<longleftrightarrow> (\<forall>u p. storage_url sp u \<longrightarrow> \<not> suffix ''/'' (r_path u) \<longrightarrow> presentG G (r_iri u) \<longrightarrow>
     parent u = Some p \<longrightarrow> listed G p u)"

definition tree_ok :: "storage_space \<Rightarrow> graphs \<Rightarrow> bool" where
  "tree_ok sp G \<longleftrightarrow> no_orphan sp G \<and> registry_ok G \<and> presentG G (container_iri (space_root sp)) \<and>
     all_listed sp G \<and> slash_free sp G"

text \<open>A URL that may come into being: its parent lists it, if it is to be a member, and its
  counterpart is absent.\<close>

definition ready :: "resource_url \<Rightarrow> graphs \<Rightarrow> bool" where
  "ready u G \<longleftrightarrow> (\<forall>p. \<not> suffix ''/'' (r_path u) \<longrightarrow> parent u = Some p \<longrightarrow> listed G p u) \<and>
     (\<forall>c. slash_counterpart u = Some c \<longrightarrow> \<not> presentG G (r_iri c))"

definition childless :: "storage_space \<Rightarrow> resource_url \<Rightarrow> graphs \<Rightarrow> bool" where
  "childless sp u G \<longleftrightarrow> (\<forall>v p. storage_url sp v \<longrightarrow> \<not> suffix ''/'' (r_path v) \<longrightarrow> presentG G (r_iri v) \<longrightarrow>
     parent v = Some p \<longrightarrow> as_resource p \<noteq> u)"

lemma all_listedD:
  "all_listed sp G \<Longrightarrow> storage_url sp u \<Longrightarrow> \<not> suffix ''/'' (r_path u) \<Longrightarrow> presentG G (r_iri u) \<Longrightarrow>
     parent u = Some p \<Longrightarrow> listed G p u"
  unfolding all_listed_def by blast

text \<open>No stored URL contains a UUID that is yet to be drawn: what makes version 4 UUIDs fit as names.\<close>

definition unguessed :: "storage_space \<Rightarrow> ('db, 'bl) env \<Rightarrow> nat \<Rightarrow> graphs \<Rightarrow> bool" where
  "unguessed sp E n G \<longleftrightarrow> (\<forall>m u a b. n \<le> m \<longrightarrow> storage_url sp u \<longrightarrow> presentG G (r_iri u) \<longrightarrow>
     r_path u \<noteq> a @ ''-'' @ e_mint E m @ b)"

lemma parent_slash: "parent u = Some p \<Longrightarrow> suffix ''/'' (r_path (as_resource p))"
  using ancestors_suffix [of p u] by (simp add: ancestors.simps [of u])

lemma parent_ne: "parent u = Some p \<Longrightarrow> as_resource p \<noteq> u"
  using ancestors_shorter [of p u] by (auto simp: ancestors.simps [of u])

lemma container_of_resource: "container_iri p = r_iri (as_resource p)"
  by (simp add: container_iri_def)

lemma childless_resource: "\<not> suffix ''/'' (r_path u) \<Longrightarrow> childless sp u G"
  unfolding childless_def using parent_slash by blast

lemma ready_present:
  assumes "tree_ok sp G" and "storage_url sp u" and "is_normalization_stable (r_path u)" and "presentG G (r_iri u)"
  shows "ready u G"
  using assms unfolding ready_def tree_ok_def slash_free_def by (blast intro: all_listedD)

text \<open>The counterpart of a URL of the pod is one too.\<close>

lemma counterpart_storage:
  assumes "pod_space sp" and "storage_url sp u" and "is_normalization_stable (r_path u)" and "slash_counterpart u = Some c"
  shows "storage_url sp c \<and> slash_counterpart c = Some u \<and> c \<noteq> u \<and> is_normalization_stable (r_path c)"
  using slash_counterpart_involution [of sp u c] slash_counterpart_plain [of sp u c] assms
  by (auto simp: storage_url_def pod_space_def)

section \<open>One update at a time\<close>

lemma marking_presentD:
  "pod_space sp \<Longrightarrow> marking sp u us \<Longrightarrow> storage_url sp v \<Longrightarrow> presentG (exec us G) (r_iri v) \<Longrightarrow> presentG G (r_iri v) \<or> v = u"
  using marking_present by blast

lemma marking_keeps:
  "pod_space sp \<Longrightarrow> marking sp u us \<Longrightarrow> storage_url sp v \<Longrightarrow> presentG G (r_iri v) \<Longrightarrow> presentG (exec us G) (r_iri v)"
  by (simp add: marking_present)

lemma slash_free_marking:
  assumes sp: "pod_space sp" and m: "marking sp u us" and free: "slash_free sp G"
    and new: "presentG G (r_iri u) \<or> \<not> presentG (exec us G) (r_iri u) \<or>
      (\<forall>c. slash_counterpart u = Some c \<longrightarrow> \<not> presentG G (r_iri c))"
  shows "slash_free sp (exec us G)"
  unfolding slash_free_def
proof (intro allI impI notI)
  fix v d
  assume v: "storage_url sp v" "is_normalization_stable (r_path v)" "slash_counterpart v = Some d"
    and both: "presentG (exec us G) (r_iri v) \<and> presentG (exec us G) (r_iri d)"
  note d = counterpart_storage [OF sp v]
  have "presentG G (r_iri v) \<or> v = u" "presentG G (r_iri d) \<or> d = u"
    using both marking_presentD [OF sp m] v(1) d by blast+
  with free v both new d show False unfolding slash_free_def by metis
qed

lemma all_listed_marking:
  assumes sp: "pod_space sp" and m: "marking sp u us" and all: "all_listed sp G"
    and new: "presentG G (r_iri u) \<or> \<not> presentG (exec us G) (r_iri u) \<or> suffix ''/'' (r_path u) \<or>
      (\<forall>p. parent u = Some p \<longrightarrow> listed G p u)"
    and kept: "\<And>v p. storage_url sp v \<Longrightarrow> \<not> suffix ''/'' (r_path v) \<Longrightarrow> presentG G (r_iri v) \<Longrightarrow> parent v = Some p \<Longrightarrow>
      as_resource p = u \<Longrightarrow> contains_triple (r_iri u) (r_iri v) \<in> G (r_iri u) \<Longrightarrow>
      contains_triple (r_iri u) (r_iri v) \<in> exec us G (r_iri u)"
  shows "all_listed sp (exec us G)"
  unfolding all_listed_def
proof (intro allI impI)
  fix v p assume v: "storage_url sp v" "\<not> suffix ''/'' (r_path v)" "presentG (exec us G) (r_iri v)" "parent v = Some p"
  have p: "storage_url sp (as_resource p)" by (rule storage_parent [OF sp v(1,4)])
  have "presentG G (r_iri v) \<or> v = u" by (rule marking_presentD [OF sp m v(1,3)])
  with new v all have l: "listed G p v" by (auto dest: all_listedD)
  show "listed (exec us G) p v"
  proof (cases "as_resource p = u")
    case True
    then have "presentG G (r_iri v)" using \<open>presentG G (r_iri v) \<or> v = u\<close> parent_ne [OF v(4)] by blast
    from kept [OF v(1,2) this v(4) True] l marking_keeps [OF sp m p] True show ?thesis
      by (auto simp: listed_def container_of_resource)
  next
    case False
    with l marking_keeps [OF sp m p] marking_frame [OF sp m p] show ?thesis
      by (simp add: listed_def container_of_resource)
  qed
qed

lemma tree_marking:
  assumes sp: "pod_space sp" and m: "marking sp u us" and ok: "tree_ok sp G"
    and new: "presentG G (r_iri u) \<or> \<not> presentG (exec us G) (r_iri u) \<or> ready u G"
    and kept: "\<And>v p. storage_url sp v \<Longrightarrow> \<not> suffix ''/'' (r_path v) \<Longrightarrow> presentG G (r_iri v) \<Longrightarrow> parent v = Some p \<Longrightarrow>
      as_resource p = u \<Longrightarrow> contains_triple (r_iri u) (r_iri v) \<in> G (r_iri u) \<Longrightarrow>
      contains_triple (r_iri u) (r_iri v) \<in> exec us G (r_iri u)"
  shows "tree_ok sp (exec us G)"
  unfolding tree_ok_def
proof (intro conjI)
  show "no_orphan sp (exec us G)" "registry_ok (exec us G)"
    using ok no_orphan_marking [OF sp m] registry_ok_marking [OF sp m] by (simp_all add: tree_ok_def)
  show "presentG (exec us G) (container_iri (space_root sp))"
    using ok marking_keeps [OF sp m space_root_storage [OF sp]] by (simp add: tree_ok_def container_of_resource)
  show "all_listed sp (exec us G)"
    by (rule all_listed_marking [OF sp m _ _ kept]) (use ok new in \<open>auto simp: tree_ok_def ready_def\<close>)
  show "slash_free sp (exec us G)"
    by (rule slash_free_marking [OF sp m]) (use ok new in \<open>auto simp: tree_ok_def ready_def\<close>)
qed

lemma tree_steps:
  assumes "pod_space sp" and "steps_to (marking sp u) G G'" and "tree_ok sp G" and "ready u G" and "\<not> suffix ''/'' (r_path u)"
  shows "tree_ok sp G'"
proof -
  have "as_resource p \<noteq> u" if "parent v = Some p" for v p using parent_slash [OF that] assms(5) by blast
  with assms(2-4) tree_marking [OF assms(1)] show ?thesis unfolding steps_to_def by blast
qed

text \<open>An update of an auxiliary touches nothing the tree is about.\<close>

lemma tree_aux:
  assumes "pod_space sp" and "steps_to (aux_marking sp u) G G'" and ok: "tree_ok sp G"
  shows "tree_ok sp G'"
proof (cases "G' = G")
  case False
  then obtain us where m: "aux_marking sp u us" and G': "G' = exec us G" using assms(2) by (auto simp: steps_to_def)
  then have u: "storage_url sp u" by (auto elim: aux_marking.cases)
  show ?thesis unfolding G'
    by (rule tree_marking [OF assms(1) marking.aux [OF m] ok])
       (use aux_marking_frame [OF assms(1) m u] in auto)
qed (use ok in simp)

text \<open>Forgetting a subject that is not the root and has no members.\<close>

lemma tree_delete:
  assumes sp: "pod_space sp" and u: "storage_url sp u" "parent u = Some q" and reg: "shelf_keys reg"
    and ok: "tree_ok sp G" and none: "childless sp u G"
    and G': "G' = exec (delete_subject_ops u reg @ [DeleteData (container_iri q) [contains_triple (container_iri q) (r_iri u)]]) G"
  shows "tree_ok sp G'"
proof -
  have q: "storage_url sp (as_resource q)" by (rule storage_parent [OF sp u])
  have un: "set [DeleteData (container_iri q) [contains_triple (container_iri q) (r_iri u)]] \<subseteq> {DeleteData g ts | g ts. http_iri g}"
    using storage_http [OF sp q] by (auto simp: container_of_resource)
  have iss: "issued sp (delete_subject_ops u reg @ [DeleteData (container_iri q) [contains_triple (container_iri q) (r_iri u)]])"
    by (rule issued.delete_subject [OF u(1) reg un])
  have pres: "presentG G' h \<longleftrightarrow> h \<noteq> r_iri u \<and> h \<noteq> a_iri (url_aux u Acl) \<and> presentG G h" for h
    unfolding G' by (rule presentG_delete_subject [OF storage_http [OF sp u(1)] aux_http [OF sp u(1)] reg un])
  have still: "presentG G' (r_iri v) \<longleftrightarrow> v \<noteq> u \<and> presentG G (r_iri v)" if "storage_url sp v" for v
    using storage_eqI [OF that u(1)] storage_not_aux [OF sp u(1) that] by (auto simp: pres)
  have graph: "contains_triple (r_iri v) (r_iri x) \<in> G' (r_iri v)"
    if v: "storage_url sp v" "v \<noteq> u" and x: "storage_url sp x" "x \<noteq> u" and t: "contains_triple (r_iri v) (r_iri x) \<in> G (r_iri v)" for v x
  proof -
    have http: "http_iri (r_iri v)" "http_iri (r_iri u)" "http_iri (a_iri (url_aux u Acl))"
      using sp v(1) u(1) by (auto simp: storage_http aux_http)
    have registry_free: "r_iri v \<notin> set reg" using reg http_not_shelf(1) [OF http(1)] unfolding list_all_iff by blast
    from http have "r_iri v \<notin> set reg \<union> {r_iri u, sys_graph_iri (r_iri u)} \<union> {a_iri (url_aux u Acl), sys_graph_iri (a_iri (url_aux u Acl))}"
      using registry_free storage_eqI [OF v(1) u(1)] v(2) storage_not_aux [OF sp u(1) v(1)] by auto
    then show ?thesis using t storage_eqI [OF x(1) u(1)] x(2)
      by (auto simp: G' delete_subject_ops_exec contains_triple_def)
  qed
  show ?thesis unfolding tree_ok_def
  proof (intro conjI)
    show "no_orphan sp G'" "registry_ok G'"
      using ok no_orphan_step [OF sp iss] registry_ok_step [OF sp iss] by (simp_all add: tree_ok_def G')
    have "as_resource (space_root sp) \<noteq> u"
      using u(2) by (auto simp: space_root_def parent_def parent_path_def)
    then show "presentG G' (container_iri (space_root sp))"
      using ok still [OF space_root_storage [OF sp]] by (simp add: tree_ok_def container_of_resource)
    show "slash_free sp G'"
      using ok unfolding tree_ok_def slash_free_def pres by blast
    show "all_listed sp G'" unfolding all_listed_def
    proof (intro allI impI)
      fix v p assume v: "storage_url sp v" "\<not> suffix ''/'' (r_path v)" "presentG G' (r_iri v)" "parent v = Some p"
      then have "v \<noteq> u" "presentG G (r_iri v)" by (simp_all add: still)
      moreover from this have "listed G p v" using ok v by (auto simp: tree_ok_def dest: all_listedD)
      moreover have "as_resource p \<noteq> u" using none v calculation(2) unfolding childless_def by blast
      ultimately show "listed G' p v"
        using graph [OF storage_parent [OF sp v(1,4)] _ v(1)] still [OF storage_parent [OF sp v(1,4)]]
        by (simp add: listed_def container_of_resource)
    qed
  qed
qed

section \<open>Triples\<close>

text \<open>A pod whose store is asked for one space.\<close>

locale tree_pod = pod E sabs babs
  for E :: "('db, 'bl) env" and sabs :: "'db \<Rightarrow> graphs" and babs :: "'bl \<Rightarrow> string \<Rightarrow> string option" +
  fixes sp :: storage_space
  assumes space: "pod_space sp"

interpretation mem_tree: tree_pod mem_env mem_abs map_of "\<lparr>s_base = ''http://h/''\<rparr>"
  by unfold_locales (rule ex_space)

definition still :: "(('db, 'bl) world, 'e, 'a) op \<Rightarrow> bool" where
  "still m \<longleftrightarrow> (\<forall>w. w_db (snd (m w)) = w_db w)"

named_theorems still_intros

lemma still_reads [still_intros]: "reads m \<Longrightarrow> still m"
  by (simp add: still_def reads_def)

lemma still_map_err [still_intros]: "still m \<Longrightarrow> still (op_map_err f m)"
  by (auto simp: still_def op_map_err_def split: prod.splits) (metis snd_conv)+

lemma still_bind [still_intros]:
  assumes "still m" and "\<And>x. still (f x)"
  shows "still (op_bind m f)"
  unfolding still_def
proof
  fix w
  obtain r w' where m: "m w = (r, w')" by (cases "m w")
  with assms show "w_db (snd (op_bind m f w)) = w_db w"
    by (cases r) (auto simp: op_bind_def still_def, (metis snd_conv)+)
qed

lemma still_if [still_intros]: "still m \<Longrightarrow> still m' \<Longrightarrow> still (if c then m else m')"
  by simp

lemma still_draws [still_intros]: "still (w_skolemize E d)" "still (child_name E slug)" "still (draw_uuid E)"
  by (auto simp: still_def w_skolemize_def child_name_def draw_uuid_def Let_def split: prod.splits)

context tree_pod
begin

definition triple :: "(graphs \<Rightarrow> bool) \<Rightarrow> (('db, 'bl) world, 'e, 'a) op \<Rightarrow> ('a \<Rightarrow> graphs \<Rightarrow> bool) \<Rightarrow> bool" where
  "triple P m Q \<longleftrightarrow>
     (\<forall>w e w'. P (sabs (w_db w)) \<longrightarrow> m w = (Inl e, w') \<longrightarrow> tree_ok sp (sabs (w_db w'))) \<and>
     (\<forall>w x w'. P (sabs (w_db w)) \<longrightarrow> m w = (Inr x, w') \<longrightarrow> Q x (sabs (w_db w')))"

lemma tripleI:
  "(\<And>w e w'. P (sabs (w_db w)) \<Longrightarrow> m w = (Inl e, w') \<Longrightarrow> tree_ok sp (sabs (w_db w'))) \<Longrightarrow>
   (\<And>w x w'. P (sabs (w_db w)) \<Longrightarrow> m w = (Inr x, w') \<Longrightarrow> Q x (sabs (w_db w'))) \<Longrightarrow> triple P m Q"
  unfolding triple_def by blast

lemma tripleD:
  "triple P m Q \<Longrightarrow> P (sabs (w_db w)) \<Longrightarrow> m w = (Inl e, w') \<Longrightarrow> tree_ok sp (sabs (w_db w'))"
  "triple P m Q \<Longrightarrow> P (sabs (w_db w)) \<Longrightarrow> m w = (Inr x, w') \<Longrightarrow> Q x (sabs (w_db w'))"
  unfolding triple_def by blast+

lemma triple_inv: "(\<And>w r w'. P (sabs (w_db w)) \<Longrightarrow> m w = (r, w') \<Longrightarrow> tree_ok sp (sabs (w_db w'))) \<Longrightarrow> triple P m (\<lambda>_. tree_ok sp)"
  by (rule tripleI) blast+

lemma triple_weaken: "triple P m Q \<Longrightarrow> (\<And>G. P' G \<Longrightarrow> P G) \<Longrightarrow> (\<And>x G. Q x G \<Longrightarrow> Q' x G) \<Longrightarrow> triple P' m Q'"
  by (rule tripleI) (blast dest: tripleD)+

lemma triple_ok: "(\<And>G. P G \<Longrightarrow> Q x G) \<Longrightarrow> triple P (op_ok x) Q"
  and triple_err: "(\<And>G. P G \<Longrightarrow> tree_ok sp G) \<Longrightarrow> triple P (op_err e) Q"
  by (auto intro: tripleI)

lemma triple_bind: "triple P m Q \<Longrightarrow> (\<And>x. triple (Q x) (f x) R) \<Longrightarrow> triple P (op_bind m f) R"
  by (rule tripleI; erule op_bind_cases) (blast dest: tripleD | simp)+

lemma triple_map_err: "triple P m Q \<Longrightarrow> triple P (op_map_err f m) Q"
  by (rule tripleI) (auto simp: op_map_err_Inl op_map_err_conv dest: tripleD)

lemma triple_attempt:
  assumes "triple P m (\<lambda>_. tree_ok sp)" and "\<And>r G. tree_ok sp G \<Longrightarrow> Q (f r) G"
  shows "triple P (attempt m f) Q"
proof (rule tripleI)
  fix w x w' assume P: "P (sabs (w_db w))" and "attempt m f w = (Inr x, w')"
  then obtain r where m: "m w = (r, w')" "x = f r" by (auto simp: attempt_def split: prod.splits)
  with assms(1) P have "tree_ok sp (sabs (w_db w'))" by (cases r) (blast dest: tripleD)+
  with m(2) assms(2) show "Q x (sabs (w_db w'))" by simp
qed (simp add: attempt_def split: prod.splits)

lemma triple_still:
  assumes "still m" and "\<And>G. P G \<Longrightarrow> tree_ok sp G" and "\<And>x. triple P (f x) R"
  shows "triple P (op_bind m f) R"
proof (rule triple_bind [OF _ assms(3)])
  have "w_db w' = w_db w" if "m w = (r, w')" for w r w' using assms(1) that unfolding still_def by (metis snd_conv)
  then show "triple P m (\<lambda>_. P)" using assms(2) by (auto intro: tripleI)
qed

lemma triple_returned:
  assumes "triple P m (\<lambda>_. tree_ok sp)" and "P (sabs (w_db w))"
  shows "tree_ok sp (sabs (w_db (snd (returned m w))))"
proof (cases "m w")
  case (Pair r w')
  with assms have "tree_ok sp (sabs (w_db w'))" by (cases r) (blast dest: tripleD)+
  with Pair show ?thesis by (simp add: returned_def split: sum.split)
qed

lemma triple_case:
  "(\<And>y. z = Inl y \<Longrightarrow> triple P (f y) R) \<Longrightarrow> (\<And>y. z = Inr y \<Longrightarrow> triple P (g y) R) \<Longrightarrow> triple P (case z of Inl y \<Rightarrow> f y | Inr y \<Rightarrow> g y) R"
  "(c \<Longrightarrow> triple P m R) \<Longrightarrow> (\<not> c \<Longrightarrow> triple P m' R) \<Longrightarrow> triple P (if c then m else m') R"
  "(x = None \<Longrightarrow> triple P m R) \<Longrightarrow> (\<And>y. x = Some y \<Longrightarrow> triple P (h y) R) \<Longrightarrow> triple P (case x of None \<Rightarrow> m | Some y \<Rightarrow> h y) R"
  by (auto split: sum.split option.split)

section \<open>The storage operations\<close>

lemma triple_put_dataset:
  assumes "storage_url sp u" "\<not> suffix ''/'' (r_path u)"
  shows "triple (\<lambda>G. tree_ok sp G \<and> ready u G) (put_dataset E u sk fmt) (\<lambda>_. tree_ok sp)"
proof (rule triple_inv)
  fix w r w' assume pre: "tree_ok sp (sabs (w_db w)) \<and> ready u (sabs (w_db w))" and run: "put_dataset E u sk fmt w = (r, w')"
  then have "registry_ok (sabs (w_db w))" by (simp add: tree_ok_def)
  from tree_steps [OF space put_dataset_step [OF space assms(1) this run]] pre assms(2) show "tree_ok sp (sabs (w_db w'))" by blast
qed

lemma triple_put_blob:
  assumes "storage_url sp u" "\<not> suffix ''/'' (r_path u)"
  shows "triple (\<lambda>G. tree_ok sp G \<and> ready u G) (put_blob E u bytes mt) (\<lambda>_. tree_ok sp)"
proof (rule triple_inv)
  fix w r w' assume pre: "tree_ok sp (sabs (w_db w)) \<and> ready u (sabs (w_db w))" and run: "put_blob E u bytes mt w = (r, w')"
  then have "registry_ok (sabs (w_db w))" by (simp add: tree_ok_def)
  from tree_steps [OF space put_blob_step [OF assms(1) this run]] pre assms(2) show "tree_ok sp (sabs (w_db w'))" by blast
qed

lemma triple_aux:
  assumes "storage_url sp u"
  shows "triple (tree_ok sp) (aux_put E (url_aux u k) ts) (\<lambda>_. tree_ok sp)"
    "triple (tree_ok sp) (aux_patch E (url_aux u k) P) (\<lambda>_. tree_ok sp)"
    "triple (tree_ok sp) (delete_rdf E (a_iri (url_aux u k))) (\<lambda>_. tree_ok sp)"
  using tree_aux [OF space aux_put_step [OF space assms]] tree_aux [OF space aux_patch_step [OF space assms]]
    tree_aux [OF space delete_rdf_step [OF assms]]
  by (blast intro: triple_inv)+

text \<open>Replacing the graph of a container: the new triples must include the links of its members.\<close>

definition keeps_links :: "container_url \<Rightarrow> triple list \<Rightarrow> graphs \<Rightarrow> bool" where
  "keeps_links c ts G \<longleftrightarrow> (\<forall>v p. storage_url sp v \<longrightarrow> \<not> suffix ''/'' (r_path v) \<longrightarrow> presentG G (r_iri v) \<longrightarrow> parent v = Some p \<longrightarrow>
     as_resource p = as_resource c \<longrightarrow> contains_triple (container_iri c) (r_iri v) \<in> G (container_iri c) \<longrightarrow>
     contains_triple (container_iri c) (r_iri v) \<in> set ts)"

lemma contains_triple_skolemized:
  assumes "contains_triple a b \<in> set ts"
  shows "contains_triple a b \<in> set (serialize_for_insert (skolemize mint (as_quads ts)))"
proof -
  obtain \<sigma> where "skolemize mint (as_quads ts) = map (sub_quad \<sigma>) (as_quads ts)" by (rule skolemize_substitution)
  with assms show ?thesis
    by (force simp: serialize_for_insert_def as_quads_def sub_quad_def ground_triple_def contains_triple_def)
qed

lemma put_rdf_writes:
  assumes "put_rdf E g ts w = (res, w')"
  shows "sabs (w_db w') = sabs (w_db w) \<and> isl res \<or>
    (\<exists>mint. sabs (w_db w') = exec (put_rdf_update g (serialize_for_insert (skolemize mint (as_quads ts)))) (sabs (w_db w)))"
proof -
  obtain sk w1 where sk: "w_skolemize E (as_quads ts) w = (Inr sk, w1)"
    "skolemize (\<lambda>n. e_mint E (w_draws w + n)) (as_quads ts) = sk" "w_db w1 = w_db w"
    by (cases "skolem_quads (\<lambda>n. e_mint E (w_draws w + n)) (as_quads ts) \<lparr>sk_minted = [], sk_next = 0\<rparr>")
       (simp add: w_skolemize_def skolemize_def)
  with assms have up: "st_update E (put_rdf_update g (serialize_for_insert sk)) w1 = (res, w')"
    by (simp add: put_rdf_def op_bind_def)
  show ?thesis
  proof (cases res)
    case (Inl e)
    with st_update_err [OF up [unfolded Inl]] sk(3) show ?thesis by simp
  next
    case (Inr x)
    with st_update_ok [OF up [unfolded Inr]] sk show ?thesis by auto
  qed
qed

lemma triple_put_rdf:
  assumes "storage_url sp (as_resource c)"
  shows "triple (\<lambda>G. tree_ok sp G \<and> ready (as_resource c) G \<and> keeps_links c ts G) (put_rdf E (container_iri c) ts)
    (\<lambda>_ G. tree_ok sp G \<and> presentG G (container_iri c))"
proof -
  let ?up = "\<lambda>mint. put_rdf_update (container_iri c) (serialize_for_insert (skolemize mint (as_quads ts)))"
  have ok: "tree_ok sp (exec (?up mint) G) \<and> presentG (exec (?up mint) G) (container_iri c)"
    if pre: "tree_ok sp G \<and> ready (as_resource c) G \<and> keeps_links c ts G" for G mint
  proof
    have http: "http_iri (container_iri c)" using storage_http [OF space assms] by (simp add: container_of_resource)
    then show "presentG (exec (?up mint) G) (container_iri c)" by (simp add: presentG_put_rdf)
    have m: "marking sp (as_resource c) (?up mint)" using marking.put_rdf [OF assms] by (simp add: container_of_resource)
    have "exec (?up mint) G (container_iri c) = set (serialize_for_insert (skolemize mint (as_quads ts)))"
      using http by (simp add: put_rdf_update_def)
    then show "tree_ok sp (exec (?up mint) G)"
      using pre unfolding keeps_links_def
      by (intro tree_marking [OF space m]) (auto simp: container_of_resource intro: contains_triple_skolemized)
  qed
  show ?thesis
  proof (rule tripleI)
    fix w e w' assume "tree_ok sp (sabs (w_db w)) \<and> ready (as_resource c) (sabs (w_db w)) \<and> keeps_links c ts (sabs (w_db w))"
      and "put_rdf E (container_iri c) ts w = (Inl e, w')"
    with put_rdf_writes [OF this(2)] ok show "tree_ok sp (sabs (w_db w'))" by fastforce
  next
    fix w x w' assume "tree_ok sp (sabs (w_db w)) \<and> ready (as_resource c) (sabs (w_db w)) \<and> keeps_links c ts (sabs (w_db w))"
      and "put_rdf E (container_iri c) ts w = (Inr x, w')"
    with put_rdf_writes [OF this(2)] ok show "tree_ok sp (sabs (w_db w')) \<and> presentG (sabs (w_db w')) (container_iri c)" by fastforce
  qed
qed

lemma triple_ensure:
  assumes "storage_url sp (as_resource c)"
  shows "triple (\<lambda>G. tree_ok sp G \<and> presentG G (container_iri c)) (ensure_container E c) (\<lambda>_. tree_ok sp)"
proof (rule triple_inv)
  fix w r w' assume pre: "tree_ok sp (sabs (w_db w)) \<and> presentG (sabs (w_db w)) (container_iri c)"
    and run: "ensure_container E c w = (r, w')"
  have http: "http_iri (container_iri c)" using storage_http [OF space assms] by (simp add: container_of_resource)
  have m: "marking sp (as_resource c) (insert_marked_update (container_iri c) body)" for body
    using marking.insert_marked [OF assms] by (simp add: container_of_resource)
  show "tree_ok sp (sabs (w_db w'))"
    using ensure_container_cases [OF run] pre http
    by (auto simp: insert_marked_exec container_of_resource intro!: tree_marking [OF space m [unfolded container_of_resource]])
qed

text \<open>A patch whose deletions name no containment predicate keeps the links of a container; that of a
  resource touches no container.\<close>

lemma substitute_predicates:
  "substitute ps b = Inr ds \<Longrightarrow> (s, pr, x) \<in> set ds \<Longrightarrow> \<exists>p \<in> set ps. ground_pterm (p_predicate p) b = Inr pr"
  by (induction ps arbitrary: ds) (auto simp: res_bind_Inr)

lemma written_triples_predicates:
  "written_triples i ps = Some ts \<Longrightarrow> p \<in> set ps \<Longrightarrow> \<exists>n. p_predicate p = PNamed n \<and> mk_triple (NamedNode i) n (TermNamed i) \<in> set ts"
  by (induction ps arbitrary: ts) (auto split: pattern_term.splits)

lemma patch_keeps_containment:
  assumes "patch_sets_containment P c = None" and "substitute (deletions P) b = Inr ds"
  shows "raw_of (contains_triple i j) \<notin> set ds"
proof
  assume "raw_of (contains_triple i j) \<in> set ds"
  then obtain p where p: "p \<in> set (deletions P)" "ground_pterm (p_predicate p) b = Inr (TermNamed LDP_CONTAINS)"
    using substitute_predicates [OF assms(2), of "TermNamed i" "TermNamed LDP_CONTAINS" "TermNamed j"]
    by (auto simp: raw_of_def contains_triple_def)
  from assms(1) obtain ts where ts: "written_triples (container_iri c) (insertions P @ deletions P) = Some ts"
    "\<not> body_sets_containment ts" by (auto simp: patch_sets_containment_def split: option.splits if_splits)
  with written_triples_predicates [OF ts(1), of p] p show False
    by (auto simp: body_sets_containment_def list_ex_iff)
qed

lemma triple_patch:
  assumes "storage_url sp u" and "suffix ''/'' (r_path u) \<Longrightarrow> \<exists>c. patch_sets_containment P c = None"
  shows "triple (tree_ok sp) (patch_dataset E (r_iri u) P) (\<lambda>_. tree_ok sp)"
proof (rule triple_inv)
  fix w r w' assume pre: "tree_ok sp (sabs (w_db w))" and run: "patch_dataset E (r_iri u) P w = (r, w')"
  have step: "tree_ok sp (exec us G)" if ok: "tree_ok sp G" and us: "patching (r_iri u) P None us" for us G
  proof (rule tree_marking [OF space patching_marking [OF assms(1) us] ok])
    from us obtain ds ins b where "us = [ModifyGround (r_iri u) ds ins None]" and ds: "substitute (deletions P) b = Inr ds"
      by (auto simp: patching_def)
    then have us: "us = [ModifyGround (r_iri u) ds ins None]" by simp
    show "presentG G (r_iri u) \<or> \<not> presentG (exec us G) (r_iri u) \<or> ready u G"
      unfolding us presentG_patch [OF storage_http [OF space assms(1)]] by blast
    fix v p assume "parent v = Some p" "as_resource p = u" and t: "contains_triple (r_iri u) (r_iri v) \<in> G (r_iri u)"
    then obtain c where "patch_sets_containment P c = None" using assms(2) parent_slash by blast
    from patch_keeps_containment [OF this ds] t show "contains_triple (r_iri u) (r_iri v) \<in> exec us G (r_iri u)"
      by (simp add: us)
  qed
  from patch_guarded_step [OF run [unfolded patch_dataset_def]] pre step show "tree_ok sp (sabs (w_db w'))"
    by (auto simp: steps_to_def)
qed

lemma triple_delete_subject:
  assumes "storage_url sp u" and "parent u \<noteq> None"
  shows "triple (\<lambda>G. tree_ok sp G \<and> childless sp u G) (delete_subject E u) (\<lambda>_. tree_ok sp)"
proof (rule triple_inv)
  fix w r w' assume pre: "tree_ok sp (sabs (w_db w)) \<and> childless sp u (sabs (w_db w))" and run: "delete_subject E u w = (r, w')"
  obtain q where q: "parent u = Some q" using assms(2) by blast
  have "registry_ok (sabs (w_db w))" using pre by (simp add: tree_ok_def)
  from delete_subject_outcome [OF this run] pre q show "tree_ok sp (sabs (w_db w'))"
    using tree_delete [OF space assms(1) q] by auto
qed

section \<open>Probing and materializing\<close>

definition proper :: "target \<Rightarrow> bool" where
  "proper t \<longleftrightarrow> storage_url sp (target_subject t) \<and> is_normalization_stable (r_path (target_subject t)) \<and>
     (case t of Resource r \<Rightarrow> \<not> suffix ''/'' (r_path r)
      | Container c \<Rightarrow> suffix ''/'' (container_path c)
      | Aux a \<Rightarrow> \<exists>k. a = url_aux (target_subject t) k)"

lemma proper_classify:
  assumes "classify S path = Inr t" and "sv_space S = sp"
  shows "proper t"
proof -
  have "resolve (e_valid_iri (sv_env S)) sp path = Inr t" using assms by (simp add: classify_def)
  then show ?thesis
    by (cases rule: resolve_Inr_cases) (auto simp: proper_def storage_url_def in_space_def url_aux_def container_path_def)
qed

definition seen :: "target \<Rightarrow> guard_rec \<Rightarrow> graphs \<Rightarrow> bool" where
  "seen t g G \<longleftrightarrow> tree_ok sp G \<and> snapshot G g \<and> gu_target g = t"

lemma seen_tree: "seen t g G \<Longrightarrow> tree_ok sp G"
  by (simp add: seen_def)

lemma triple_probe:
  assumes "storage_url sp (target_subject t)"
  shows "triple (tree_ok sp) (probe E ag t) (seen t)"
proof (rule tripleI)
  fix w e w' assume "tree_ok sp (sabs (w_db w))" "probe E ag t w = (Inl e, w')"
  then show "tree_ok sp (sabs (w_db w'))" using readsD [OF reads_probe] by metis
next
  fix w g w' assume "tree_ok sp (sabs (w_db w))" "probe E ag t w = (Inr g, w')"
  with probe_ok [OF space assms this(2)] show "seen t g (sabs (w_db w'))" by (simp add: seen_def)
qed

text \<open>What every update of a container keeps, a plan keeps.\<close>

lemma run_plan_keeps:
  assumes "\<And>u us G. marking sp u us \<Longrightarrow> I G \<Longrightarrow> I (exec us G)"
    and "\<forall>c \<in> fst ` set ps. storage_url sp (as_resource c)" and "I (sabs (w_db w))" and "run_plan E ps w = (res, w')"
  shows "I (sabs (w_db w'))"
  using assms(2-)
proof (induction ps arbitrary: w res)
  case (Cons p ps)
  obtain c ch where p: "p = (c, ch)" by (cases p)
  have st: "storage_url sp (as_resource c)" using Cons.prems(1) p by simp
  have step: "I G \<Longrightarrow> steps_to (marking sp (as_resource c)) G G' \<Longrightarrow> I G'" for G G'
    using assms(1) by (auto simp: steps_to_def)
  have ens: "I (sabs (w_db w2))" if "op_map_err f (ensure_container E c) w1 = (r, w2)" "I (sabs (w_db w1))" for f w1 r w2
    using that step [OF _ ensure_container_step [OF st]] by (auto simp: op_map_err_def split: prod.splits)
  have add: "I (sabs (w_db w2))" if "op_map_err f (add_containment E c i) w1 = (r, w2)" "I (sabs (w_db w1))" for f w1 r w2 i
    using that step [OF _ add_containment_step [OF st]] by (auto simp: op_map_err_def split: prod.splits)
  have IH: "I (sabs (w_db w'))" if "run_plan E ps w1 = (r, w')" "I (sabs (w_db w1))" for w1 r
    using Cons.IH [of w1 r] Cons.prems(1) that by simp
  show ?case
    using Cons.prems(2,3) unfolding p run_plan.simps
    by (auto elim!: op_bind_cases split: option.splits) (meson IH ens add)+
qed simp

lemma materialize_tree:
  assumes t: "storage_url sp (target_subject t)" and pre: "seen t g (sabs (w_db w))" and run: "materialize E g w = (res, w')"
  shows "tree_ok sp (sabs (w_db w'))"
proof -
  let ?G = "sabs (w_db w)" and ?G' = "sabs (w_db w')"
  have ok: "tree_ok sp ?G" and snap: "snapshot ?G g" "gu_target g = t" using pre by (simp_all add: seen_def)
  show ?thesis
  proof (rule materialize_ran [OF space t snap run])
    fix plan above r
    assume plan: "plan_ancestors g 0 (ancestors (target_subject t)) (target_iri t) (\<not> is_aux t \<and> \<not> target_exists g) = Inr (plan, above)"
      and rp: "run_plan E plan w = (r, w')" and http: "\<forall>c \<in> fst ` set plan. http_iri (container_iri c)"
      and anc: "\<And>c ch. (c, ch) \<in> set plan \<Longrightarrow> c \<in> set (ancestors (target_subject t))"
    have st: "\<forall>c \<in> fst ` set plan. storage_url sp (as_resource c)" using anc ancestors_storage [OF space t] by force
    have grow: "x \<in> ?G' h" if "x \<in> ?G h" for x h
      using run_plan_grows [OF http rp] that unfolding grows_at_def by blast
    then have pres: "presentG ?G' h" if "presentG ?G h" for h using that by (simp add: presentG_def)
    have "no_orphan sp ?G'" by (rule run_plan_keeps [where I = "no_orphan sp", OF no_orphan_marking [OF space] st _ rp]) (use ok in \<open>simp_all add: tree_ok_def\<close>)
    moreover have "registry_ok ?G'" by (rule run_plan_keeps [where I = registry_ok, OF registry_ok_marking [OF space] st _ rp]) (use ok in \<open>simp_all add: tree_ok_def\<close>)
    moreover have "slash_free sp ?G'"
      by (rule materialize_slash_free [OF space t snap run]) (use ok in \<open>simp add: tree_ok_def\<close>)
    moreover have "all_listed sp ?G'" unfolding all_listed_def
    proof (intro allI impI)
      fix v p assume v: "storage_url sp v" "\<not> suffix ''/'' (r_path v)" "presentG ?G' (r_iri v)" "parent v = Some p"
      then have "presentG ?G (r_iri v)"
        using materialize_new [OF space t snap plan http rp, of v] by (auto simp: storage_url_def)
      then have "listed ?G p v" using ok v by (auto simp: tree_ok_def dest: all_listedD)
      then show "listed ?G' p v" using grow pres by (auto simp: listed_def)
    qed
    ultimately show ?thesis using ok pres by (simp add: tree_ok_def)
  qed (use ok in simp)
qed

lemma materialize_ready:
  assumes t: "proper t" "\<not> is_aux t" and pre: "seen t g (sabs (w_db w))" and run: "materialize E g w = (Inr m, w')"
  shows "ready (target_subject t) (sabs (w_db w'))"
proof (cases "presentG (sabs (w_db w)) (target_iri t)")
  case True
  have st: "storage_url sp (target_subject t)" using t(1) by (simp add: proper_def)
  have "presentG (sabs (w_db w')) (r_iri (target_subject t))"
  proof (rule materialize_ran [OF space st _ _ run])
    show "snapshot (sabs (w_db w)) g" "gu_target g = t" using pre by (simp_all add: seen_def)
    fix plan above r assume rp: "run_plan E plan w = (r, w')" and http: "\<forall>c \<in> fst ` set plan. http_iri (container_iri c)"
    from run_plan_grows [OF http rp] True target_iri_subject [OF t(2)] show ?thesis
      unfolding grows_at_def presentG_def by (metis subsetD)
  qed (use True target_iri_subject [OF t(2)] in simp)
  then show ?thesis
    using ready_present [OF materialize_tree [OF st pre run] st] t(1) by (simp add: proper_def)
next
  case False
  have st: "storage_url sp (target_subject t)" "is_normalization_stable (r_path (target_subject t))"
    using t(1) by (simp_all add: proper_def)
  have snap: "snapshot (sabs (w_db w)) g" "gu_target g = t" using pre by (simp_all add: seen_def)
  show ?thesis unfolding ready_def
  proof (intro conjI allI impI)
    fix p assume p: "parent (target_subject t) = Some p"
    then have anc: "ancestors (target_subject t) = p # ancestors (as_resource p)" by (simp add: ancestors.simps [of "target_subject t"])
    from materialize_links [OF space st(1) snap run t(2) False, of 0] show "listed (sabs (w_db w')) p (target_subject t)"
      by (simp add: anc listed_def)
  next
    fix c assume "slash_counterpart (target_subject t) = Some c"
    then show "\<not> presentG (sabs (w_db w')) (r_iri c)" by (rule materialize_untaken [OF space st snap run t(2) False])
  qed
qed

lemma triple_materialize:
  assumes "proper t"
  shows "triple (seen t g) (materialize E g) (\<lambda>_ G. tree_ok sp G \<and> (\<not> is_aux t \<longrightarrow> ready (target_subject t) G))"
proof (rule tripleI)
  have st: "storage_url sp (target_subject t)" using assms by (simp add: proper_def)
  fix w w' :: "('db, 'bl) world" and e assume pre: "seen t g (sabs (w_db w))"
  show "materialize E g w = (Inl e, w') \<Longrightarrow> tree_ok sp (sabs (w_db w'))" by (rule materialize_tree [OF st pre])
  show "materialize E g w = (Inr x, w') \<Longrightarrow> tree_ok sp (sabs (w_db w')) \<and> (\<not> is_aux t \<longrightarrow> ready (target_subject t) (sabs (w_db w')))" for x
    using materialize_tree [OF st pre] materialize_ready [OF assms _ pre] by blast
qed

section \<open>The handlers\<close>

abbreviation prepared :: "target \<Rightarrow> graphs \<Rightarrow> bool" where
  "prepared t G \<equiv> tree_ok sp G \<and> (\<not> is_aux t \<longrightarrow> ready (target_subject t) G)"

lemma then_still:
  "still m \<Longrightarrow> (\<And>x. triple (seen t g) (f x) R) \<Longrightarrow> triple (seen t g) (op_bind m f) R"
  "still m \<Longrightarrow> (\<And>x. triple (tree_ok sp) (f x) R) \<Longrightarrow> triple (tree_ok sp) (op_bind m f) R"
  by (auto intro: triple_still seen_tree)

lemma then_probe:
  "storage_url sp (target_subject t) \<Longrightarrow> (\<And>g. triple (seen t g) (f g) R) \<Longrightarrow> triple (tree_ok sp) (op_bind (op_map_err h (probe E ag t)) f) R"
  by (rule triple_bind [OF triple_map_err [OF triple_probe]])

lemma then_materialize:
  "proper t \<Longrightarrow> (\<And>m. triple (prepared t) (f m) R) \<Longrightarrow> triple (seen t g) (op_bind (op_map_err h (materialize E g)) f) R"
  by (rule triple_bind [OF triple_map_err [OF triple_materialize]])

lemma still_prepared: "still m \<Longrightarrow> (\<And>x. triple (prepared t) (f x) R) \<Longrightarrow> triple (prepared t) (op_bind m f) R"
  by (rule triple_still) simp_all

lemma proper_resource: "proper (Resource r) \<Longrightarrow> storage_url sp r \<and> \<not> suffix ''/'' (r_path r)"
  and proper_container: "proper (Container c) \<Longrightarrow> storage_url sp (as_resource c) \<and> is_normalization_stable (r_path (as_resource c))"
  and proper_aux: "proper (Aux a) \<Longrightarrow> \<exists>u k. a = url_aux u k \<and> storage_url sp u"
  and proper_subject: "proper t \<Longrightarrow> storage_url sp (target_subject t)"
  by (auto simp: proper_def)

lemma prepared_put:
  assumes "proper (Resource r)"
  shows "triple (prepared (Resource r)) (put_blob E r bytes mt) (\<lambda>_. tree_ok sp)"
    "triple (prepared (Resource r)) (put_dataset E r sk fmt) (\<lambda>_. tree_ok sp)"
  using triple_put_blob [of r] triple_put_dataset [of r] proper_resource [OF assms]
  by (auto elim!: triple_weaken simp: is_aux_def)

lemma triple_put_blob_arm:
  assumes "proper t" and "sv_env S = E"
  shows "triple (seen t g) (put_blob_arm S t hs g bytes mt) (\<lambda>_. tree_ok sp)"
proof (cases t)
  case (Resource r)
  note r = assms(1) [unfolded Resource]
  show ?thesis unfolding put_blob_arm_def Let_def Resource target.case assms(2)
    by (intro triple_case triple_err then_materialize [OF r] then_still still_map_err still_reads reads_intros
        triple_attempt prepared_put [OF r]) (erule seen_tree)
qed (simp_all add: put_blob_arm_def seen_tree triple_err)

text \<open>Replacing a container by a document keeps what it lists.\<close>

lemma get_rdf_keeps_links:
  assumes "get_rdf E (container_iri c) w = (Inr existing, w')" and "all_listed sp (sabs (w_db w))"
  shows "w' = w \<and> keeps_links c (ts @ filter (\<lambda>t. t_predicate t = LDP_CONTAINS) (case existing of Some ts \<Rightarrow> ts | None \<Rightarrow> [])) (sabs (w_db w))"
proof -
  note r = get_rdf_ok [OF assms(1)]
  have "contains_triple (container_iri c) i \<in> set ts'" if "existing = Some ts'" "contains_triple (container_iri c) i \<in> sabs (w_db w) (container_iri c)" for ts' i
    using r that by simp
  moreover have "existing \<noteq> None" if v: "storage_url sp v" "\<not> suffix ''/'' (r_path v)" "presentG (sabs (w_db w)) (r_iri v)" "parent v = Some p"
      "as_resource p = as_resource c" for v p
    using all_listedD [OF assms(2) v(1-4)] v(5) r by (simp add: listed_def presentG_def present_def container_of_resource)
  ultimately show ?thesis using r
    by (fastforce simp: keeps_links_def contains_triple_def)
qed

lemma triple_replace_container:
  assumes "proper (Container c)"
  shows "triple (prepared (Container c)) (op_bind (op_map_err h1 (get_rdf E (container_iri c))) (\<lambda>existing.
      let merged = ts @ filter (\<lambda>t. t_predicate t = LDP_CONTAINS) (case existing of Some ts \<Rightarrow> ts | None \<Rightarrow> []) in
      op_bind (op_map_err h2 (put_rdf E (container_iri c) merged)) (\<lambda>_.
      op_bind (op_map_err h3 (ensure_container E c)) (\<lambda>_. op_ok x)))) (\<lambda>_. tree_ok sp)"
proof -
  note c = proper_container [OF assms]
  have still: "w' = w" if "get_rdf E i w = (r, w')" for i w r w' using reads_storage that by (metis readsD)
  show ?thesis unfolding Let_def
  proof (rule triple_bind)
    show "triple (prepared (Container c)) (op_map_err h1 (get_rdf E (container_iri c)))
        (\<lambda>existing G. tree_ok sp G \<and> ready (as_resource c) G \<and>
          keeps_links c (ts @ filter (\<lambda>t. t_predicate t = LDP_CONTAINS) (case existing of Some ts \<Rightarrow> ts | None \<Rightarrow> [])) G)"
      by (rule triple_map_err, rule tripleI)
         (auto dest: still simp: is_aux_def tree_ok_def, metis get_rdf_keeps_links)
    fix existing
    show "triple (\<lambda>G. tree_ok sp G \<and> ready (as_resource c) G \<and>
          keeps_links c (ts @ filter (\<lambda>t. t_predicate t = LDP_CONTAINS) (case existing of Some ts \<Rightarrow> ts | None \<Rightarrow> [])) G)
        (op_bind (op_map_err h2 (put_rdf E (container_iri c) (ts @ filter (\<lambda>t. t_predicate t = LDP_CONTAINS) (case existing of Some ts \<Rightarrow> ts | None \<Rightarrow> [])))) (\<lambda>_.
         op_bind (op_map_err h3 (ensure_container E c)) (\<lambda>_. op_ok x))) (\<lambda>_. tree_ok sp)"
      using c by (intro triple_bind [OF triple_map_err [OF triple_put_rdf]] triple_bind [OF triple_map_err [OF triple_ensure]] triple_ok) simp_all
  qed
qed

lemma triple_store_representation:
  assumes "proper t" and "sv_env S = E"
  shows "triple (prepared t) (store_representation S t d sk fmt ex m) (\<lambda>_. tree_ok sp)"
proof (cases t)
  case (Resource r)
  show ?thesis unfolding store_representation_def Let_def Resource target.case assms(2)
    by (intro triple_attempt prepared_put assms(1) [unfolded Resource])
next
  case (Container c)
  show ?thesis unfolding store_representation_def Let_def [of E] Container target.case assms(2)
    by (rule triple_replace_container [OF assms(1) [unfolded Container]])
next
  case (Aux a)
  obtain u k where "a = url_aux u k" "storage_url sp u" using proper_aux assms(1) Aux by blast
  then show ?thesis unfolding store_representation_def Let_def Aux target.case assms(2)
    by (intro triple_attempt) (auto intro: triple_weaken [OF triple_aux(1)])
qed

lemma triple_put_rdf_arm:
  assumes "proper t" and "sv_env S = E"
  shows "triple (seen t g) (put_rdf_arm S t hs g d fmt declared) (\<lambda>_. tree_ok sp)"
  unfolding put_rdf_arm_def Let_def assms(2)
  by (intro then_materialize [OF assms(1)] triple_bind [OF triple_store_representation [OF assms]] then_still
      still_map_err still_draws still_reads reads_intros triple_ok)

lemma triple_put_write:
  assumes "proper t" and "sv_env S = E"
  shows "triple (tree_ok sp) (put_write S ag t hs bytes) (\<lambda>_. tree_ok sp)"
  unfolding put_write_def assms(2)
  by (intro then_probe [OF proper_subject [OF assms(1)]] then_still still_reads reads_basic)
     (auto split: repr.split intro: triple_put_blob_arm triple_put_rdf_arm assms)

text \<open>Creating a container from a document: it has no members yet, for none is present without it.\<close>

lemma absent_keeps_links: "all_listed sp G \<Longrightarrow> \<not> presentG G (container_iri c) \<Longrightarrow> keeps_links c ts G"
  by (auto simp: keeps_links_def listed_def container_of_resource dest: all_listedD)

abbreviation vacant :: "target \<Rightarrow> graphs \<Rightarrow> bool" where
  "vacant t G \<equiv> \<not> is_aux t \<longrightarrow> \<not> presentG G (target_iri t)"

lemma triple_create_container:
  assumes "proper (Container c)"
  shows "triple (\<lambda>G. prepared (Container c) G \<and> vacant (Container c) G)
    (op_bind (put_rdf E (container_iri c) ts) (\<lambda>_. ensure_container E c)) (\<lambda>_. tree_ok sp)"
proof (rule triple_bind)
  show "triple (\<lambda>G. prepared (Container c) G \<and> vacant (Container c) G) (put_rdf E (container_iri c) ts)
      (\<lambda>_ G. tree_ok sp G \<and> presentG G (container_iri c))"
    using proper_container [OF assms]
    by (intro triple_weaken [OF triple_put_rdf [of c ts]]) (auto simp: is_aux_def tree_ok_def absent_keeps_links)
qed (use triple_ensure proper_container [OF assms] in blast)

text \<open>Materializing the way to a target does not make the target.\<close>

lemma triple_materialize_vacant:
  assumes "proper t"
  shows "triple (\<lambda>G. seen t g G \<and> vacant t G) (materialize E g) (\<lambda>_ G. prepared t G \<and> vacant t G)"
proof (rule tripleI)
  have st: "storage_url sp (target_subject t)" using assms by (simp add: proper_def)
  fix w w' :: "('db, 'bl) world" and e x assume pre: "seen t g (sabs (w_db w)) \<and> vacant t (sabs (w_db w))"
  then have snap: "snapshot (sabs (w_db w)) g" "gu_target g = t" by (simp_all add: seen_def)
  show "materialize E g w = (Inl e, w') \<Longrightarrow> tree_ok sp (sabs (w_db w'))" using materialize_tree [OF st] pre by blast
  assume run: "materialize E g w = (Inr x, w')"
  have "vacant t (sabs (w_db w'))"
  proof (rule materialize_ran [OF space st snap run], use pre in simp, intro impI notI)
    fix plan above r
    assume plan: "plan_ancestors g 0 (ancestors (target_subject t)) (target_iri t) (\<not> is_aux t \<and> \<not> target_exists g) = Inr (plan, above)"
      and rp: "run_plan E plan w = (r, w')" and http: "\<forall>c \<in> fst ` set plan. http_iri (container_iri c)"
      and t: "\<not> is_aux t" and p: "presentG (sabs (w_db w')) (target_iri t)"
    obtain c where "c \<in> set (ancestors (target_subject t))" "target_subject t = as_resource c"
      using materialize_new [OF space st snap plan http rp, of "target_subject t"] pre t p st target_iri_subject [OF t]
      by (auto simp: storage_url_def)
    then show False using ancestors_shorter by fastforce
  qed
  then show "prepared t (sabs (w_db w')) \<and> vacant t (sabs (w_db w'))"
    using tripleD(2) [OF triple_materialize [OF assms] _ run] pre by blast
qed

lemma seen_vacant:
  assumes "seen t g G" and "\<not> target_exists g"
  shows "vacant t G"
proof
  assume t: "\<not> is_aux t"
  have g: "snapshot G g" "gu_target g = t" using assms(1) by (simp_all add: seen_def)
  then have "target_subject t \<in> set (gu_chain g)" by (simp add: snapshot_def request_chain_def)
  from snapshot_present(1) [OF g(1) this] assms(2) show "\<not> presentG G (target_iri t)"
    by (simp add: target_exists_def g(2) target_iri_subject [OF t])
qed

section \<open>\<open>POST\<close>\<close>

lemma child_name_draws: "child_name E slug w = (r, w') \<Longrightarrow> w_db w' = w_db w \<and> w_draws w \<le> w_draws w'"
  by (auto simp: child_name_def Let_def split: if_splits)

lemma post_child_name:
  assumes "post_child S ag p hs w = (Inr (child, g), w')" and "sv_env S = E"
  obtains w1 path where "classify S path = Inr child" "probe E ag child w1 = (Inr g, w')" "w_db w1 = w_db w"
    "\<not> is_taken g \<or> (\<exists>m a b. w_draws w \<le> m \<and> path = a @ ''-'' @ e_mint E m @ b)"
proof -
  let ?suf = "if type_link_requests_container (header_str hs ''link'') then ''/'' else []"
  from assms obtain name w0 c1 g1 w1 where name: "child_name E (header_get hs ''slug'') w = (Inr name, w0)"
    and c1: "classify S (container_path p @ name @ ?suf) = Inr c1" "probe E ag c1 w0 = (Inr g1, w1)"
    and rest: "(if \<not> is_taken g1 then op_ok (c1, g1) else op_bind (draw_uuid E) (\<lambda>uuid.
        op_bind (op_res (map_err status_reply (classify S (container_path p @ name @ ''-'' @ uuid @ ?suf)))) (\<lambda>child.
        op_bind (op_map_err (refused child) (probe E ag child)) (\<lambda>g. op_ok (child, g))))) w1 = (Inr (child, g), w')"
    by (auto simp: post_child_def Let_def op_map_err_conv elim!: op_bind_InrE)
  note w0 = child_name_draws [OF name]
  have w1: "w1 = w0" using c1(2) readsD [OF reads_probe] by metis
  show thesis
  proof (cases "is_taken g1")
    case False
    with rest c1 w0 w1 that [of "container_path p @ name @ ?suf" w0] show thesis by auto
  next
    case True
    with rest w1 have "classify S (container_path p @ name @ ''-'' @ e_mint E (w_draws w0) @ ?suf) = Inr child"
      "probe E ag child (w0\<lparr>w_draws := Suc (w_draws w0)\<rparr>) = (Inr g, w')"
      by (auto simp: draw_uuid_def op_map_err_conv elim!: op_bind_InrE)
    moreover have "\<exists>m a b. w_draws w \<le> m \<and> container_path p @ name @ ''-'' @ e_mint E (w_draws w0) @ ?suf = a @ ''-'' @ e_mint E m @ b"
      using w0 by (intro exI [of _ "w_draws w0"] exI [of _ "container_path p @ name"] exI [of _ ?suf]) simp
    ultimately show thesis using w0 that by (metis world.select_convs(1) world.surjective world.update_convs(3))
  qed
qed

lemma post_child_ok:
  assumes "post_child S ag p hs w = (Inr (child, g), w')" and S: "sv_env S = E" "sv_space S = sp"
    and ok: "tree_ok sp (sabs (w_db w))" and un: "unguessed sp E (w_draws w) (sabs (w_db w))"
  shows "proper child \<and> seen child g (sabs (w_db w')) \<and> vacant child (sabs (w_db w'))"
proof -
  obtain w1 path where cl: "classify S path = Inr child" and pr: "probe E ag child w1 = (Inr g, w')" and db: "w_db w1 = w_db w"
    and new: "\<not> is_taken g \<or> (\<exists>m a b. w_draws w \<le> m \<and> path = a @ ''-'' @ e_mint E m @ b)"
    by (rule post_child_name [OF assms(1) S(1)])
  have proper: "proper child" by (rule proper_classify [OF cl S(2)])
  note pk = probe_ok [OF space proper_subject [OF proper] pr]
  then have seen: "seen child g (sabs (w_db w'))" using ok db by (simp add: seen_def)
  moreover have "vacant child (sabs (w_db w'))"
    using new
  proof
    assume "\<not> is_taken g"
    then show ?thesis using seen_vacant [OF seen] by (simp add: is_taken_def target_exists_def split: if_splits)
  next
    assume "\<exists>m a b. w_draws w \<le> m \<and> path = a @ ''-'' @ e_mint E m @ b"
    moreover have "target_path child = path" using cl by (auto simp: classify_def dest: resolve_target_path)
    moreover have "target_path child = r_path (target_subject child)" if "\<not> is_aux child"
      using that by (cases child) (simp_all add: is_aux_def container_path_def)
    ultimately show ?thesis
      using un pk db proper_subject [OF proper] target_iri_subject [of child] unfolding unguessed_def by metis
  qed
  ultimately show ?thesis using proper by blast
qed

lemma still_post_checks: "still (post_checks S child body)"
proof (cases body)
  case (ReprRdf d fmt v)
  show ?thesis unfolding post_checks_def Let_def ReprRdf repr.case
    by (intro still_bind still_map_err still_draws still_reads reads_intros)
next
  case (ReprBlob bytes mt)
  show ?thesis unfolding post_checks_def Let_def ReprBlob repr.case by (intro still_reads reads_intros)
qed

lemma still_post_child: "still (post_child S ag p hs)"
  unfolding post_child_def Let_def by (intro still_if still_bind still_map_err still_draws still_reads reads_intros)

lemma triple_post_store:
  assumes "proper child" and "sv_env S = E"
  shows "triple (\<lambda>G. prepared child G \<and> vacant child G) (post_store S child body sk) (\<lambda>_. tree_ok sp)"
proof (cases child)
  case (Resource r)
  note put = prepared_put [OF assms(1) [unfolded Resource]]
  show ?thesis unfolding post_store_def Let_def Resource target.case assms(2)
    by (cases body; cases sk) (auto intro!: triple_attempt triple_err triple_weaken [OF put(1)] triple_weaken [OF put(2)])
next
  case (Container c)
  show ?thesis unfolding post_store_def Let_def Container target.case assms(2)
    by (cases body) (auto intro!: triple_attempt triple_err
        triple_weaken [OF triple_create_container [OF assms(1) [unfolded Container]]])
qed (auto simp: post_store_def intro!: triple_ok)

lemma triple_post_rest:
  assumes "proper child" and "sv_env S = E"
  shows "triple (\<lambda>G. seen child g G \<and> vacant child G)
    (op_bind (op_res (classify_body S hs bytes child)) (\<lambda>body. op_bind (post_checks S child body) (\<lambda>(findings, sk).
      op_bind (op_map_err (refused child) (materialize E g)) (\<lambda>m. op_bind (post_store S child body sk) (\<lambda>res.
        op_ok (if findings \<noteq> None \<and> is_success (re_status res) then report_link S child res else res, child, m))))))
    (\<lambda>_. tree_ok sp)"
  unfolding split_beta
  by (intro triple_still [OF still_reads [OF reads_basic(3)]] triple_still [OF still_post_checks]
      triple_bind [OF triple_map_err [OF triple_materialize_vacant [OF assms(1)]]]
      triple_bind [OF triple_post_store [OF assms]] triple_ok)
     (auto dest: seen_tree)

lemma post_write_tree:
  assumes "proper t" and S: "sv_env S = E" "sv_space S = sp"
    and ok: "tree_ok sp (sabs (w_db w))" and un: "unguessed sp E (w_draws w) (sabs (w_db w))"
    and run: "post_write S ag t hs bytes w = (r, w')"
  shows "tree_ok sp (sabs (w_db w'))"
  using run unfolding post_write_def S(1)
proof (cases rule: op_bind_cases)
  case (err e)
  then have "w' = w" using readsD [OF reads_map_err [OF reads_probe]] by metis
  with ok show ?thesis by simp
next
  case pr: (ok pg w1)
  then have w1: "w1 = w" using readsD [OF reads_map_err [OF reads_probe]] by metis
  from pr(2) show ?thesis
  proof (cases rule: op_bind_cases)
    case (err e)
    with ok w1 show ?thesis by simp
  next
    case au: (ok d w2)
    show ?thesis
    proof (cases t)
      case (Container p)
      from au(2) [unfolded Container target.case] show ?thesis
      proof (cases rule: op_bind_cases)
        case (err e)
        then have "w_db w' = w_db w2" using still_post_child unfolding still_def by (metis snd_conv)
        with ok au(1) w1 show ?thesis by simp
      next
        case ch: (ok cg w3)
        obtain child g where cg: "cg = (child, g)" by (cases cg)
        have "post_child S ag p hs w = (Inr (child, g), w3)" using ch(1) au(1) w1 cg by simp
        note c = post_child_ok [OF this S ok un]
        from ch(2) [unfolded cg prod.case S(1)] triple_post_rest [OF _ S(1)] c show ?thesis
          by (cases r) (blast dest: tripleD)+
      qed
    qed (use au ok w1 in auto)
  qed
qed

section \<open>\<open>PATCH\<close>\<close>

lemma triple_pure: "(C \<Longrightarrow> triple P m Q) \<Longrightarrow> triple (\<lambda>G. P G \<and> C) m Q"
  unfolding triple_def by blast

lemma triple_returning:
  assumes "triple P m (\<lambda>_. tree_ok sp)" and "\<And>w. snd (n w) = snd (returned m w)"
  shows "triple P n (\<lambda>_. tree_ok sp)"
proof (rule triple_inv)
  fix w r w' assume "P (sabs (w_db w))" "n w = (r, w')"
  with triple_returned [OF assms(1)] assms(2) [of w] show "tree_ok sp (sabs (w_db w'))" by simp
qed

lemma triple_create_by_patch:
  assumes "proper t" and "sv_env S = E"
  shows "triple (\<lambda>G. seen t g G \<and> vacant t G) (create_by_patch S g t p) (\<lambda>_. tree_ok sp)"
proof -
  have mat: "triple (\<lambda>G. seen t g G \<and> vacant t G) (op_bind (op_map_err h (materialize E g)) f) (\<lambda>_. tree_ok sp)"
    if "\<And>m. triple (\<lambda>G. prepared t G \<and> vacant t G) (f m) (\<lambda>_. tree_ok sp)" for h f
    by (rule triple_bind [OF triple_map_err [OF triple_materialize_vacant [OF assms(1)]] that])
  have body: "triple (\<lambda>G. prepared t G \<and> vacant t G) (case t of
        Resource r \<Rightarrow> (case ground_dataset ts of None \<Rightarrow> op_err e | Some sk \<Rightarrow> attempt (put_dataset E r sk Turtle) f)
      | Container c \<Rightarrow> attempt (op_bind (put_rdf E (container_iri c) ts) (\<lambda>_. ensure_container E c)) f
      | Aux _ \<Rightarrow> op_err e) (\<lambda>_. tree_ok sp)" for ts e and f :: "_ \<Rightarrow> reply \<times> materialized"
  proof (cases t)
    case (Resource r)
    note put = prepared_put(2) [OF assms(1) [unfolded Resource]]
    show ?thesis unfolding Resource target.case
      by (intro triple_case triple_err triple_attempt triple_weaken [OF put]) auto
  next
    case (Container c)
    show ?thesis unfolding Container target.case
      by (intro triple_attempt triple_create_container assms(1) [unfolded Container])
  qed (auto intro: triple_err)
  show ?thesis
    unfolding create_by_patch_def Let_def assms(2)
    by (intro triple_case triple_err mat body) (auto dest: seen_tree)
qed

lemma triple_patch_existing:
  assumes "proper t" and "sv_env S = E" and "\<not> is_aux t" and "\<And>c. t = Container c \<Longrightarrow> patch_sets_containment p c = None"
  shows "triple (\<lambda>G. tree_ok sp G \<and> presentG G (target_iri t)) (patch_existing S t p) (\<lambda>_. tree_ok sp)"
proof -
  let ?u = "target_subject t"
  have u: "storage_url sp ?u" by (rule proper_subject [OF assms(1)])
  have "\<exists>c. patch_sets_containment p c = None" if "suffix ''/'' (r_path ?u)"
    using that assms(1,3,4) by (cases t) (auto simp: proper_def is_aux_def)
  then have tr: "triple (tree_ok sp) (patch_dataset E (r_iri ?u) p) (\<lambda>_. tree_ok sp)" by (rule triple_patch [OF u])
  have "triple (\<lambda>G. tree_ok sp G \<and> presentG G (target_iri t)) (patch_dataset E (r_iri ?u) p) (\<lambda>_ G. tree_ok sp G \<and> presentG G (target_iri t))"
  proof (rule tripleI)
    fix w w' :: "('db, 'bl) world" and e x assume pre: "tree_ok sp (sabs (w_db w)) \<and> presentG (sabs (w_db w)) (target_iri t)"
    show "patch_dataset E (r_iri ?u) p w = (Inl e, w') \<Longrightarrow> tree_ok sp (sabs (w_db w'))" using tripleD(1) [OF tr] pre by blast
    assume run: "patch_dataset E (r_iri ?u) p w = (Inr x, w')"
    have "steps_to (marking sp ?u) (sabs (w_db w)) (sabs (w_db w'))"
      by (rule steps_to_mono [OF patch_guarded_step [OF run [unfolded patch_dataset_def]] patching_marking [OF u]])
    then have "presentG (sabs (w_db w')) (r_iri ?u)"
      using pre marking_keeps [OF space _ u] target_iri_subject [OF assms(3)] by (auto simp: steps_to_def)
    with tripleD(2) [OF tr _ run] pre target_iri_subject [OF assms(3)]
    show "tree_ok sp (sabs (w_db w')) \<and> presentG (sabs (w_db w')) (target_iri t)" by simp
  qed
  note step = this
  show ?thesis unfolding patch_existing_def Let_def assms(2)
  proof (rule triple_bind [OF triple_map_err [OF step]])
    fix x show "triple (\<lambda>G. tree_ok sp G \<and> presentG G (target_iri t)) (case t of
          Container c \<Rightarrow> attempt (ensure_container E c) (\<lambda>r. case r of Inr _ \<Rightarrow> patch_response x p | Inl e \<Rightarrow> put_error e)
        | _ \<Rightarrow> op_ok (patch_response x p)) (\<lambda>_. tree_ok sp)"
    proof (cases t)
      case (Container c)
      then have "storage_url sp (as_resource c)" using u by simp
      then show ?thesis unfolding Container target.case by (intro triple_attempt) (auto intro: triple_weaken [OF triple_ensure])
    qed (auto intro!: triple_ok)
  qed
qed

lemma then_containment:
  assumes "(\<And>c. t = Container c \<Longrightarrow> patch_sets_containment p c = None) \<Longrightarrow> triple P (f ()) R" and "\<And>G. P G \<Longrightarrow> tree_ok sp G"
  shows "triple P (op_bind (case t of
      Container c \<Rightarrow> (case patch_sets_containment p c of Some conflict \<Rightarrow> op_err (h conflict) | None \<Rightarrow> op_ok ())
    | _ \<Rightarrow> op_ok ()) f) R"
proof -
  have simps: "op_bind (op_ok ()) f = f ()" "op_bind (op_err e) f = op_err e" for e by (simp_all add: fun_eq_iff op_bind_def)
  show ?thesis
  proof (cases t)
    case (Container c)
    with assms show ?thesis by (cases "patch_sets_containment p c") (auto simp: simps intro: triple_err)
  qed (use assms in \<open>auto simp: simps\<close>)
qed

lemma seen_existed:
  assumes "seen t g G" "existence_of g = Existed" "\<not> is_aux t"
  shows "tree_ok sp G \<and> presentG G (target_iri t)"
proof -
  have g: "snapshot G g" "gu_target g = t" using assms(1) by (simp_all add: seen_def)
  then have "target_subject t \<in> set (gu_chain g)" by (simp add: snapshot_def request_chain_def)
  from snapshot_present(1) [OF g(1) this] assms show ?thesis
    by (auto simp: existence_of_def target_exists_def g(2) target_iri_subject seen_tree split: if_splits)
qed

lemma triple_patch_subject:
  assumes "proper t" and "sv_env S = E" and "\<not> is_aux t"
    and "\<And>c. t = Container c \<Longrightarrow> patch_sets_containment p c = None"
  shows "triple (seen t g) (case existence_of g of
      Absent \<Rightarrow> (\<lambda>w. case returned (create_by_patch S g t p) w of ((res, m), w') \<Rightarrow> (Inr (res, Absent, m), w'))
    | Existed \<Rightarrow> (\<lambda>w. case returned (patch_existing S t p) w of (res, w') \<Rightarrow> (Inr (res, Existed, no_materialized), w')))
    (\<lambda>_. tree_ok sp)"
proof (cases "existence_of g")
  case Absent
  then have "\<not> target_exists g" by (simp add: existence_of_def split: if_splits)
  then have "triple (seen t g) (create_by_patch S g t p) (\<lambda>_. tree_ok sp)"
    by (intro triple_weaken [OF triple_create_by_patch [OF assms(1,2)]]) (use seen_vacant in blast)+
  then show ?thesis unfolding Absent existence.case by (rule triple_returning) (simp split: prod.split)
next
  case Existed
  have "triple (seen t g) (patch_existing S t p) (\<lambda>_. tree_ok sp)"
    by (rule triple_weaken [OF triple_patch_existing [OF assms]]) (use seen_existed [OF _ Existed assms(3)] in blast)+
  then show ?thesis unfolding Existed existence.case by (rule triple_returning) (simp split: prod.split)
qed

lemma triple_patch_write:
  assumes "proper t" and "sv_env S = E"
  shows "triple (tree_ok sp) (patch_write S ag t hs bytes) (\<lambda>_. tree_ok sp)"
proof -
  have aux: "triple (seen t g) (attempt (aux_patch E a p) f) (\<lambda>_. tree_ok sp)" if t: "t = Aux a" for g a p f
  proof -
    obtain u k where "a = url_aux u k" "storage_url sp u" using proper_aux assms(1) t by blast
    then show ?thesis by (intro triple_attempt) (auto intro: triple_weaken [OF triple_aux(2)] seen_tree)
  qed
  have effect: "triple (seen t g) (case t of
        Aux a \<Rightarrow> attempt (aux_patch E a p) (\<lambda>r. (aux_patch_result p r, Existed, no_materialized))
      | _ \<Rightarrow> (case existence_of g of
            Absent \<Rightarrow> (\<lambda>w. case returned (create_by_patch S g t p) w of ((res, m), w') \<Rightarrow> (Inr (res, Absent, m), w'))
          | Existed \<Rightarrow> (\<lambda>w. case returned (patch_existing S t p) w of (res, w') \<Rightarrow> (Inr (res, Existed, no_materialized), w'))))
      (\<lambda>_. tree_ok sp)" if none: "\<And>c. t = Container c \<Longrightarrow> patch_sets_containment p c = None" for g p
  proof (cases "is_aux t")
    case True
    then obtain a where t: "t = Aux a" by (cases t) (simp_all add: is_aux_def)
    show ?thesis unfolding t target.case by (rule aux [OF t, unfolded t])
  next
    case False
    with triple_patch_subject [OF assms False none, of g] show ?thesis by (cases t) (simp_all add: is_aux_def)
  qed
  show ?thesis
    unfolding patch_write_def Let_def assms(2)
    by (intro then_probe [OF proper_subject [OF assms(1)]] then_containment triple_case(2) triple_err effect then_still
        still_reads reads_intros) (erule seen_tree | assumption)+
qed

section \<open>\<open>DELETE\<close>\<close>

lemma triple_deletable:
  assumes "proper t" and "sv_env S = E" and "\<not> is_aux t"
  shows "triple (seen t g) (deletable S t)
    (\<lambda>_ G. (tree_ok sp G \<and> childless sp (target_subject t) G) \<and> parent (target_subject t) \<noteq> None)"
proof (cases t)
  case (Resource r)
  have r: "storage_url sp r" "\<not> suffix ''/'' (r_path r)" using proper_resource assms(1) Resource by blast+
  then have pre: "prefix ''/'' (r_path r)" by (simp add: storage_url_def in_space_def)
  have "parent r \<noteq> None"
  proof
    assume "parent r = None"
    then have "parent_path (r_path r) = None" by (auto simp: parent_def)
    from parent_path_None [OF this] pre r(2) show False
      by (cases "r_path r") (auto simp: suffix_def split: if_splits)
  qed
  then show ?thesis using childless_resource [OF r(2)] by (auto simp: Resource deletable_def dest: seen_tree intro!: triple_ok)
next
  case (Container c)
  have rd: "reads (container_is_empty E c)" unfolding container_is_empty_def by (intro reads_intros)
  have "childless sp (as_resource c) G" if "tree_ok sp G"
      "\<forall>x. mk_triple (NamedNode (container_iri c)) LDP_CONTAINS x \<notin> G (container_iri c)" for G
    using that all_listedD unfolding childless_def tree_ok_def
    by (metis (no_types) container_of_resource contains_triple_def listed_def)
  then have "triple (seen t g) (container_is_empty E c)
      (\<lambda>b G. tree_ok sp G \<and> (b \<longrightarrow> childless sp (as_resource c) G))"
    by (intro tripleI) (metis readsD rd seen_tree, metis container_is_empty_ok seen_tree)
  from triple_map_err [OF this] have "triple (seen t g) (op_map_err (\<lambda>_. internal_error) (container_is_empty E c))
      (\<lambda>b G. tree_ok sp G \<and> (b \<longrightarrow> childless sp (as_resource c) G))" .
  then show ?thesis unfolding deletable_def Container target.case assms(2)
    by (intro triple_case triple_err, auto dest: seen_tree intro!: triple_bind triple_case triple_ok triple_err)
qed (use assms(3) in \<open>simp add: is_aux_def\<close>)

lemma triple_delete_write:
  assumes "proper t" and "sv_env S = E"
  shows "triple (tree_ok sp) (delete_write S ag t) (\<lambda>_. tree_ok sp)"
proof (cases "is_aux t")
  case True
  then obtain a where t: "t = Aux a" by (cases t) (simp_all add: is_aux_def)
  obtain u k where a: "a = url_aux u k" "storage_url sp u" using proper_aux assms(1) t by blast
  have "triple (seen t g) (attempt (delete_rdf E (a_iri a)) f) (\<lambda>_. tree_ok sp)" for g f
    using a by (intro triple_attempt) (auto intro: triple_weaken [OF triple_aux(3)] seen_tree)
  with assms t show ?thesis unfolding delete_write_def Let_def t target.case assms(2)
    by (intro then_probe [OF proper_subject] then_still still_reads reads_basic) auto
next
  case False
  have del: "triple (seen t g) (op_bind (deletable S t) (\<lambda>_. attempt (delete_subject E (target_subject t)) f)) (\<lambda>_. tree_ok sp)" for g f
    by (rule triple_bind [OF triple_deletable [OF assms False]])
       (intro triple_pure triple_attempt triple_delete_subject proper_subject [OF assms(1)])
  have "triple (tree_ok sp) (op_bind (op_map_err (refused t) (probe E ag t)) (\<lambda>g.
      op_bind (op_res (map_err (refused t) (authorize g Write))) (\<lambda>_.
      op_bind (op_res (map_err (refused t) (authorize_parent g Write))) (\<lambda>_.
      op_bind (op_res (map_err (refused t) (present_auxiliaries g (target_subject t) aux_kind_all))) (\<lambda>auxs.
      op_bind (deletable S t) (\<lambda>_. attempt (delete_subject E (target_subject t)) (\<lambda>r. (delete_result t r, auxs)))))))) (\<lambda>_. tree_ok sp)"
    by (intro then_probe [OF proper_subject [OF assms(1)]] del then_still still_reads reads_basic)
  with False show ?thesis by (cases t) (simp_all add: delete_write_def Let_def assms(2) is_aux_def)
qed

end

section \<open>Whole requests\<close>

text \<open>A server over the pod's stores, and the pod of an application.\<close>

context tree_pod
begin

lemma impl_tree:
  assumes "proper t" and S: "sv_env S = E" "sv_space S = sp" and ok: "tree_ok sp (sabs (w_db w))"
  shows "tree_ok sp (sabs (w_db (fst (snd (put_impl S ag t hs bytes (w, b))))))"
    "tree_ok sp (sabs (w_db (fst (snd (patch_impl S ag t hs bytes (w, b))))))"
    "tree_ok sp (sabs (w_db (fst (snd (delete_impl S ag t (w, b))))))"
    "unguessed sp E (w_draws w) (sabs (w_db w)) \<Longrightarrow> tree_ok sp (sabs (w_db (fst (snd (post_impl S ag t hs bytes (w, b))))))"
proof -
  show "tree_ok sp (sabs (w_db (fst (snd (put_impl S ag t hs bytes (w, b))))))"
    using triple_returned [OF triple_put_write [OF assms(1) S(1)] ok] by (simp add: put_impl_def split_beta Let_def)
  show "tree_ok sp (sabs (w_db (fst (snd (patch_impl S ag t hs bytes (w, b))))))"
    using tripleD [OF triple_patch_write [OF assms(1) S(1)] ok]
    by (cases "patch_write S ag t hs bytes w"; cases "fst (patch_write S ag t hs bytes w)") (auto simp: patch_impl_def)
  show "tree_ok sp (sabs (w_db (fst (snd (delete_impl S ag t (w, b))))))"
    using tripleD [OF triple_delete_write [OF assms(1) S(1)] ok]
    by (cases "delete_write S ag t w"; cases "fst (delete_write S ag t w)") (auto simp: delete_impl_def)
  assume un: "unguessed sp E (w_draws w) (sabs (w_db w))"
  show "tree_ok sp (sabs (w_db (fst (snd (post_impl S ag t hs bytes (w, b))))))"
    using post_write_tree [OF assms(1) S ok un]
    by (cases "post_write S ag t hs bytes w"; cases "fst (post_write S ag t hs bytes w)") (auto simp: post_impl_def)
qed

lemma handle_tree:
  assumes S: "sv_env S = E" "sv_space S = sp" and ok: "tree_ok sp (sabs (w_db w))"
  shows "tree_ok sp (sabs (w_db (fst (snd (handle_put S ag path hs bytes (w, b))))))"
    "tree_ok sp (sabs (w_db (fst (snd (handle_patch S ag path hs bytes (w, b))))))"
    "tree_ok sp (sabs (w_db (fst (snd (handle_delete S ag path (w, b))))))"
    "unguessed sp E (w_draws w) (sabs (w_db w)) \<Longrightarrow> tree_ok sp (sabs (w_db (fst (snd (handle_post S ag path hs bytes (w, b))))))"
  using impl_tree [OF proper_classify [OF _ S(2)] S ok] ok
  by (simp_all add: handle_put_def handle_patch_def handle_delete_def handle_post_def split: sum.split)

lemma router_tree:
  assumes A: "sv_env (ap_server A) = E" "sv_space (ap_server A) = sp"
    and ok: "tree_ok sp (sabs (w_db w))" and un: "unguessed sp E (w_draws w) (sabs (w_db w))"
  shows "tree_ok sp (sabs (w_db (fst (snd (router A ag rq (w, b))))))"
proof (cases "snd (router A ag rq (w, b)) = (w, b)")
  case False
  then obtain path where p: "snd (router A ag rq (w, b)) = snd (resource_route A ag rq path (w, b))"
    by (auto simp: router_def Let_def split: if_splits option.splits)
  have "tree_ok sp (sabs (w_db (fst (snd (resource_route A ag rq path (w, b))))))"
    using handle_tree [OF A ok] handle_get_reads [of "ap_server A" ag path "hr_query rq" "hr_headers rq" w] un ok
    by (simp add: resource_route_def Let_def split_beta)
  with p show ?thesis by simp
qed (use ok in simp)

lemma serve_tree:
  assumes A: "sv_env (ap_server A) = E" "sv_space (ap_server A) = sp"
    and ok: "tree_ok sp (sabs (w_db w))" and un: "unguessed sp E (w_draws w) (sabs (w_db w))"
    and "serve A now rq ((w, b), a) = (re, ((w', b'), a'))"
  shows "tree_ok sp (sabs (w_db w'))"
  using assms(5) ok router_tree [OF A ok un, of _ rq b]
  by (auto simp: serve_def Let_def split: prod.splits option.splits) (metis fst_conv snd_conv)

end

end
