(* ===== verification/Startup.thy ===== *)
theory Startup
  imports Configuration Invariants Lifecycle
begin

text \<open>
  Process start-up, \<^verbatim>\<open>src/main.rs\<close>, up to the point where requests are accepted, and the life of the
  process from there: requests served one after another. Whatever \<open>main\<close> takes from third parties is
  in the record \<open>platform\<close>; a refusal to start is a value of \<open>boot_error\<close>. Binding the socket, signals
  and logging are left out.
\<close>

section \<open>Starting\<close>

record ('db, 'bl, 'k, 'v, 's, 'n, 'f) platform =
  pl_server :: "('db, 'bl) server"
  pl_jose :: "('k, 'v, 's) op_jose"
  pl_network :: "'n network"
  pl_net :: 'n
  pl_keys_from :: "json \<Rightarrow> 'k list option"
  pl_iter :: "string list \<Rightarrow> string list"
  pl_clock :: "'n \<Rightarrow> nat"
  pl_percent_decode :: "string \<Rightarrow> string option"
  pl_disk :: "('k, 'f) disk"
  pl_backends :: "('db, 'bl) backends"

text \<open>The dash of the two messages is not ASCII.\<close>

definition em_dash :: string where "em_dash = [CHR 0xE2, CHR 0x80, CHR 0x94]"

definition insecure_host_rejection_hint :: "'n network \<Rightarrow> string \<Rightarrow> string" where
  "insecure_host_rejection_hint N entry =
     (let quote = [CHR 0x27] in
      if ambiguous_ipv6 N entry then
        (let i = the (rfind (CHR '':'') entry); host = take i entry; port = drop (Suc i) entry in
         quote @ entry @ quote @ '' is ambiguous '' @ em_dash
         @ '' it reads as both the whole IPv6 address and `'' @ host @ ''` on port '' @ port @ ''; use the bracketed form ''
         @ quote @ ''['' @ host @ '']:'' @ port @ quote @ '' instead'')
      else quote @ entry @ quote @ '' is not a valid --allow-insecure-host entry '' @ em_dash @ '' use '' @ quote @ ''host'' @ quote
        @ '' or '' @ quote @ ''host:port'' @ quote @ '' with no scheme, path, whitespace, brackets (unless it''
        @ quote @ ''s a bracketed IPv6 address), or out-of-range port'')"

datatype boot_error =
    RejectedHosts "string list"
  | ConfigRefused config_error
  | ProvisionPanic resource_error

definition app_state ::
  "('db, 'bl, 'k, 'v, 's, 'n, 'f) platform \<Rightarrow> 'addr config \<Rightarrow> fetch_policy \<Rightarrow> 'k list option \<Rightarrow>
     ('db, 'bl, 'k, 'v, 's, ('n, 'k) auth_world) app" where
  "app_state P c pol keys =
     (let S = (pl_server P)\<lparr>sv_space := c_base_uri c\<rparr> in
      \<lparr>ap_server = S, ap_jose = pl_jose P,
       ap_deps = pod_deps (pl_jose P) (pl_network P) pol (sv_parser S) (sv_show_rdf_error S) (pl_keys_from P) (pl_iter P)
         (pl_clock P) (config_auth_config c),
       ap_max_body_bytes = c_max_body_bytes c, ap_op_keys = keys, ap_percent_decode = pl_percent_decode P\<rparr>)"

definition fresh_auth :: "('db, 'bl, 'k, 'v, 's, 'n, 'f) platform \<Rightarrow> ('n, 'k) auth_world" where
  "fresh_auth P = \<lparr>aw_net = pl_net P, aw_jwks = empty_cache, aw_webids = empty_cache, aw_replay = new_replay_set\<rparr>"

definition provision :: "('db, 'bl) server \<Rightarrow> 'addr config \<Rightarrow> (('db, 'bl) world, resource_error, unit) op" where
  "provision S c =
     op_bind (provision_root (sv_env S) (space_root (sv_space S))) (\<lambda>_.
       provision_root_acl (sv_env S) (sv_parser S) (sv_space S) (c_owner_webid c) (c_reset_root_acl c))"

definition start_server ::
  "('db, 'bl, 'k, 'v, 's, 'n, 'f) platform \<Rightarrow> 'addr config \<Rightarrow>
     ('f, boot_error, ('db, 'bl, 'k, 'v, 's, ('n, 'k) auth_world) app \<times> ('db, 'bl) srv \<times> ('n, 'k) auth_world) op" where
  "start_server P c =
     (let (pol, rejected) = try_fetch_policy (pl_network P) c in
      if rejected \<noteq> [] then op_err (RejectedHosts (map (insecure_host_rejection_hint (pl_network P)) rejected))
      else
        op_bind (op_res (map_err ConfigRefused (config_blobs (pl_backends P) c))) (\<lambda>blobs.
        op_bind (op_res (map_err ConfigRefused (config_rdf_store (pl_backends P) c))) (\<lambda>db.
        op_bind (op_map_err ConfigRefused (op_keys (pl_jose P) (pl_disk P) c)) (\<lambda>keys.
          let A = app_state P c pol keys in
          case provision (ap_server A) c \<lparr>w_db = db, w_blobs = blobs, w_draws = 0\<rparr> of
            (Inl e, _) \<Rightarrow> op_err (ProvisionPanic e)
          | (Inr _, w) \<Rightarrow> op_ok (A, (w, new_bus), fresh_auth P)))))"

section \<open>Running\<close>

text \<open>The states of the process: those the requests served since the start lead to. The assumption on
  the step is that of \<open>unguessed\<close>, that nobody names a URL by a UUID before it is drawn.\<close>

inductive running ::
  "('db \<Rightarrow> graphs) \<Rightarrow> ('db, 'bl, 'k, 'v, 's, 'a) app \<Rightarrow> ('db, 'bl) srv \<times> 'a \<Rightarrow> ('db, 'bl) srv \<times> 'a \<Rightarrow> bool"
  for sabs A s0 where
  started: "running sabs A s0 s0"
| served: "running sabs A s0 ((w, b), a) \<Longrightarrow>
    unguessed (sv_space (ap_server A)) (sv_env (ap_server A)) (w_draws w) (sabs (w_db w)) \<Longrightarrow>
    serve A now rq ((w, b), a) = (re, s) \<Longrightarrow> running sabs A s0 s"

definition store_ok :: "storage_space \<Rightarrow> graphs \<Rightarrow> bool" where
  "store_ok sp G \<longleftrightarrow> no_orphan sp G \<and> registry_ok G \<and> all_listed sp G \<and> slash_free sp G"

lemma store_ok_tree: "tree_ok sp G \<longleftrightarrow> store_ok sp G \<and> presentG G (container_iri (space_root sp))"
  by (auto simp: tree_ok_def store_ok_def)

lemma store_ok_empty: "store_ok sp (\<lambda>_. {})"
  by (simp add: store_ok_def no_orphan_def registry_ok_def all_listed_def slash_free_def presentG_def)

lemma new_space_pod: "new_space valid_iri base = Inr sp \<Longrightarrow> pod_space sp"
  by (rule pod_space_new)

context tree_pod
begin

lemma provision_root_tree:
  assumes "store_ok sp (sabs (w_db w))" and "provision_root E (space_root sp) w = (Inr x, w')"
  shows "tree_ok sp (sabs (w_db w'))"
proof -
  let ?r = "as_resource (space_root sp)" and ?G = "sabs (w_db w)"
  have root: "storage_url sp ?r" by (rule space_root_storage [OF space])
  have r: "suffix ''/'' (r_path ?r)" "slash_counterpart ?r = None"
    by (simp_all add: space_root_def suffix_def slash_counterpart_def strip_suffix_def)
  obtain body where G': "sabs (w_db w') = exec (insert_marked_update (r_iri ?r) body) ?G"
    using ensure_container_cases [OF assms(2) [unfolded provision_root_def]] by (auto simp: container_of_resource)
  have m: "marking sp ?r (insert_marked_update (r_iri ?r) body)" by (rule marking.insert_marked [OF root])
  have http: "http_iri (r_iri ?r)" by (rule storage_http [OF space root])
  show ?thesis unfolding tree_ok_def G'
  proof (intro conjI)
    show "all_listed sp (exec (insert_marked_update (r_iri ?r) body) ?G)"
      by (rule all_listed_marking [OF space m]) (use assms(1) r http in \<open>auto simp: store_ok_def insert_marked_exec\<close>)
    show "slash_free sp (exec (insert_marked_update (r_iri ?r) body) ?G)"
      by (rule slash_free_marking [OF space m]) (use assms(1) r in \<open>auto simp: store_ok_def\<close>)
  qed (use assms(1) no_orphan_marking [OF space m] registry_ok_marking [OF space m] http in
      \<open>auto simp: store_ok_def presentG_insert_marked container_of_resource\<close>)
qed

lemma provision_acl_tree: "triple (tree_ok sp) (provision_root_acl E parser sp owner reset) (\<lambda>_. tree_ok sp)"
proof -
  let ?r = "as_resource (space_root sp)"
  have root: "storage_url sp ?r" by (rule space_root_storage [OF space])
  have "triple (tree_ok sp) (ensure_container E (space_root sp)) (\<lambda>_. tree_ok sp)"
    by (rule triple_weaken [OF triple_ensure [OF root]]) (auto simp: tree_ok_def)
  then show ?thesis unfolding provision_root_acl_def Let_def
    by (intro then_still(2) still_reads reads_intros triple_case(2) triple_ok triple_bind [of _ _ "\<lambda>_. tree_ok sp"]
        triple_map_err triple_aux(1) [OF root])
qed

lemma provision_tree:
  assumes "store_ok sp (sabs (w_db w))" and "sv_env S = E" "sv_space S = sp" and "provision S c w = (Inr x, w')"
  shows "tree_ok sp (sabs (w_db w'))"
  using assms(4) unfolding provision_def assms(2,3)
  by (auto elim!: op_bind_InrE dest!: provision_root_tree [OF assms(1)] tripleD(2) [OF provision_acl_tree, rotated])

lemma running_tree:
  assumes "running sabs A s0 s" and A: "sv_env (ap_server A) = E" "sv_space (ap_server A) = sp"
    and "tree_ok sp (sabs (w_db (fst (fst s0))))"
  shows "tree_ok sp (sabs (w_db (fst (fst s))))"
  using assms(1)
proof (induction rule: running.induct)
  case (served w b a now rq re s)
  obtain w' b' a' where s: "s = ((w', b'), a')" by (metis surj_pair)
  with serve_tree [OF A, of w now rq b a re w' b' a'] served show ?case by (simp add: A)
qed (use assms in simp)

end

lemma start_server_steps:
  assumes "start_server P c f = (Inr (A, (w, b), a), f')"
  obtains keys blobs db where "snd (try_fetch_policy (pl_network P) c) = []"
    "A = app_state P c (fst (try_fetch_policy (pl_network P) c)) keys"
    "config_rdf_store (pl_backends P) c = Inr db" "op_keys (pl_jose P) (pl_disk P) c f = (Inr keys, f')"
    "provision (ap_server A) c \<lparr>w_db = db, w_blobs = blobs, w_draws = 0\<rparr> = (Inr (), w)"
  using assms
  by (auto simp: start_server_def Let_def op_map_err_conv split_beta split: if_splits sum.splits prod.splits elim!: op_bind_InrE)
    (metis prod.collapse)

lemma loaded_space: "try_load_from PR argv = Inr c \<Longrightarrow> pod_space (c_base_uri c)"
  by (auto simp: try_load_from_def Let_def res_bind_Inr dest!: from_arg_matches_fields(1) intro: pod_space_new split: option.splits)

lemma app_state_simps [simp]:
  "sv_env (ap_server (app_state P c pol keys)) = sv_env (pl_server P)"
  "sv_space (ap_server (app_state P c pol keys)) = c_base_uri c" "ap_op_keys (app_state P c pol keys) = keys"
  "sv_parser (ap_server (app_state P c pol keys)) = sv_parser (pl_server P)"
  by (simp_all add: app_state_def Let_def)

lemma after_str_Some: "after_str pat s = Some rest \<Longrightarrow> \<exists>pre. s = pre @ pat @ rest"
proof (induction s)
  case Nil
  then show ?case by (simp add: strip_prefix_Some)
next
  case (Cons x xs)
  show ?case
  proof (cases "strip_prefix pat (x # xs)")
    case None
    with Cons obtain pre where "xs = pre @ pat @ rest" by auto
    then show ?thesis by (intro exI [of _ "x # pre"]) simp
  next
    case (Some r)
    with Cons.prems show ?thesis by (auto simp: strip_prefix_Some intro: exI [of _ "[]"])
  qed
qed

lemma trim_end_matches_split: "\<exists>n. s = trim_end_matches ch s @ replicate n ch"
proof -
  have "rev s = takeWhile (\<lambda>x. x = ch) (rev s) @ dropWhile (\<lambda>x. x = ch) (rev s)" by simp
  then have "s = trim_end_matches ch s @ rev (takeWhile (\<lambda>x. x = ch) (rev s))"
    unfolding trim_end_matches_def by (metis rev_append rev_rev_ident)
  moreover have "takeWhile (\<lambda>x. x = ch) (rev s) = replicate (length (takeWhile (\<lambda>x. x = ch) (rev s))) ch"
    by (rule replicate_length_same [symmetric]) (auto dest: set_takeWhileD)
  ultimately show ?thesis by (metis rev_replicate)
qed

text \<open>The provider is on exactly when a key file is configured, and then the base URI is an origin.\<close>

lemma op_keys_origin:
  assumes "op_keys J D c f = (Inr keys, f')"
  shows "(keys \<noteq> None \<longleftrightarrow> c_op_signing_keys c \<noteq> None) \<and>
    (keys \<noteq> None \<longrightarrow> (\<exists>pre host n. s_base (c_base_uri c) = pre @ host @ replicate n (CHR ''/'') \<and> CHR ''/'' \<notin> set host \<and>
       (pre = [] \<or> suffix ''://'' pre)))"
proof (cases "c_op_signing_keys c")
  case None
  with assms show ?thesis by (simp add: op_keys_def)
next
  case (Some path)
  let ?root = "s_base (c_base_uri c)"
  define rest where "rest = (case after_str ''://'' ?root of Some r \<Rightarrow> r | None \<Rightarrow> ?root)"
  have root: "container_iri (space_root (c_base_uri c)) = ?root" by (simp add: container_iri_def space_root_def)
  have ok: "CHR ''/'' \<notin> set (trim_end_matches (CHR ''/'') rest)" "keys \<noteq> None"
    using assms unfolding op_keys_def Some option.case root Let_def rest_def [symmetric]
    by (auto split: if_splits elim!: op_bind_InrE)
  obtain pre where pre: "?root = pre @ rest" "pre = [] \<or> suffix ''://'' pre"
    using after_str_Some [of "''://''" ?root] by (cases "after_str ''://'' ?root") (auto simp: rest_def suffix_def)
  obtain n where n: "rest = trim_end_matches (CHR ''/'') rest @ replicate n (CHR ''/'')"
    using trim_end_matches_split [of rest "CHR ''/''"] by blast
  have "\<exists>pre host n. ?root = pre @ host @ replicate n (CHR ''/'') \<and> CHR ''/'' \<notin> set host \<and> (pre = [] \<or> suffix ''://'' pre)"
    using pre n ok(1) by (intro exI [of _ pre] exI [of _ "trim_end_matches (CHR ''/'') rest"] exI [of _ n]) auto
  with ok(2) Some show ?thesis by simp
qed

section \<open>Properties\<close>



text \<open>Example: the in-memory pod of a configuration file, before and after a request.\<close>

definition ex_argv :: "string list" where "ex_argv = [''quadpod'', ''--config'', ''/c'', ''--listen'', ''a'']"

definition ex_config :: "string config" where
  "ex_config = \<lparr>c_base_uri = \<lparr>s_base = ''http://localhost:3000/''\<rparr>, c_owner_webid = ''http://o/'', c_trusted_issuers = [],
     c_expected_audience = None, c_allow_insecure_hosts = [], c_listen = ''a'', c_reset_root_acl = False, c_config = Some ''/c'',
     c_rdf_store = ''memory'', c_blob_store = ''memory'', c_op_signing_keys = None, c_max_body_bytes = 0\<rparr>"

definition ex_platform :: "(mem_db, mem_bl, string option \<times> string option, unit, unit, nat, unit) platform" where
  "ex_platform = \<lparr>pl_server = ex_server\<lparr>sv_parser := (\<lambda>f base bytes. Inr (as_quads (owner_acl (base @ ''#owner'') ''http://o/'' ''http://localhost:3000/'')))\<rparr>,
     pl_jose = ex_op_jose, pl_network = ex_network, pl_net = 0, pl_keys_from = (\<lambda>_. None), pl_iter = id, pl_clock = id,
     pl_percent_decode = Some, pl_disk = ex_disk,
     pl_backends = \<lparr>bk_blobs_in_memory = [], bk_blobs_local = Inl, bk_store_new = Inr [], bk_store_open = Inl\<rparr>\<rparr>"

lemma ex_loaded: "try_load_from ex_process ex_argv = Inr ex_config"
  by code_simp

lemma ex_store: "config_rdf_store (pl_backends ex_platform) ex_config = Inr []"
  by code_simp

lemma ex_store_ok: "store_ok (c_base_uri ex_config) (mem_abs [])"
proof -
  have "mem_abs [] = (\<lambda>_. {})" by (simp add: mem_abs_def fun_eq_iff)
  then show ?thesis using store_ok_empty by simp
qed

lemma ex_platform_pod: "pod (sv_env (pl_server ex_platform)) mem_abs map_of"
  using mem_pod.pod_axioms by (simp add: ex_platform_def ex_server_def)

definition ex_booted :: "(mem_db, mem_bl) world" where
  "ex_booted = snd (provision (pl_server ex_platform\<lparr>sv_space := c_base_uri ex_config\<rparr>) ex_config \<lparr>w_db = [], w_blobs = [], w_draws = 0\<rparr>)"

lemma ex_provision: "\<not> isl (fst (provision (pl_server ex_platform\<lparr>sv_space := c_base_uri ex_config\<rparr>) ex_config \<lparr>w_db = [], w_blobs = [], w_draws = 0\<rparr>))"
  by code_simp

lemma ex_started: "start_server ex_platform ex_config () =
    (Inr (app_state ex_platform ex_config (fst (try_fetch_policy ex_network ex_config)) None, (ex_booted, new_bus), fresh_auth ex_platform), ())"
proof -
  obtain x where x: "provision (pl_server ex_platform\<lparr>sv_space := c_base_uri ex_config\<rparr>) ex_config \<lparr>w_db = [], w_blobs = [], w_draws = 0\<rparr> = (Inr x, ex_booted)"
    using ex_provision unfolding ex_booted_def by (metis isl_def obj_sumE prod.collapse)
  have "snd (try_fetch_policy ex_network ex_config) = []" "config_blobs (pl_backends ex_platform) ex_config = Inr []" by code_simp+
  moreover have "op_keys (pl_jose ex_platform) (pl_disk ex_platform) ex_config () = (Inr None, ())" by (simp add: op_keys_def ex_config_def)
  moreover have "pl_network ex_platform = ex_network" by (simp add: ex_platform_def)
  moreover have "ap_server (app_state ex_platform ex_config pol keys) = pl_server ex_platform\<lparr>sv_space := c_base_uri ex_config\<rparr>" for pol keys
    by (simp add: app_state_def Let_def)
  ultimately show ?thesis using x ex_store by (simp add: start_server_def split_beta op_map_err_def)
qed


definition ex_put :: http_request where
  "ex_put = \<lparr>hr_method = ''PUT'', hr_path = ''/a'', hr_query = None, hr_headers = [], hr_body = []\<rparr>"

lemma ex_unguessed: "unguessed (c_base_uri ex_config) E n (mem_abs (w_db ex_booted))"
proof -
  let ?sp = "c_base_uri ex_config"
  have sp: "pod_space ?sp" by (rule loaded_space [OF ex_loaded])
  have root: "storage_url ?sp (as_resource (space_root ?sp))" by (rule space_root_storage [OF sp])
  have "list_all (\<lambda>(g, t). t_predicate t = SYS_PRESENT \<longrightarrow> t_subject t \<in>
      {NamedNode (r_iri (as_resource (space_root ?sp))), NamedNode (acl_iri (as_resource (space_root ?sp)))}) (w_db ex_booted)" by code_simp
  then have "presentG (mem_abs (w_db ex_booted)) i \<Longrightarrow> i = r_iri (as_resource (space_root ?sp)) \<or> i = acl_iri (as_resource (space_root ?sp))" for i
    by (fastforce simp: presentG_mem list_all_iff present_triple_def)
  moreover have "r_path (as_resource (space_root ?sp)) \<noteq> a @ ''-'' @ u @ b" for a u b
    by (cases a) (simp_all add: space_root_def)
  ultimately show ?thesis
    unfolding unguessed_def using storage_eqI [OF _ root] storage_not_aux [OF sp root] by metis
qed


end
