(* ===== verification/Grammar.thy ===== *)
theory Grammar
  imports Sparql
begin

text \<open>
  The part of SPARQL 1.2 that the sources write: its tokens (\<open>lex\<close>), its grammar (\<open>read_update\<close>,
  \<open>read_query\<close>) and its meaning on named graphs (\<open>apply_update\<close>, \<open>sols\<close>). It is the reference against
  which \<open>Statements\<close> checks the text the sources send to the store; a text outside this part is not
  read at all. The functions follow the W3C recommendations: IRIs, strings and their escapes,
  comments and white space in the lexer; quads, group graph patterns of triples, \<open>GRAPH\<close>, \<open>VALUES\<close> and
  \<open>FILTER EXISTS\<close>, and the update and query forms in the parser.
\<close>

section \<open>Tokens\<close>

datatype token =
    TIri string
  | TVar string
  | TStr string
  | TLang string
  | TDatatype
  | TWord string
  | TInt string
  | TPunct char
  | TOpenTriple
  | TCloseTriple

definition white :: "char \<Rightarrow> bool" where
  "white c \<longleftrightarrow> c \<in> {CHR '' '', CHR 0x09, CHR 0x0A, CHR 0x0D}"

definition iri_char :: "char \<Rightarrow> bool" where
  "iri_char c \<longleftrightarrow> (of_char c :: nat) > 32 \<and> c \<notin> {CHR ''<'', CHR ''>'', CHR 0x22, CHR ''{'', CHR ''}'', CHR ''|'', CHR ''^'', CHR 0x60, CHR 0x5C}"

definition alpha :: "char \<Rightarrow> bool" where
  "alpha c \<longleftrightarrow> (let n = of_char c :: nat in (65 \<le> n \<and> n \<le> 90) \<or> (97 \<le> n \<and> n \<le> 122))"

definition digit :: "char \<Rightarrow> bool" where
  "digit c \<longleftrightarrow> (let n = of_char c :: nat in 48 \<le> n \<and> n \<le> 57)"

definition name_char :: "char \<Rightarrow> bool" where
  "name_char c \<longleftrightarrow> alpha c \<or> digit c \<or> c = CHR ''_''"

definition lang_char :: "char \<Rightarrow> bool" where
  "lang_char c \<longleftrightarrow> alpha c \<or> digit c \<or> c = CHR ''-''"

definition echar :: "char \<Rightarrow> char option" where
  "echar c = map_of [(CHR ''t'', CHR 0x09), (CHR ''b'', CHR 0x08), (CHR ''n'', CHR 0x0A), (CHR ''r'', CHR 0x0D),
     (CHR ''f'', CHR 0x0C), (CHR 0x22, CHR 0x22), (CHR 0x27, CHR 0x27), (CHR 0x5C, CHR 0x5C)] c"

definition hex_value :: "char \<Rightarrow> nat option" where
  "hex_value c = (let n = of_char c :: nat in
     if 48 \<le> n \<and> n \<le> 57 then Some (n - 48) else if 65 \<le> n \<and> n \<le> 70 then Some (n - 55)
     else if 97 \<le> n \<and> n \<le> 102 then Some (n - 87) else None)"

fun hex_number :: "nat \<Rightarrow> string \<Rightarrow> nat option" where
  "hex_number acc [] = Some acc"
| "hex_number acc (c # cs) = (case hex_value c of None \<Rightarrow> None | Some d \<Rightarrow> hex_number (16 * acc + d) cs)"

definition utf8 :: "nat \<Rightarrow> string" where
  "utf8 n =
     (if n < 128 then [char_of n]
      else if n < 2048 then [char_of (192 + n div 64), char_of (128 + n mod 64)]
      else if n < 65536 then [char_of (224 + n div 4096), char_of (128 + n div 64 mod 64), char_of (128 + n mod 64)]
      else [char_of (240 + n div 262144), char_of (128 + n div 4096 mod 64), char_of (128 + n div 64 mod 64), char_of (128 + n mod 64)])"

text \<open>A codepoint escape may only stand for a character that could stand there itself.\<close>

definition uchar :: "string \<Rightarrow> string option" where
  "uchar hs = (case hex_number 0 hs of
     None \<Rightarrow> None
   | Some n \<Rightarrow> if n \<in> {34, 92, 10, 13} \<or> n \<ge> 1114112 \<or> (55296 \<le> n \<and> n < 57344) then None else Some (utf8 n))"

function lex_string :: "string \<Rightarrow> (string \<times> string) option" where
  "lex_string [] = None"
| "lex_string (c # cs) =
     (if c = CHR 0x22 then Some ([], cs)
      else if c = CHR 0x0A \<or> c = CHR 0x0D then None
      else if c \<noteq> CHR 0x5C then map_option (apfst ((#) c)) (lex_string cs)
      else if cs = [] then None
      else if hd cs = CHR ''u'' \<or> hd cs = CHR ''U'' then
        (let n = if hd cs = CHR ''u'' then 4 else 8 in
         if length (tl cs) < n then None
         else Option.bind (uchar (take n (tl cs))) (\<lambda>x. map_option (apfst ((@) x)) (lex_string (drop n (tl cs)))))
      else Option.bind (echar (hd cs)) (\<lambda>x. map_option (apfst ((#) x)) (lex_string (tl cs))))"
  by pat_completeness auto
termination by (relation "measure length") (auto simp: neq_Nil_conv)

lemma lex_string_shorter: "lex_string s = Some (x, r) \<Longrightarrow> length r < length s"
proof (induction s arbitrary: x r rule: lex_string.induct)
  case (2 c cs)
  show ?case
    using "2.prems" "2.IH"
    by (cases cs) (fastforce simp: Let_def apfst_def map_prod_def split: if_splits bind_splits)+
qed simp

lemma dropWhile_shorter: "dropWhile P cs = d # r \<Longrightarrow> length r < length cs"
  using length_dropWhile_le [of P cs] by simp

definition emit :: "token \<Rightarrow> token list option \<Rightarrow> token list option" where
  "emit t r = map_option ((#) t) r"

function lex :: "string \<Rightarrow> token list option" where
  "lex [] = Some []"
| "lex (c # cs) =
     (if white c then lex cs
      else if c = CHR ''#'' then lex (dropWhile (\<lambda>x. x \<noteq> CHR 0x0A \<and> x \<noteq> CHR 0x0D) cs)
      else if c = CHR ''<'' then
        (if prefix ''<('' cs then emit TOpenTriple (lex (drop 2 cs))
         else case dropWhile iri_char cs of
             [] \<Rightarrow> None
           | d # r \<Rightarrow> if d = CHR ''>'' then emit (TIri (takeWhile iri_char cs)) (lex r) else None)
      else if c = CHR 0x22 then
        (if prefix [CHR 0x22, CHR 0x22] cs then None
         else case lex_string cs of None \<Rightarrow> None | Some (s, r) \<Rightarrow> emit (TStr s) (lex r))
      else if c = CHR ''?'' then
        (if takeWhile name_char cs = [] then None else emit (TVar (takeWhile name_char cs)) (lex (dropWhile name_char cs)))
      else if c = CHR ''@'' then
        (if takeWhile lang_char cs = [] then None else emit (TLang (takeWhile lang_char cs)) (lex (dropWhile lang_char cs)))
      else if c = CHR ''^'' then (if prefix ''^'' cs then emit TDatatype (lex (drop 1 cs)) else None)
      else if c = CHR '')'' \<and> prefix ''>>'' cs then emit TCloseTriple (lex (drop 2 cs))
      else if c \<in> set ''{}().;*'' then emit (TPunct c) (lex cs)
      else if alpha c then emit (TWord (c # takeWhile alpha cs)) (lex (dropWhile alpha cs))
      else if digit c then emit (TInt (c # takeWhile digit cs)) (lex (dropWhile digit cs))
      else None)"
  by pat_completeness auto
termination
  by (relation "measure length")
     (auto simp: le_imp_less_Suc length_dropWhile_le less_Suc_eq_le dest!: dropWhile_shorter lex_string_shorter)

section \<open>Grammar\<close>

text \<open>Patterns have variables or terms in any position.\<close>

datatype vt = Var string | Con rdf_term

type_synonym tpat = "vt \<times> vt \<times> vt"

datatype elem =
    Bgp "tpat list"
  | InGraph vt "tpat list"
  | ValuesBlock "string list" "rdf_term list list"
  | ExistsFilter vt "tpat list"

text \<open>Quads of a template or of data: triples of the default graph (\<open>None\<close>) or of a \<open>GRAPH\<close> block.\<close>

type_synonym quads = "(vt option \<times> tpat list) list"

datatype update_op =
    Drop iri
  | DataInsert quads
  | DataDelete quads
  | Modify "iri option" quads quads "elem list"

datatype query =
    Ask "elem list"
  | Construct "tpat list" "elem list"
  | Select "string list option" "elem list" "nat option"

text \<open>A parser takes a prefix of the tokens and returns what it read and what is left.\<close>

type_synonym 'a parser = "token list \<Rightarrow> ('a \<times> token list) option"

definition RDF_DIR_LANG_STRING :: iri where
  "RDF_DIR_LANG_STRING = ''http://www.w3.org/1999/02/22-rdf-syntax-ns#dirLangString''"

fun split_dir :: "string \<Rightarrow> string \<times> string option" where
  "split_dir [] = ([], None)"
| "split_dir (c # cs) = (if prefix ''--'' (c # cs) then ([], Some (tl cs)) else apfst ((#) c) (split_dir cs))"

definition tagged_literal :: "string \<Rightarrow> string \<Rightarrow> literal option" where
  "tagged_literal v tag =
     (case split_dir tag of
        (lang, None) \<Rightarrow> Some (language_literal v lang)
      | (lang, Some d) \<Rightarrow> map_option (\<lambda>dir. \<lparr>l_value = v, l_datatype = RDF_DIR_LANG_STRING,
            l_language = Some lang, l_direction = Some dir\<rparr>) (map_of [(''ltr'', Ltr), (''rtl'', Rtl)] d))"

fun p_term :: "rdf_term parser" where
  "p_term (TIri i # ts) = Some (TermNamed i, ts)"
| "p_term (TStr v # TLang tag # ts) = map_option (\<lambda>l. (TermLiteral l, ts)) (tagged_literal v tag)"
| "p_term (TStr v # TDatatype # TIri d # ts) =
     Some (TermLiteral \<lparr>l_value = v, l_datatype = d, l_language = None, l_direction = None\<rparr>, ts)"
| "p_term (TStr v # ts) = (if ts \<noteq> [] \<and> hd ts = TDatatype then None else Some (TermLiteral (simple_literal v), ts))"
| "p_term (TWord w # ts) = (if w = ''true'' then Some (TermLiteral XSD_TRUE, ts) else None)"
| "p_term (TOpenTriple # TIri s # TIri p # ts) =
     (case p_term ts of
        Some (x, TCloseTriple # r) \<Rightarrow> Some (TermTriple (NamedNode s) p x, r)
      | _ \<Rightarrow> None)"
| "p_term _ = None"

fun p_vt :: "vt parser" where
  "p_vt (TVar v # ts) = Some (Var v, ts)"
| "p_vt ts = map_option (apfst Con) (p_term ts)"

fun p_verb :: "vt parser" where
  "p_verb (TVar v # ts) = Some (Var v, ts)"
| "p_verb (TIri i # ts) = Some (Con (TermNamed i), ts)"
| "p_verb (TWord w # ts) = (if w = ''a'' then Some (Con (TermNamed RDF_TYPE), ts) else None)"
| "p_verb _ = None"

definition p_bind :: "'a parser \<Rightarrow> ('a \<Rightarrow> 'b parser) \<Rightarrow> 'b parser" where
  "p_bind p f ts = Option.bind (p ts) (\<lambda>(x, r). f x r)"

definition p_return :: "'a \<Rightarrow> 'a parser" where
  "p_return x ts = Some (x, ts)"

definition p_triple :: "tpat parser" where
  "p_triple = p_bind p_vt (\<lambda>s. p_bind p_verb (\<lambda>p. p_bind p_vt (\<lambda>x. p_return (s, p, x))))"

lemma p_term_shorter: "p_term ts = Some (x, r) \<Longrightarrow> length r < length ts"
  by (induction ts arbitrary: x r rule: p_term.induct)
     (fastforce split: if_splits option.splits list.splits token.splits prod.splits)+

lemma p_vt_shorter: "p_vt ts = Some (x, r) \<Longrightarrow> length r < length ts"
  by (cases ts rule: p_vt.cases) (auto dest: p_term_shorter split: if_splits)

lemma p_verb_shorter: "p_verb ts = Some (x, r) \<Longrightarrow> length r < length ts"
  by (cases ts rule: p_verb.cases) (auto split: if_splits)

lemma p_triple_shorter: "p_triple ts = Some (x, r) \<Longrightarrow> length r < length ts"
  by (fastforce simp: p_triple_def p_bind_def p_return_def bind_eq_Some_conv dest!: p_vt_shorter p_verb_shorter)

function p_triples :: "tpat list parser" where
  "p_triples ts =
     (case p_triple ts of
        None \<Rightarrow> Some ([], ts)
      | Some (t, r) \<Rightarrow>
          if r \<noteq> [] \<and> hd r = TPunct (CHR ''.'') then map_option (apfst ((#) t)) (p_triples (tl r)) else Some ([t], r))"
  by pat_completeness auto
termination by (relation "measure length") (auto dest!: p_triple_shorter)

declare p_triples.simps [simp del]

fun p_tok :: "token \<Rightarrow> unit parser" where
  "p_tok t [] = None"
| "p_tok t (t' # ts) = (if t' = t then Some ((), ts) else None)"

definition p_braces :: "'a parser \<Rightarrow> 'a parser" where
  "p_braces p = p_bind (p_tok (TPunct (CHR ''{''))) (\<lambda>_. p_bind p (\<lambda>x. p_bind (p_tok (TPunct (CHR ''}''))) (\<lambda>_. p_return x)))"

definition p_block :: "(vt \<times> tpat list) parser" where
  "p_block = p_bind (p_tok (TWord ''GRAPH'')) (\<lambda>_. p_bind p_vt (\<lambda>g. p_bind (p_braces p_triples) (\<lambda>ps. p_return (g, ps))))"

text \<open>As many as there are; a parser that read nothing would be repeated for ever and is refused.\<close>

function p_many :: "'a parser \<Rightarrow> 'a list parser" where
  "p_many p ts =
     (case p ts of
        None \<Rightarrow> Some ([], ts)
      | Some (x, r) \<Rightarrow> if length r < length ts then map_option (apfst ((#) x)) (p_many p r) else None)"
  by pat_completeness auto
termination by (relation "measure (\<lambda>(p, ts). length ts)") auto

declare p_many.simps [simp del]

definition p_alt :: "'a parser \<Rightarrow> 'a parser \<Rightarrow> 'a parser" where
  "p_alt p q ts = (case p ts of None \<Rightarrow> q ts | Some r \<Rightarrow> Some r)"

text \<open>\<open>Quads\<close>: triples, then \<open>GRAPH\<close> blocks.\<close>

definition p_quads :: "quads parser" where
  "p_quads = p_bind p_triples (\<lambda>ps. p_bind (p_many p_block) (\<lambda>bs.
     p_return ((if ps = [] then [] else [(None, ps)]) @ map (apfst Some) bs)))"

definition nonempty :: "'a list parser \<Rightarrow> 'a list parser" where
  "nonempty p = p_bind p (\<lambda>xs ts. if xs = [] then None else Some (xs, ts))"

fun p_var :: "string parser" where
  "p_var (TVar v # ts) = Some (v, ts)"
| "p_var _ = None"

fun p_iri :: "iri parser" where
  "p_iri (TIri i # ts) = Some (i, ts)"
| "p_iri _ = None"

fun p_int :: "nat parser" where
  "p_int (TInt n # ts) = Some (foldl (\<lambda>acc c. 10 * acc + (of_char c - 48)) 0 n, ts)"
| "p_int _ = None"

definition p_parens :: "'a parser \<Rightarrow> 'a parser" where
  "p_parens p = p_bind (p_tok (TPunct (CHR ''(''))) (\<lambda>_. p_bind p (\<lambda>x. p_bind (p_tok (TPunct (CHR '')''))) (\<lambda>_. p_return x)))"

definition p_values :: "elem parser" where
  "p_values = p_bind (p_tok (TWord ''VALUES'')) (\<lambda>_. p_alt
     (p_bind p_var (\<lambda>v. p_bind (p_braces (p_many p_term)) (\<lambda>xs. p_return (ValuesBlock [v] (map (\<lambda>x. [x]) xs)))))
     (p_bind (p_parens (p_many p_var)) (\<lambda>vs. p_bind (p_braces (p_many (p_parens (p_many p_term)))) (\<lambda>rows ts.
        if list_all (\<lambda>r. length r = length vs) rows then Some (ValuesBlock vs rows, ts) else None))))"

definition p_graph_pattern :: "(vt \<times> tpat list) parser" where
  "p_graph_pattern = p_bind p_block (\<lambda>b ts. if snd b = [] then None else Some (b, ts))"

definition p_elem :: "elem parser" where
  "p_elem = p_alt (p_bind p_graph_pattern (\<lambda>(g, ps). p_return (InGraph g ps)))
     (p_alt (p_bind (p_tok (TWord ''FILTER'')) (\<lambda>_. p_bind (p_tok (TWord ''EXISTS'')) (\<lambda>_.
        p_bind (p_braces p_graph_pattern) (\<lambda>(g, ps). p_return (ExistsFilter g ps)))))
     (p_alt p_values (p_bind (nonempty p_triples) (\<lambda>ps. p_return (Bgp ps)))))"

definition p_group :: "elem list parser" where
  "p_group = p_braces (p_many p_elem)"

definition p_clause :: "string \<Rightarrow> 'a parser \<Rightarrow> 'a option parser" where
  "p_clause kw p ts =
     (if ts \<noteq> [] \<and> hd ts = TWord kw then map_option (apfst Some) (p (tl ts)) else Some (None, ts))"

definition p_update :: "update_op parser" where
  "p_update = p_alt
     (p_bind (p_tok (TWord ''DROP'')) (\<lambda>_. p_bind (p_tok (TWord ''SILENT'')) (\<lambda>_. p_bind (p_tok (TWord ''GRAPH'')) (\<lambda>_.
        p_bind p_iri (\<lambda>g. p_return (Drop g))))))
     (p_alt (p_bind (p_tok (TWord ''INSERT'')) (\<lambda>_. p_bind (p_tok (TWord ''DATA'')) (\<lambda>_.
        p_bind (p_braces p_quads) (\<lambda>qs. p_return (DataInsert qs)))))
     (p_alt (p_bind (p_tok (TWord ''DELETE'')) (\<lambda>_. p_bind (p_tok (TWord ''DATA'')) (\<lambda>_.
        p_bind (p_braces p_quads) (\<lambda>qs. p_return (DataDelete qs)))))
     (p_bind (p_clause ''WITH'' p_iri) (\<lambda>w. p_bind (p_clause ''DELETE'' (p_braces p_quads)) (\<lambda>d.
        p_bind (p_clause ''INSERT'' (p_braces p_quads)) (\<lambda>i. p_bind (p_tok (TWord ''WHERE'')) (\<lambda>_.
        p_bind p_group (\<lambda>es ts. if d = None \<and> i = None then None
          else Some (Modify w (case d of None \<Rightarrow> [] | Some q \<Rightarrow> q) (case i of None \<Rightarrow> [] | Some q \<Rightarrow> q) es, ts)))))))))"

function p_sequence :: "token list \<Rightarrow> update_op list option" where
  "p_sequence ts =
     (case p_update ts of
        None \<Rightarrow> None
      | Some (u, r) \<Rightarrow>
          if r = [] \<or> r = [TPunct (CHR '';'')] then Some [u]
          else if hd r = TPunct (CHR '';'') \<and> length r < length ts then map_option ((#) u) (p_sequence (tl r)) else None)"
  by pat_completeness auto
termination by (relation "measure length") auto

declare p_sequence.simps [simp del]

definition read_update :: "string \<Rightarrow> update_op list option" where
  "read_update txt = Option.bind (lex txt) p_sequence"

definition p_query :: "query parser" where
  "p_query = p_alt
     (p_bind (p_tok (TWord ''ASK'')) (\<lambda>_. p_bind p_group (\<lambda>es. p_return (Ask es))))
     (p_alt (p_bind (p_tok (TWord ''CONSTRUCT'')) (\<lambda>_. p_bind (p_braces p_triples) (\<lambda>ps.
        p_bind (p_tok (TWord ''WHERE'')) (\<lambda>_. p_bind p_group (\<lambda>es. p_return (Construct ps es))))))
     (p_bind (p_tok (TWord ''SELECT'')) (\<lambda>_. p_bind (p_alt (p_bind (p_tok (TPunct (CHR ''*''))) (\<lambda>_. p_return None))
          (p_bind (nonempty (p_many p_var)) (\<lambda>vs. p_return (Some vs)))) (\<lambda>vs.
        p_bind (p_tok (TWord ''WHERE'')) (\<lambda>_. p_bind p_group (\<lambda>es.
        p_bind (p_clause ''LIMIT'' p_int) (\<lambda>n. p_return (Select vs es n))))))))"

definition read_query :: "string \<Rightarrow> query option" where
  "read_query txt = Option.bind (lex txt) (\<lambda>ts. case p_query ts of Some (q, []) \<Rightarrow> Some q | _ \<Rightarrow> None)"

section \<open>Meaning\<close>

text \<open>A solution maps variables to terms. The empty name, which is no absolute IRI, stands for the
  default graph of the store.\<close>

type_synonym valuation = "string \<rightharpoonup> rdf_term"

fun inst :: "valuation \<Rightarrow> vt \<Rightarrow> rdf_term option" where
  "inst \<mu> (Var v) = \<mu> v"
| "inst \<mu> (Con t) = Some t"

definition inst_triple :: "valuation \<Rightarrow> tpat \<Rightarrow> raw option" where
  "inst_triple \<mu> p = (case p of (s, p, x) \<Rightarrow>
     Option.bind (inst \<mu> s) (\<lambda>s'. Option.bind (inst \<mu> p) (\<lambda>p'. map_option (\<lambda>x'. (s', p', x')) (inst \<mu> x))))"

definition matched_in :: "triple set \<Rightarrow> valuation \<Rightarrow> tpat list \<Rightarrow> bool" where
  "matched_in G \<mu> ps \<longleftrightarrow> (\<forall>p \<in> set ps. \<exists>t \<in> G. inst_triple \<mu> p = Some (raw_of t))"

fun vt_vars :: "vt \<Rightarrow> string set" where
  "vt_vars (Var v) = {v}"
| "vt_vars (Con t) = {}"

definition tpat_vars :: "tpat list \<Rightarrow> string set" where
  "tpat_vars ps = (\<Union>(s, p, x) \<in> set ps. vt_vars s \<union> vt_vars p \<union> vt_vars x)"

definition in_named :: "graphs \<Rightarrow> valuation \<Rightarrow> vt \<Rightarrow> tpat list \<Rightarrow> bool" where
  "in_named G \<mu> g ps \<longleftrightarrow> (\<exists>n. inst \<mu> g = Some (TermNamed n) \<and> n \<noteq> [] \<and> matched_in (G n) \<mu> ps)"

fun sat :: "graphs \<Rightarrow> iri \<Rightarrow> valuation \<Rightarrow> elem \<Rightarrow> bool" where
  "sat G d \<mu> (Bgp ps) = matched_in (G d) \<mu> ps"
| "sat G d \<mu> (InGraph g ps) = in_named G \<mu> g ps"
| "sat G d \<mu> (ValuesBlock vs rows) = (map \<mu> vs \<in> map Some ` set rows)"
| "sat G d \<mu> (ExistsFilter g ps) = (\<exists>\<nu>. \<mu> \<subseteq>\<^sub>m \<nu> \<and> in_named G \<nu> g ps)"

fun elem_vars :: "elem \<Rightarrow> string set" where
  "elem_vars (Bgp ps) = tpat_vars ps"
| "elem_vars (InGraph g ps) = vt_vars g \<union> tpat_vars ps"
| "elem_vars (ValuesBlock vs rows) = set vs"
| "elem_vars (ExistsFilter g ps) = {}"

definition sols :: "graphs \<Rightarrow> iri \<Rightarrow> elem list \<Rightarrow> valuation set" where
  "sols G d es = {\<mu>. dom \<mu> = \<Union> (elem_vars ` set es) \<and> (\<forall>e \<in> set es. sat G d \<mu> e)}"

text \<open>The quads a template gives for a set of solutions; those that are not quads are left out.\<close>

definition block_graph :: "iri \<Rightarrow> valuation \<Rightarrow> vt option \<Rightarrow> iri option" where
  "block_graph d \<mu> g = (case g of
     None \<Rightarrow> Some d
   | Some v \<Rightarrow> (case inst \<mu> v of Some (TermNamed n) \<Rightarrow> Some n | _ \<Rightarrow> None))"

definition quads_in :: "iri \<Rightarrow> quads \<Rightarrow> valuation set \<Rightarrow> graphs" where
  "quads_in d qs M h = {t. \<exists>\<mu> \<in> M. \<exists>(g, ps) \<in> set qs. block_graph d \<mu> g = Some h \<and>
     (\<exists>p \<in> set ps. inst_triple \<mu> p = Some (raw_of t))}"

fun apply_update :: "update_op \<Rightarrow> graphs \<Rightarrow> graphs" where
  "apply_update (Drop g) G = G(g := {})"
| "apply_update (DataInsert qs) G = (\<lambda>h. G h \<union> quads_in [] qs {Map.empty} h)"
| "apply_update (DataDelete qs) G = (\<lambda>h. G h - quads_in [] qs {Map.empty} h)"
| "apply_update (Modify w dl il es) G =
     (let d = (case w of None \<Rightarrow> [] | Some g \<Rightarrow> g); M = sols G d es
      in (\<lambda>h. (G h - quads_in d dl M h) \<union> quads_in d il M h))"

definition apply_updates :: "update_op list \<Rightarrow> graphs \<Rightarrow> graphs" where
  "apply_updates us G = foldl (\<lambda>G u. apply_update u G) G us"

section \<open>Reading what was written\<close>

text \<open>What may stand between angle brackets, what a literal is, and the tokens of terms and patterns.
  A literal's value may be any string.\<close>

definition plain_iri :: "iri \<Rightarrow> bool" where
  "plain_iri i \<longleftrightarrow> i \<noteq> [] \<and> list_all iri_char i"

fun direction_suffix :: "base_direction option \<Rightarrow> string" where
  "direction_suffix None = []"
| "direction_suffix (Some Ltr) = ''--ltr''"
| "direction_suffix (Some Rtl) = ''--rtl''"

fun plain_tag :: "string \<Rightarrow> bool" where
  "plain_tag [] = False"
| "plain_tag [c] = (lang_char c \<and> c \<noteq> CHR ''-'')"
| "plain_tag (c # d # cs) = (lang_char c \<and> \<not> (c = CHR ''-'' \<and> d = CHR ''-'') \<and> plain_tag (d # cs))"

definition wf_literal :: "literal \<Rightarrow> bool" where
  "wf_literal l \<longleftrightarrow> (case l_language l of
     None \<Rightarrow> l_direction l = None \<and> plain_iri (l_datatype l)
   | Some lang \<Rightarrow> plain_tag lang \<and>
       l_datatype l = (if l_direction l = None then RDF_LANG_STRING else RDF_DIR_LANG_STRING))"

definition literal_tokens :: "literal \<Rightarrow> token list" where
  "literal_tokens l = TStr (l_value l) # (case l_language l of
     None \<Rightarrow> if l_datatype l = XSD_STRING then [] else [TDatatype, TIri (l_datatype l)]
   | Some lang \<Rightarrow> [TLang (lang @ direction_suffix (l_direction l))])"

fun node_tokens :: "node \<Rightarrow> token list" where
  "node_tokens (NamedNode n) = [TIri n]"
| "node_tokens (BlankNode b) = []"

fun term_tokens :: "rdf_term \<Rightarrow> token list" where
  "term_tokens (TermNamed n) = [TIri n]"
| "term_tokens (TermBlank b) = []"
| "term_tokens (TermLiteral l) = literal_tokens l"
| "term_tokens (TermTriple s p x) = TOpenTriple # node_tokens s @ TIri p # term_tokens x @ [TCloseTriple]"

fun printable :: "rdf_term \<Rightarrow> bool" where
  "printable (TermNamed n) = plain_iri n"
| "printable (TermBlank b) = False"
| "printable (TermLiteral l) = wf_literal l"
| "printable (TermTriple s p x) = ((\<exists>n. s = NamedNode n \<and> plain_iri n) \<and> plain_iri p \<and> printable x)"

fun vt_tokens :: "vt \<Rightarrow> token list" where
  "vt_tokens (Var v) = [TVar v]"
| "vt_tokens (Con t) = term_tokens t"

fun printable_vt :: "vt \<Rightarrow> bool" where
  "printable_vt (Var v) = True"
| "printable_vt (Con t) = printable t"

fun printable_verb :: "vt \<Rightarrow> bool" where
  "printable_verb (Var v) = True"
| "printable_verb (Con (TermNamed n)) = plain_iri n"
| "printable_verb _ = False"

definition tpat_tokens :: "tpat \<Rightarrow> token list" where
  "tpat_tokens p = (case p of (s, v, x) \<Rightarrow> vt_tokens s @ vt_tokens v @ vt_tokens x)"

definition printable_tpat :: "tpat \<Rightarrow> bool" where
  "printable_tpat p \<longleftrightarrow> (case p of (s, v, x) \<Rightarrow> printable_vt s \<and> printable_verb v \<and> printable_vt x)"

definition dots :: "tpat list \<Rightarrow> token list" where
  "dots ps = concat (map (\<lambda>p. tpat_tokens p @ [TPunct (CHR ''.'')]) ps)"

subsection \<open>Parsing\<close>

text \<open>A literal ends where no language tag and no datatype follows.\<close>

definition ends_literal :: "token list \<Rightarrow> bool" where
  "ends_literal ts \<longleftrightarrow> (case ts of t # _ \<Rightarrow> t \<noteq> TDatatype \<and> (\<forall>l. t \<noteq> TLang l) | [] \<Rightarrow> True)"

lemma ends_literal_simps [simp]:
  "ends_literal []" "ends_literal (TIri i # ts)" "ends_literal (TVar v # ts)" "ends_literal (TPunct c # ts)"
  "ends_literal (TCloseTriple # ts)" "ends_literal (TWord w # ts)" "ends_literal (TStr s # ts)" "ends_literal (TOpenTriple # ts)"
  by (simp_all add: ends_literal_def)

lemma split_dir_tag: "plain_tag lang \<Longrightarrow> split_dir (lang @ direction_suffix d) = (lang, map_option (case_base_direction ''ltr'' ''rtl'') d)"
proof (induction lang rule: plain_tag.induct)
  case (2 c)
  then show ?case by (cases d rule: direction_suffix.cases) auto
qed (auto simp: prefix_def)

lemma p_term_simple: "ends_literal ts \<Longrightarrow> p_term (TStr v # ts) = Some (TermLiteral (simple_literal v), ts)"
  by (cases "TStr v # ts" rule: p_term.cases) (auto simp: ends_literal_def)

lemma p_term_literal:
  assumes "wf_literal l" "ends_literal ts" shows "p_term (literal_tokens l @ ts) = Some (TermLiteral l, ts)"
proof (cases "l_language l")
  case None
  with assms p_term_simple [of ts "l_value l"] show ?thesis
    by (auto simp: literal_tokens_def wf_literal_def simple_literal_def)
next
  case (Some lang)
  with assms(1) have tag: "plain_tag lang" and dt: "l_datatype l = (if l_direction l = None then RDF_LANG_STRING else RDF_DIR_LANG_STRING)"
    by (auto simp: wf_literal_def)
  have "tagged_literal (l_value l) (lang @ direction_suffix (l_direction l)) = Some l"
    unfolding tagged_literal_def split_dir_tag [OF tag] using Some dt
    by (cases "l_direction l" rule: direction_suffix.cases) (auto simp: language_literal_def)
  with Some show ?thesis by (simp add: literal_tokens_def)
qed

lemma p_term_tokens: "printable t \<Longrightarrow> ends_literal ts \<Longrightarrow> p_term (term_tokens t @ ts) = Some (t, ts)"
  by (induction t arbitrary: ts) (auto simp: p_term_literal)

lemma term_tokens_no_var: "printable t \<Longrightarrow> \<exists>k ks. term_tokens t = k # ks \<and> (\<forall>v. k \<noteq> TVar v)"
  by (cases t) (auto simp: literal_tokens_def)

lemma term_tokens_end [simp]: "printable t \<Longrightarrow> ends_literal (term_tokens t @ ts)"
  by (cases t) (auto simp: literal_tokens_def)

lemma p_vt_tokens: "printable_vt v \<Longrightarrow> ends_literal ts \<Longrightarrow> p_vt (vt_tokens v @ ts) = Some (v, ts)"
proof (cases v)
  case (Con t)
  assume "printable_vt v" "ends_literal ts"
  moreover from this Con obtain k ks where "term_tokens t = k # ks" "\<forall>v. k \<noteq> TVar v"
    by (metis printable_vt.simps(2) term_tokens_no_var)
  ultimately show ?thesis using p_term_tokens [of t ts] Con by (cases k) auto
qed simp

lemma p_verb_tokens: "printable_verb v \<Longrightarrow> p_verb (vt_tokens v @ ts) = Some (v, ts)"
  by (cases v rule: printable_verb.cases) auto

lemma vt_tokens_end [simp]: "printable_vt v \<Longrightarrow> ends_literal (vt_tokens v @ ts)"
  by (cases v) simp_all

lemma verb_tokens_end [simp]: "printable_verb v \<Longrightarrow> ends_literal (vt_tokens v @ ts)"
  by (cases v rule: printable_verb.cases) simp_all

lemma p_triple_tokens: "printable_tpat p \<Longrightarrow> ends_literal ts \<Longrightarrow> p_triple (tpat_tokens p @ ts) = Some (p, ts)"
  by (auto simp: printable_tpat_def tpat_tokens_def p_triple_def p_bind_def p_return_def p_vt_tokens p_verb_tokens split: prod.splits)

text \<open>Triples end at a closing brace or at the keyword of a filter.\<close>

lemma p_triples_none: "p_triples (TPunct c # ts) = Some ([], TPunct c # ts)" "w \<noteq> ''true'' \<Longrightarrow> p_triples (TWord w # ts) = Some ([], TWord w # ts)"
  "p_triples [] = Some ([], [])"
  by (simp_all add: p_triples.simps p_triple_def p_bind_def)

lemma p_triples_dot:
  "printable_tpat p \<Longrightarrow> p_triples (tpat_tokens p @ TPunct (CHR ''.'') # ts) = map_option (apfst ((#) p)) (p_triples ts)"
  by (subst p_triples.simps) (simp add: p_triple_tokens)

lemma p_triples_last:
  "printable_tpat p \<Longrightarrow> p_triples (tpat_tokens p @ TPunct (CHR ''}'') # ts) = Some ([p], TPunct (CHR ''}'') # ts)"
  by (subst p_triples.simps) (simp add: p_triple_tokens)

lemma p_triples_dots: "list_all printable_tpat ps \<Longrightarrow> p_triples (dots ps @ ts) = map_option (apfst ((@) ps)) (p_triples ts)"
  by (induction ps) (simp_all add: dots_def p_triples_dot option.map_comp comp_def apfst_def map_prod_def case_prod_unfold option.map_ident)

text \<open>The triples between two braces, in the one or the other way of placing dots.\<close>

definition triples_body :: "token list \<Rightarrow> tpat list \<Rightarrow> bool" where
  "triples_body b ps \<longleftrightarrow> (\<forall>ts. p_triples (b @ TPunct (CHR ''}'') # ts) = Some (ps, TPunct (CHR ''}'') # ts))"

lemma triples_body_dots: "list_all printable_tpat ps \<Longrightarrow> triples_body (dots ps) ps"
  by (simp add: triples_body_def p_triples_dots p_triples_none)

definition triple_reads :: "token list \<Rightarrow> tpat \<Rightarrow> bool" where
  "triple_reads b p \<longleftrightarrow> (\<forall>ts. ends_literal ts \<longrightarrow> p_triple (b @ ts) = Some (p, ts))"

lemma triple_reads_tokens: "printable_tpat p \<Longrightarrow> triple_reads (tpat_tokens p) p"
  by (simp add: triple_reads_def p_triple_tokens)

lemma triples_body_Cons: "triple_reads b p \<Longrightarrow> triples_body c ps \<Longrightarrow> triples_body (b @ TPunct (CHR ''.'') # c) (p # ps)"
  unfolding triples_body_def by (intro allI, subst p_triples.simps) (simp add: triple_reads_def)

lemma triples_body_one: "triple_reads b p \<Longrightarrow> triples_body b [p]"
  unfolding triples_body_def by (intro allI, subst p_triples.simps) (simp add: triple_reads_def)

lemma p_many_stop: "p ts = None \<Longrightarrow> p_many p ts = Some ([], ts)"
  by (simp add: p_many.simps)

lemma p_many_step: "p ts = Some (x, r) \<Longrightarrow> length r < length ts \<Longrightarrow> p_many p ts = map_option (apfst ((#) x)) (p_many p r)"
  by (subst p_many.simps) simp

lemma p_many_append: "p (b @ r) = Some (x, r) \<Longrightarrow> b \<noteq> [] \<Longrightarrow> p_many p (b @ r) = map_option (apfst ((#) x)) (p_many p r)"
  by (rule p_many_step) simp_all

lemmas parse_simps = p_bind_def p_return_def p_braces_def p_alt_def p_clause_def

definition block_tokens :: "iri \<Rightarrow> token list \<Rightarrow> token list" where
  "block_tokens g b = TWord ''GRAPH'' # TIri g # TPunct (CHR ''{'') # b @ [TPunct (CHR ''}'')]"

lemma p_block_tokens: "triples_body b ps \<Longrightarrow> p_block (block_tokens g b @ ts) = Some ((Con (TermNamed g), ps), ts)"
  by (simp add: p_block_def block_tokens_def parse_simps triples_body_def)

lemma p_block_other [simp]: "p_block (TPunct c # ts) = None"
  by (simp add: p_block_def parse_simps)

lemma p_many_blocks:
  "list_all (\<lambda>(g, b, ps). triples_body b ps) bs \<Longrightarrow>
   p_many p_block (concat (map (\<lambda>(g, b, ps). block_tokens g b) bs) @ TPunct (CHR ''}'') # ts) =
     Some (map (\<lambda>(g, b, ps). (Con (TermNamed g), ps)) bs, TPunct (CHR ''}'') # ts)"
proof (induction bs)
  case (Cons x bs)
  obtain g b ps where x: "x = (g, b, ps)" by (cases x)
  with Cons p_block_tokens [of b ps g] have "p_many p_block (block_tokens g b @ r) = map_option (apfst ((#) (Con (TermNamed g), ps))) (p_many p_block r)" for r
    by (intro p_many_append) (auto simp: block_tokens_def)
  with Cons x show ?case by simp
qed (simp add: p_many_stop)

lemma p_quads_blocks:
  assumes "list_all (\<lambda>(g, b, ps). triples_body b ps) bs"
  shows "p_quads (concat (map (\<lambda>(g, b, ps). block_tokens g b) bs) @ TPunct (CHR ''}'') # ts) =
     Some (map (\<lambda>(g, b, ps). (Some (Con (TermNamed g)), ps)) bs, TPunct (CHR ''}'') # ts)"
proof -
  let ?ts = "concat (map (\<lambda>(g, b, ps). block_tokens g b) bs) @ TPunct (CHR ''}'') # ts"
  have "p_triples ?ts = Some ([], ?ts)"
    by (cases bs) (auto simp: p_triples_none block_tokens_def)
  then show ?thesis
    by (simp add: p_quads_def parse_simps p_many_blocks [OF assms]) auto
qed

lemma p_quads_default: "triples_body b ps \<Longrightarrow>
    p_quads (b @ TPunct (CHR ''}'') # ts) = Some (if ps = [] then [] else [(None, ps)], TPunct (CHR ''}'') # ts)"
  by (simp add: p_quads_def parse_simps triples_body_def p_many_stop)

text \<open>Group graph patterns.\<close>

fun elem_reads :: "token list \<Rightarrow> elem \<Rightarrow> bool" where
  "elem_reads b (InGraph (Con (TermNamed g)) ps) = (ps \<noteq> [] \<and> (\<exists>c. triples_body c ps \<and> b = block_tokens g c))"
| "elem_reads b (ExistsFilter (Con (TermNamed g)) ps) = (ps \<noteq> [] \<and> (\<exists>c. triples_body c ps \<and>
     b = TWord ''FILTER'' # TWord ''EXISTS'' # TPunct (CHR ''{'') # block_tokens g c @ [TPunct (CHR ''}'')]))"
| "elem_reads b e = False"

lemma p_graph_pattern_tokens: "triples_body c ps \<Longrightarrow> ps \<noteq> [] \<Longrightarrow>
    p_graph_pattern (block_tokens g c @ ts) = Some ((Con (TermNamed g), ps), ts)"
  by (simp add: p_graph_pattern_def parse_simps p_block_tokens)

lemma p_elem_reads: "elem_reads b e \<Longrightarrow> p_elem (b @ ts) = Some (e, ts)"
proof (induction b e rule: elem_reads.induct)
  case (2 b g ps)
  then obtain c where c: "ps \<noteq> []" "triples_body c ps"
    and b: "b = TWord ''FILTER'' # TWord ''EXISTS'' # TPunct (CHR ''{'') # block_tokens g c @ [TPunct (CHR ''}'')]" by auto
  have "p_graph_pattern (TWord ''FILTER'' # us) = None" for us by (simp add: p_graph_pattern_def p_block_def parse_simps)
  with c b show ?case by (simp add: p_elem_def parse_simps p_graph_pattern_tokens)
qed (auto simp: p_elem_def parse_simps p_graph_pattern_tokens)

lemma p_elem_stop [simp]: "p_elem (TPunct (CHR ''}'') # ts) = None"
  by (simp add: p_elem_def p_graph_pattern_def p_values_def nonempty_def parse_simps p_triples_none)

lemma elem_reads_Cons: "elem_reads b e \<Longrightarrow> b \<noteq> []"
  by (induction b e rule: elem_reads.induct) (auto simp: block_tokens_def)

lemma p_elems: "list_all (\<lambda>(b, e). elem_reads b e) es \<Longrightarrow>
    p_many p_elem (concat (map fst es) @ TPunct (CHR ''}'') # ts) = Some (map snd es, TPunct (CHR ''}'') # ts)"
proof (induction es)
  case (Cons x es)
  obtain b e where x: "x = (b, e)" by (cases x)
  with Cons p_elem_reads [of b e] have "p_many p_elem (b @ r) = map_option (apfst ((#) e)) (p_many p_elem r)" for r
    by (intro p_many_append) (auto dest: elem_reads_Cons)
  with Cons x show ?case by simp
qed (simp add: p_many_stop)

text \<open>A basic graph pattern stands first in its group.\<close>

lemma p_elem_bgp:
  assumes "list_all printable_tpat ps" "ps \<noteq> []"
    and "ts = TPunct (CHR ''}'') # us \<or> ts = TWord ''FILTER'' # us"
  shows "p_elem (dots ps @ ts) = Some (Bgp ps, ts)"
proof -
  from assms(1,2) obtain p qs where ps: "ps = p # qs" "printable_tpat p" by (cases ps) auto
  obtain s v x where p: "p = (s, v, x)" by (cases p)
  from ps p have "printable_vt s" by (simp add: printable_tpat_def)
  then obtain k ks where k: "dots ps @ ts = k # ks" "\<forall>w. k \<noteq> TWord w"
  proof (cases s)
    case (Con t)
    then show ?thesis using \<open>printable_vt s\<close> that
      by (cases t) (simp_all add: ps p dots_def tpat_tokens_def literal_tokens_def)
  qed (simp add: ps p dots_def tpat_tokens_def)
  then have "p_graph_pattern (dots ps @ ts) = None" "p_tok (TWord w) (dots ps @ ts) = None" for w
    by (auto simp: p_graph_pattern_def p_block_def parse_simps)
  moreover have "p_triples (dots ps @ ts) = Some (ps, ts)"
    using assms by (auto simp: p_triples_dots p_triples_none)
  ultimately show ?thesis
    using assms(2) by (simp add: p_elem_def p_values_def nonempty_def parse_simps)
qed

text \<open>Updates, each up to its last token whatever follows.\<close>

definition op_reads :: "token list \<Rightarrow> update_op \<Rightarrow> bool" where
  "op_reads b u \<longleftrightarrow> b \<noteq> [] \<and> (\<forall>ts. p_update (b @ ts) = Some (u, ts))"

definition braced :: "token list \<Rightarrow> token list" where
  "braced b = TPunct (CHR ''{'') # b @ [TPunct (CHR ''}'')]"

definition quads_reads :: "token list \<Rightarrow> quads \<Rightarrow> bool" where
  "quads_reads b qs \<longleftrightarrow> (\<forall>ts. p_quads (b @ TPunct (CHR ''}'') # ts) = Some (qs, TPunct (CHR ''}'') # ts))"

definition group_reads :: "token list \<Rightarrow> elem list \<Rightarrow> bool" where
  "group_reads b es \<longleftrightarrow> (\<forall>ts. p_many p_elem (b @ TPunct (CHR ''}'') # ts) = Some (es, TPunct (CHR ''}'') # ts))"

lemma quads_reads_blocks:
  "list_all (\<lambda>(g, b, ps). triples_body b ps) bs \<Longrightarrow>
   quads_reads (concat (map (\<lambda>(g, b, ps). block_tokens g b) bs)) (map (\<lambda>(g, b, ps). (Some (Con (TermNamed g)), ps)) bs)"
  by (simp add: quads_reads_def p_quads_blocks)

lemma quads_reads_block: "triples_body b ps \<Longrightarrow> quads_reads (block_tokens g b) [(Some (Con (TermNamed g)), ps)]"
  using quads_reads_blocks [of "[(g, b, ps)]"] by simp

lemma quads_reads_default: "triples_body b ps \<Longrightarrow> quads_reads b (if ps = [] then [] else [(None, ps)])"
  by (simp add: quads_reads_def p_quads_default)

lemma group_reads_Nil: "group_reads [] []"
  by (simp add: group_reads_def p_many_stop)

lemma group_reads_elems: "list_all (\<lambda>(b, e). elem_reads b e) es \<Longrightarrow> group_reads (concat (map fst es)) (map snd es)"
  by (simp add: group_reads_def p_elems)

lemma group_reads_bgp:
  assumes "list_all printable_tpat ps" "ps \<noteq> []" "group_reads b es" "b = [] \<or> hd b = TWord ''FILTER''"
  shows "group_reads (dots ps @ b) (Bgp ps # es)"
  unfolding group_reads_def
proof (intro allI)
  fix ts
  let ?r = "b @ TPunct (CHR ''}'') # ts"
  have "dots ps \<noteq> []" using assms(2) by (cases ps) (auto simp: dots_def)
  moreover obtain us where "?r = TPunct (CHR ''}'') # us \<or> ?r = TWord ''FILTER'' # us"
    using assms(4) by (cases b) auto
  then have "p_elem (dots ps @ ?r) = Some (Bgp ps, ?r)" by (rule p_elem_bgp [OF assms(1,2)])
  ultimately have "p_many p_elem (dots ps @ ?r) = map_option (apfst ((#) (Bgp ps))) (p_many p_elem ?r)"
    by (intro p_many_append)
  with assms(3) show "p_many p_elem ((dots ps @ b) @ TPunct (CHR ''}'') # ts) = Some (Bgp ps # es, TPunct (CHR ''}'') # ts)"
    by (simp add: group_reads_def)
qed

lemmas update_parse = op_reads_def p_update_def parse_simps braced_def quads_reads_def p_group_def group_reads_def

lemma op_reads_drop: "op_reads [TWord ''DROP'', TWord ''SILENT'', TWord ''GRAPH'', TIri g] (Drop g)"
  by (simp add: update_parse)

lemma op_reads_insert_data: "quads_reads b qs \<Longrightarrow> op_reads (TWord ''INSERT'' # TWord ''DATA'' # braced b) (DataInsert qs)"
  by (simp add: update_parse)

lemma op_reads_delete_data: "quads_reads b qs \<Longrightarrow> op_reads (TWord ''DELETE'' # TWord ''DATA'' # braced b) (DataDelete qs)"
  by (simp add: update_parse)

lemma op_reads_delete: "quads_reads b qs \<Longrightarrow> group_reads c es \<Longrightarrow>
    op_reads (TWord ''DELETE'' # braced b @ TWord ''WHERE'' # braced c) (Modify None qs [] es)"
  by (simp add: update_parse)

lemma op_reads_insert: "quads_reads b qs \<Longrightarrow> group_reads c es \<Longrightarrow>
    op_reads (TWord ''INSERT'' # braced b @ TWord ''WHERE'' # braced c) (Modify None [] qs es)"
  by (simp add: update_parse)

lemma op_reads_with: "quads_reads b qs \<Longrightarrow> quads_reads b' qs' \<Longrightarrow> group_reads c es \<Longrightarrow>
    op_reads (TWord ''WITH'' # TIri g # TWord ''DELETE'' # braced b @ TWord ''INSERT'' # braced b' @ TWord ''WHERE'' # braced c)
      (Modify (Some g) qs qs' es)"
  by (simp add: update_parse)

lemma p_sequence_last: "op_reads b u \<Longrightarrow> p_sequence b = Some [u]"
proof -
  assume "op_reads b u"
  then have "p_update b = Some (u, [])" unfolding op_reads_def by (metis append_Nil2)
  then show ?thesis by (simp add: p_sequence.simps)
qed

lemma p_sequence_step: "op_reads b u \<Longrightarrow> ts \<noteq> [] \<Longrightarrow> p_sequence (b @ TPunct (CHR '';'') # ts) = map_option ((#) u) (p_sequence ts)"
  by (subst p_sequence.simps) (auto simp: op_reads_def)

subsection \<open>Scanning\<close>

definition emits :: "token list \<Rightarrow> token list option \<Rightarrow> token list option" where
  "emits ts r = map_option ((@) ts) r"

lemma emits_simps [simp]: "emits ts (Some us) = Some (ts @ us)" "emits [] r = r" "emits ts (emits us r) = emits (ts @ us) r"
  "emit t r = emits [t] r"
  by (cases r; simp add: emits_def emit_def)+

lemma lex_Cons_white: "white c \<Longrightarrow> lex (c # r) = lex r" by simp

lemma takeWhile_all: "list_all P w \<Longrightarrow> (r = [] \<or> \<not> P (hd r)) \<Longrightarrow> takeWhile P (w @ r) = w \<and> dropWhile P (w @ r) = r"
  by (cases r) (auto simp: list_all_iff)

lemma alpha_other: "alpha c \<Longrightarrow> \<not> white c \<and> c \<notin> set (CHR 0x22 # ''#<?@^{}().;*'')"
  by (rule ccontr) (auto simp: white_def alpha_def Let_def)

lemma lex_word: "alpha c \<Longrightarrow> list_all alpha w \<Longrightarrow> lex (c # w @ CHR '' '' # r) = emits [TWord (c # w)] (lex r)"
proof -
  assume c: "alpha c" and w: "list_all alpha w"
  have "\<not> alpha (CHR '' '')" by (simp add: alpha_def)
  then have "takeWhile alpha (w @ CHR '' '' # r) = w" "dropWhile alpha (w @ CHR '' '' # r) = CHR '' '' # r"
    using takeWhile_all [OF w, of "CHR '' '' # r"] by simp_all
  with c alpha_other [OF c] show ?thesis
    by (subst lex.simps) (simp add: lex_Cons_white [of "CHR '' ''"] white_def del: lex.simps)
qed

lemma lex_iri: "plain_iri i \<Longrightarrow> lex (CHR ''<'' # i @ CHR ''>'' # r) = emits [TIri i] (lex r)"
  using takeWhile_all [of iri_char i "CHR ''>'' # r"]
  by (cases i) (auto simp: plain_iri_def white_def iri_char_def)

lemma lex_var:
  "list_all name_char v \<Longrightarrow> v \<noteq> [] \<Longrightarrow> r \<noteq> [] \<Longrightarrow> \<not> name_char (hd r) \<Longrightarrow> lex (CHR ''?'' # v @ r) = emits [TVar v] (lex r)"
  using takeWhile_all [of name_char v r] by (simp add: white_def)

declare lex.simps(2) [simp del]

end
