(* ===== verification/Statements.thy ===== *)
theory Statements
  imports Grammar Edge
begin

text \<open>
  The texts the sources send to the store (the \<open>format!\<close> calls of \<^verbatim>\<open>src/resource.rs\<close>, \<^verbatim>\<open>src/aux.rs\<close>,
  \<^verbatim>\<open>src/container.rs\<close>, \<^verbatim>\<open>src/wac/prp.rs\<close> and \<^verbatim>\<open>src/shapes.rs\<close>) and the store that runs them
  (\<open>OxigraphStore\<close> of \<^verbatim>\<open>src/store.rs\<close>). The other theories work with the operations of \<open>Sparql\<close>; here
  each text is shown to be read, by the grammar of SPARQL, as exactly the operation the model has in its
  place, whatever the client put into it, and that operation to have the meaning SPARQL gives the text.
\<close>

section \<open>Operations as syntax\<close>

definition raw_pat :: "raw \<Rightarrow> tpat" where
  "raw_pat r = (case r of (s, p, x) \<Rightarrow> (Con s, Con p, Con x))"

definition graph_blocks :: "block list \<Rightarrow> quads" where
  "graph_blocks bs = map (\<lambda>(g, ts). (Some (Con (TermNamed g)), map (raw_pat \<circ> raw_of) ts)) bs"

definition default_block :: "raw list \<Rightarrow> quads" where
  "default_block rs = (if rs = [] then [] else [(None, map raw_pat rs)])"

definition guard_elems :: "guard \<Rightarrow> elem list" where
  "guard_elems gd = (case gd of None \<Rightarrow> [] | Some (g, t) \<Rightarrow> [ExistsFilter (Con (TermNamed g)) [raw_pat (raw_of t)]])"

definition SPO :: tpat where "SPO = (Var ''s'', Var ''p'', Var ''o'')"

fun sop_syntax :: "sop \<Rightarrow> update_op" where
  "sop_syntax (DropSilent g) = Drop g"
| "sop_syntax (InsertData bs) = DataInsert (graph_blocks bs)"
| "sop_syntax (DeleteData g ts) = DataDelete (graph_blocks [(g, ts)])"
| "sop_syntax (ClearWhere g gd) =
     Modify None [(Some (Con (TermNamed g)), [SPO])] [] (InGraph (Con (TermNamed g)) [SPO] # guard_elems gd)"
| "sop_syntax (InsertWhere bs gd) = Modify None [] (graph_blocks bs) (guard_elems gd)"
| "sop_syntax (ModifyGround g ds ins gd) =
     Modify (Some g) (default_block ds) (default_block ins)
       ((if ds = [] then [] else [Bgp (map raw_pat ds)]) @ guard_elems gd)"

text \<open>Every name of a graph is there.\<close>

definition guard_named :: "guard \<Rightarrow> bool" where
  "guard_named gd \<longleftrightarrow> (case gd of None \<Rightarrow> True | Some (g, t) \<Rightarrow> g \<noteq> [])"

fun sop_named :: "sop \<Rightarrow> bool" where
  "sop_named (ClearWhere g gd) \<longleftrightarrow> g \<noteq> [] \<and> guard_named gd"
| "sop_named (InsertWhere bs gd) \<longleftrightarrow> guard_named gd"
| "sop_named (ModifyGround g ds ins gd) \<longleftrightarrow> guard_named gd"
| "sop_named _ \<longleftrightarrow> True"

lemma inst_raw_pat [simp]: "inst_triple \<mu> (raw_pat r) = Some r"
  by (cases r) (simp add: raw_pat_def inst_triple_def)

lemma vars_raw_pat [simp]: "tpat_vars (map raw_pat rs) = {}" "tpat_vars (map (raw_pat \<circ> raw_of) ts) = {}"
  by (auto simp: tpat_vars_def raw_pat_def split: prod.splits)

lemma matched_in_raw [simp]: "matched_in G \<mu> (map raw_pat rs) \<longleftrightarrow> set rs \<subseteq> raw_of ` G"
  by (auto simp: matched_in_def)

lemma quads_in_blocks: "quads_in d (graph_blocks bs) M h = (if M = {} then {} else {t. \<exists>ts. (h, ts) \<in> set bs \<and> t \<in> set ts})"
  by (force simp: quads_in_def graph_blocks_def block_graph_def)

lemma quads_in_default:
  "quads_in d (default_block rs) M h = (if M \<noteq> {} \<and> h = d then set (List.map_filter raw_triple rs) else {})"
  by (auto simp: quads_in_def default_block_def block_graph_def set_map_filter_iff raw_triple_iff)

lemma quads_in_Nil [simp]: "quads_in d [] M h = {}"
  by (simp add: quads_in_def)

lemma guard_elems_vars: "\<forall>e \<in> set (guard_elems gd). elem_vars e = {}"
  by (auto simp: guard_elems_def split: option.splits)

lemma guard_elems_sat: "guard_named gd \<Longrightarrow> (\<forall>e \<in> set (guard_elems gd). sat G d \<mu> e) \<longleftrightarrow> guard_holds gd G"
  by (auto simp: guard_elems_def guard_holds_def guard_named_def in_named_def matched_in_def
      intro: exI [of _ \<mu>] split: option.splits)

lemma sols_ground:
  "(\<forall>e \<in> set es. elem_vars e = {}) \<Longrightarrow> sols G d es = (if \<forall>e \<in> set es. sat G d Map.empty e then {Map.empty} else {})"
  by (auto simp: sols_def)

lemma exec_InsertBlocks: "insert_blocks bs G = (\<lambda>h. G h \<union> {t. \<exists>ts. (h, ts) \<in> set bs \<and> t \<in> set ts})"
  by (auto simp: fun_eq_iff insert_blocks_iff)

text \<open>Every triple of a graph is an instance of the pattern with three variables.\<close>

lemma inst_SPO: "inst_triple \<mu> SPO = Some (s, p, x) \<longleftrightarrow> \<mu> ''s'' = Some s \<and> \<mu> ''p'' = Some p \<and> \<mu> ''o'' = Some x"
  by (auto simp: SPO_def inst_triple_def bind_eq_Some_conv)

lemma SPO_solution: "\<exists>\<mu>. dom \<mu> = {''s'', ''p'', ''o''} \<and> inst_triple \<mu> SPO = Some r"
  by (cases r) (auto simp: inst_SPO intro!: exI [of _ "[''s'' \<mapsto> fst r, ''p'' \<mapsto> fst (snd r), ''o'' \<mapsto> snd (snd r)]"] split: if_splits)

lemma vars_SPO [simp]: "tpat_vars [SPO] = {''s'', ''p'', ''o''}"
  by (auto simp: tpat_vars_def SPO_def)

lemma run_sop: "sop_named u \<Longrightarrow> apply_update (sop_syntax u) G = exec_op u G"
proof (cases u)
  case (ClearWhere g gd)
  assume named: "sop_named u"
  let ?M = "sols G [] (InGraph (Con (TermNamed g)) [SPO] # guard_elems gd)"
  have M: "\<mu> \<in> ?M \<longleftrightarrow> dom \<mu> = {''s'', ''p'', ''o''} \<and> (\<exists>t \<in> G g. inst_triple \<mu> SPO = Some (raw_of t)) \<and> guard_holds gd G" for \<mu>
    using named guard_elems_sat [of gd G "[]"] guard_elems_vars [of gd]
    by (auto simp: ClearWhere sols_def in_named_def matched_in_def)
  have block: "t \<in> quads_in [] [(Some (Con (TermNamed g)), [SPO])] ?M h \<longleftrightarrow>
      h = g \<and> (\<exists>\<mu> \<in> ?M. inst_triple \<mu> SPO = Some (raw_of t))" for h t
    by (auto simp: quads_in_def block_graph_def)
  have "(\<exists>\<mu> \<in> ?M. inst_triple \<mu> SPO = Some (raw_of t)) \<longleftrightarrow> guard_holds gd G \<and> t \<in> G g" for t
    unfolding Bex_def M using SPO_solution [of "raw_of t"] raw_of_inject by (metis option.inject)
  then show ?thesis by (auto simp: ClearWhere fun_eq_iff block)
next
  case (InsertWhere bs gd)
  assume named: "sop_named u"
  then have "sols G [] (guard_elems gd) = (if guard_holds gd G then {Map.empty} else {})"
    using guard_elems_vars [of gd] guard_elems_sat [of gd G "[]" Map.empty] by (subst sols_ground) (auto simp: InsertWhere)
  then show ?thesis by (simp add: InsertWhere exec_InsertBlocks quads_in_blocks)
next
  case (ModifyGround g ds ins gd)
  assume named: "sop_named u"
  let ?es = "(if ds = [] then [] else [Bgp (map raw_pat ds)]) @ guard_elems gd"
  have "sols G g ?es = (if set ds \<subseteq> raw_of ` G g \<and> guard_holds gd G then {Map.empty} else {})"
    using guard_elems_vars [of gd] guard_elems_sat [of gd G g Map.empty] named
    by (subst sols_ground) (auto simp: ModifyGround)
  moreover have "set ds \<subseteq> raw_of ` G g \<Longrightarrow> G g - set (List.map_filter raw_triple ds) = {t \<in> G g. raw_of t \<notin> set ds}"
    by (auto simp: set_map_filter_iff raw_triple_iff)
  ultimately show ?thesis by (auto simp: ModifyGround quads_in_default fun_eq_iff)
qed (auto simp: fun_eq_iff exec_InsertBlocks quads_in_blocks insert_blocks_iff)

lemma run_sops: "list_all sop_named us \<Longrightarrow> apply_updates (map sop_syntax us) G = exec us G"
  by (induction us arbitrary: G) (simp_all add: apply_updates_def run_sop)

section \<open>Terms as text\<close>

text \<open>\<open>Display\<close> of \<open>oxrdf\<close>'s \<open>NamedNode\<close>, \<open>Literal\<close> and \<open>Term\<close>, which is documented to write the form
  N-Triples and SPARQL share: followed by white space, it is scanned as the tokens of the term. The
  string of a literal may hold anything.\<close>

record display =
  d_named :: "iri \<Rightarrow> string"
  d_literal :: "literal \<Rightarrow> string"
  d_term :: "rdf_term \<Rightarrow> string"

locale sparql_display =
  fixes D :: display
  assumes named: "plain_iri n \<Longrightarrow> lex (d_named D n @ CHR '' '' # r) = emits [TIri n] (lex r)"
    and literal: "wf_literal l \<Longrightarrow> lex (d_literal D l @ CHR '' '' # r) = emits (literal_tokens l) (lex r)"
    and nested: "printable t \<Longrightarrow> lex (d_term D t @ CHR '' '' # r) = emits (term_tokens t) (lex r)"

definition show_ground :: "display \<Rightarrow> ground_term \<Rightarrow> string" where
  "show_ground D t = (case t of
     GroundNamed n \<Rightarrow> d_named D n
   | GroundLiteral l \<Rightarrow> d_literal D l
   | GroundTriple _ _ _ \<Rightarrow> d_term D (term_of_ground t))"

text \<open>\<open>serialize_for_insert\<close>, as the text it is.\<close>

definition insert_body :: "display \<Rightarrow> skolemized \<Rightarrow> string" where
  "insert_body D quads = concat (map (\<lambda>q. d_named D (g_subject q) @ '' '' @ d_named D (g_predicate q) @ '' ''
     @ show_ground D (g_object q) @ '' .'' @ [CHR 0x0A]) quads)"

text \<open>The terms of a pattern: \<open>render_term\<close>, \<open>render_patterns\<close>, and \<open>substitute\<close> on what it has bound.\<close>

fun render_term :: "display \<Rightarrow> pattern_term \<Rightarrow> string" where
  "render_term D (PNamed n) = d_named D n"
| "render_term D (PLiteral l) = d_literal D l"
| "render_term D (PVar i) = ''?v'' @ show_nat i"

definition render_patterns :: "display \<Rightarrow> pattern list \<Rightarrow> string" where
  "render_patterns D ps = concat (map (\<lambda>p. render_term D (p_subject p) @ '' '' @ render_term D (p_predicate p) @ '' ''
     @ render_term D (p_object p) @ '' . '') ps)"

definition bound_text :: "display \<Rightarrow> rdf_term \<Rightarrow> string" where
  "bound_text D t = (case t of TermNamed n \<Rightarrow> d_named D n | TermLiteral l \<Rightarrow> d_literal D l | _ \<Rightarrow> d_term D t)"

definition ground_text :: "display \<Rightarrow> raw list \<Rightarrow> string" where
  "ground_text D rs = concat (map (\<lambda>(s, p, x). bound_text D s @ '' '' @ bound_text D p @ '' '' @ bound_text D x @ '' . '') rs)"

definition render_bound_text :: "display \<Rightarrow> rdf_term \<Rightarrow> resource_error + string" where
  "render_bound_text D t = (case t of
     TermNamed n \<Rightarrow> Inr (d_named D n)
   | TermLiteral l \<Rightarrow> Inr (d_literal D l)
   | _ \<Rightarrow> Inl (StoreErr (Backend ''a solution bound a term the store cannot hold'')))"

fun ground_term_text :: "display \<Rightarrow> pattern_term \<Rightarrow> solution list \<Rightarrow> resource_error + string" where
  "ground_term_text D (PVar i) bindings =
     (case Option.bind (case bindings of [] \<Rightarrow> None | s # _ \<Rightarrow> Some s) (\<lambda>s. map_of s i) of
        None \<Rightarrow> Inl (StoreErr (Backend ''a projected variable came back unbound''))
      | Some bound \<Rightarrow> render_bound_text D bound)"
| "ground_term_text D t bindings = Inr (render_term D t)"

fun substitute_text :: "display \<Rightarrow> pattern list \<Rightarrow> solution list \<Rightarrow> resource_error + string" where
  "substitute_text D [] bindings = Inr []"
| "substitute_text D (p # ps) bindings =
     res_bind (ground_term_text D (p_subject p) bindings) (\<lambda>s.
     res_bind (ground_term_text D (p_predicate p) bindings) (\<lambda>pr.
     res_bind (ground_term_text D (p_object p) bindings) (\<lambda>x.
     res_bind (substitute_text D ps bindings) (\<lambda>rest. Inr (s @ '' '' @ pr @ '' '' @ x @ '' '' @ ''. '' @ rest)))))"

text \<open>The text \<open>substitute\<close> makes is that of the triples the model's \<open>substitute\<close> makes, errors included.\<close>

lemma render_bound_text_eq: "render_bound_text D t = res_bind (render_bound t) (\<lambda>u. Inr (bound_text D u))"
  by (cases t) (simp_all add: render_bound_text_def render_bound_def bound_text_def)

lemma ground_term_text_eq: "ground_term_text D t b = res_bind (ground_pterm t b) (\<lambda>u. Inr (bound_text D u))"
  by (cases t) (auto simp: bound_text_def render_bound_text_eq split: option.splits list.splits)

lemma substitute_text_eq: "substitute_text D ps b = res_bind (substitute ps b) (\<lambda>rs. Inr (ground_text D rs))"
  by (induction ps) (auto simp: ground_term_text_eq ground_text_def res_bind_def split: sum.splits)

section \<open>Updates as text\<close>

definition drop_text :: "iri \<Rightarrow> string" where
  "drop_text g = ''DROP SILENT GRAPH <'' @ g @ ''>''"

definition present_text :: "iri \<Rightarrow> string" where
  "present_text g = ''<'' @ g @ ''> <'' @ SYS_PRESENT @ ''> true''"

type_synonym ground_shelf = "iri \<times> iri \<times> skolemized"

definition registry_text :: "display \<Rightarrow> iri \<Rightarrow> string \<Rightarrow> ground_shelf list \<Rightarrow> string" where
  "registry_text D iri mt shelves =
     present_text iri @ '' . <'' @ iri @ ''> <'' @ SYS_MEDIA_TYPE @ ''> '' @ d_literal D (simple_literal mt) @ '' . ''
     @ concat (map (\<lambda>(k, name, _). ''<'' @ iri @ ''> <'' @ SYS_HAS_SUBGRAPH @ ''> <'' @ k @ ''> . <'' @ k @ ''> <''
         @ SYS_GRAPH_NAME @ ''> <'' @ name @ ''> . '') shelves)"

definition shelves_text :: "display \<Rightarrow> ground_shelf list \<Rightarrow> string" where
  "shelves_text D shelves = concat (map (\<lambda>(k, _, qs). ''GRAPH <'' @ k @ ''> { '' @ insert_body D qs @ '' } '') shelves)"

definition put_dataset_text :: "display \<Rightarrow> iri \<Rightarrow> iri list \<Rightarrow> skolemized \<Rightarrow> ground_shelf list \<Rightarrow> string \<Rightarrow> string" where
  "put_dataset_text D iri registered df shelves mt =
     concat (map (\<lambda>k. drop_text k @ ''; '') registered) @ concat (map (\<lambda>(k, _, _). drop_text k @ ''; '') shelves)
     @ drop_text iri @ ''; '' @ drop_text (sys_graph_iri iri) @ ''; ''
     @ ''INSERT DATA { '' @ ''GRAPH <'' @ iri @ ''> { '' @ insert_body D df @ '' } ''
     @ shelves_text D shelves @ ''}; ''
     @ ''INSERT DATA { GRAPH <'' @ sys_graph_iri iri @ ''> { '' @ registry_text D iri mt shelves @ '' } }''"

definition put_blob_text :: "display \<Rightarrow> iri \<Rightarrow> iri list \<Rightarrow> string \<Rightarrow> string" where
  "put_blob_text D iri registered mt =
     concat (map (\<lambda>k. drop_text k @ ''; '') registered) @ drop_text iri @ ''; '' @ drop_text (sys_graph_iri iri) @ ''; ''
     @ ''INSERT DATA { GRAPH <'' @ sys_graph_iri iri @ ''> { '' @ present_text iri @ '' . <'' @ iri @ ''> <'' @ RDF_TYPE
     @ ''> <'' @ SYS_BINARY_RESOURCE @ ''> . <'' @ iri @ ''> <'' @ SYS_MEDIA_TYPE @ ''> '' @ d_literal D (simple_literal mt) @ '' } }''"

definition mark_text :: "iri \<Rightarrow> string" where
  "mark_text iri = ''INSERT DATA { GRAPH <'' @ sys_graph_iri iri @ ''> { '' @ present_text iri @ '' } }''"

definition insert_marked_text :: "display \<Rightarrow> iri \<Rightarrow> skolemized \<Rightarrow> string" where
  "insert_marked_text D iri body =
     ''INSERT DATA { GRAPH <'' @ iri @ ''> { '' @ insert_body D body @ '' } }; '' @ mark_text iri"

definition put_rdf_text :: "display \<Rightarrow> iri \<Rightarrow> skolemized \<Rightarrow> string" where
  "put_rdf_text D iri body = drop_text iri @ ''; '' @ insert_marked_text D iri body"

definition delete_rdf_text :: "iri \<Rightarrow> string" where
  "delete_rdf_text iri = drop_text iri @ ''; '' @ drop_text (sys_graph_iri iri)"

definition guard_text :: "iri \<Rightarrow> string" where
  "guard_text subject = ''FILTER EXISTS { GRAPH <'' @ sys_graph_iri subject @ ''> { '' @ present_text subject @ '' } }''"

definition conditional_put_text :: "display \<Rightarrow> aux_url \<Rightarrow> skolemized \<Rightarrow> string" where
  "conditional_put_text D a body =
     (let iri = a_iri a; gd = guard_text (r_iri (a_subject a)) in
      ''DELETE { GRAPH <'' @ iri @ ''> { ?s ?p ?o } } WHERE { GRAPH <'' @ iri @ ''> { ?s ?p ?o } '' @ gd @ '' }; ''
      @ ''INSERT { GRAPH <'' @ iri @ ''> { '' @ insert_body D body @ '' } GRAPH <'' @ sys_graph_iri iri @ ''> { ''
      @ present_text iri @ '' } } WHERE { '' @ gd @ '' }'')"

definition containment_removal_text :: "display \<Rightarrow> iri \<Rightarrow> iri \<Rightarrow> string" where
  "containment_removal_text D p c =
     ''DELETE DATA { GRAPH <'' @ p @ ''> { <'' @ p @ ''> <'' @ LDP_CONTAINS @ ''> '' @ d_named D c @ '' } }''"

definition delete_subject_text :: "display \<Rightarrow> resource_url \<Rightarrow> iri list \<Rightarrow> string" where
  "delete_subject_text D u registered =
     join_with ''; ''
       (map drop_text registered @ [drop_text (r_iri u), drop_text (sys_graph_iri (r_iri u))]
        @ concat (map (\<lambda>k. [drop_text (a_iri (url_aux u k)), drop_text (sys_graph_iri (a_iri (url_aux u k)))]) aux_kind_all)
        @ (case parent u of None \<Rightarrow> [] | Some p \<Rightarrow> [containment_removal_text D (container_iri p) (r_iri u)]))"

text \<open>The update of \<open>patch_guarded\<close>, with its guard or the empty string.\<close>

definition patch_text :: "display \<Rightarrow> iri \<Rightarrow> raw list \<Rightarrow> raw list \<Rightarrow> string \<Rightarrow> string" where
  "patch_text D iri ds ins gd =
     ''WITH <'' @ iri @ ''> DELETE { '' @ ground_text D ds @ '' } INSERT { '' @ ground_text D ins @ '' } WHERE { ''
     @ ground_text D ds @ '' '' @ gd @ '' }''"

section \<open>Scanning the texts\<close>

lemma lex_spaces [simp]: "lex (CHR '' '' # r) = lex r" "lex (CHR 0x0A # r) = lex r"
  by (simp_all add: lex.simps white_def)

lemma lex_punctuation [simp]:
  "lex (CHR ''{'' # r) = emits [TPunct (CHR ''{'')] (lex r)" "lex (CHR ''}'' # r) = emits [TPunct (CHR ''}'')] (lex r)"
  "lex (CHR ''.'' # r) = emits [TPunct (CHR ''.'')] (lex r)" "lex (CHR '';'' # r) = emits [TPunct (CHR '';'')] (lex r)"
  "lex (CHR ''('' # r) = emits [TPunct (CHR ''('')] (lex r)" "lex (CHR ''*'' # r) = emits [TPunct (CHR ''*'')] (lex r)"
  "lex (CHR '')'' # CHR '' '' # r) = emits [TPunct (CHR '')'')] (lex r)"
  by (simp_all add: lex.simps white_def)

lemma lex_words:
  "lex (''DROP '' @ r) = emits [TWord ''DROP''] (lex r)" "lex (''SILENT '' @ r) = emits [TWord ''SILENT''] (lex r)"
  "lex (''GRAPH '' @ r) = emits [TWord ''GRAPH''] (lex r)" "lex (''INSERT '' @ r) = emits [TWord ''INSERT''] (lex r)"
  "lex (''DATA '' @ r) = emits [TWord ''DATA''] (lex r)" "lex (''DELETE '' @ r) = emits [TWord ''DELETE''] (lex r)"
  "lex (''WHERE '' @ r) = emits [TWord ''WHERE''] (lex r)" "lex (''WITH '' @ r) = emits [TWord ''WITH''] (lex r)"
  "lex (''FILTER '' @ r) = emits [TWord ''FILTER''] (lex r)" "lex (''EXISTS '' @ r) = emits [TWord ''EXISTS''] (lex r)"
  "lex (''true '' @ r) = emits [TWord ''true''] (lex r)" "lex (''ASK '' @ r) = emits [TWord ''ASK''] (lex r)"
  "lex (''CONSTRUCT '' @ r) = emits [TWord ''CONSTRUCT''] (lex r)" "lex (''SELECT '' @ r) = emits [TWord ''SELECT''] (lex r)"
  "lex (''VALUES '' @ r) = emits [TWord ''VALUES''] (lex r)" "lex (''LIMIT '' @ r) = emits [TWord ''LIMIT''] (lex r)"
  "lex (''?s '' @ r) = emits [TVar ''s''] (lex r)" "lex (''?p '' @ r) = emits [TVar ''p''] (lex r)"
  "lex (''?o '' @ r) = emits [TVar ''o''] (lex r)" "lex (''?g '' @ r) = emits [TVar ''g''] (lex r)"
  "lex (''?g) '' @ r) = emits [TVar ''g'', TPunct (CHR '')'')] (lex r)" "lex (''?sys '' @ r) = emits [TVar ''sys''] (lex r)"
  "lex (''?n '' @ r) = emits [TVar ''n''] (lex r)" "lex (''?m '' @ r) = emits [TVar ''m''] (lex r)"
  "lex (''?x '' @ r) = emits [TVar ''x''] (lex r)" "lex ''2'' = Some [TInt ''2'']"
  by (simp_all add: lex.simps white_def name_char_def alpha_def digit_def Let_def)

lemmas lex_fixed [simp] = lex_words [simplified append_Cons append_Nil]

declare lex_iri [simp]

lemma plain_constants [simp]:
  "plain_iri SYS_PRESENT" "plain_iri SYS_MEDIA_TYPE" "plain_iri SYS_HAS_SUBGRAPH" "plain_iri SYS_GRAPH_NAME"
  "plain_iri SYS_BINARY_RESOURCE" "plain_iri RDF_TYPE" "plain_iri LDP_CONTAINS" "plain_iri XSD_STRING"
  by code_simp+

lemma plain_append: "plain_iri i \<Longrightarrow> list_all iri_char j \<Longrightarrow> plain_iri (j @ i)"
  by (simp add: plain_iri_def)

lemma plain_sys [simp]: "plain_iri i \<Longrightarrow> plain_iri (sys_graph_iri i)"
  unfolding sys_graph_iri_def by (rule plain_append, assumption) code_simp

lemma wf_simple [simp]: "wf_literal (simple_literal v)"
  by (simp add: wf_literal_def simple_literal_def)

definition drop_tokens :: "iri \<Rightarrow> token list" where
  "drop_tokens g = [TWord ''DROP'', TWord ''SILENT'', TWord ''GRAPH'', TIri g]"

definition present_tokens :: "iri \<Rightarrow> token list" where
  "present_tokens g = [TIri g, TIri SYS_PRESENT, TWord ''true'']"

lemma lex_drop [simp]: "plain_iri g \<Longrightarrow> lex (drop_text g @ r) = emits (drop_tokens g) (lex r)"
  by (simp add: drop_text_def drop_tokens_def)

lemma lex_present [simp]: "plain_iri g \<Longrightarrow> lex (present_text g @ CHR '' '' # r) = emits (present_tokens g) (lex r)"
  by (simp add: present_text_def present_tokens_def)

lemma present_reads: "triple_reads (present_tokens g) (raw_pat (raw_of (present_triple g)))"
  by (simp add: triple_reads_def present_tokens_def p_triple_def p_bind_def p_return_def raw_pat_def raw_of_def present_triple_def)

text \<open>Ground content that has a text: every IRI plain, every literal well-formed.\<close>

definition printable_quad :: "ground_quad \<Rightarrow> bool" where
  "printable_quad q \<longleftrightarrow> plain_iri (g_subject q) \<and> plain_iri (g_predicate q) \<and> printable (term_of_ground (g_object q))"

definition printable_raw :: "raw \<Rightarrow> bool" where
  "printable_raw r \<longleftrightarrow> printable_tpat (raw_pat r)"

abbreviation triple_pat :: "triple \<Rightarrow> tpat" where
  "triple_pat t \<equiv> raw_pat (raw_of t)"

lemma printable_quad_pat: "printable_quad q \<Longrightarrow> printable_tpat (triple_pat (ground_triple q))"
  by (simp add: printable_quad_def printable_tpat_def raw_pat_def raw_of_def ground_triple_def)

lemma printable_body: "list_all printable_quad qs \<Longrightarrow> list_all printable_tpat (map triple_pat (serialize_for_insert qs))"
  by (auto simp: list_all_iff serialize_for_insert_def printable_quad_pat)

context sparql_display
begin

lemma lex_ground: "printable (term_of_ground t) \<Longrightarrow> lex (show_ground D t @ CHR '' '' # r) = emits (term_tokens (term_of_ground t)) (lex r)"
  by (cases t) (simp_all add: show_ground_def named literal nested)

lemma lex_bound: "printable t \<Longrightarrow> lex (bound_text D t @ CHR '' '' # r) = emits (term_tokens t) (lex r)"
  by (cases t) (simp_all add: bound_text_def named literal nested)

lemma lex_insert_body:
  "list_all printable_quad qs \<Longrightarrow>
     lex (insert_body D qs @ r) = emits (dots (map triple_pat (serialize_for_insert qs))) (lex r)"
proof (induction qs)
  case (Cons q qs)
  then show ?case
    by (simp add: insert_body_def dots_def serialize_for_insert_def printable_quad_def named lex_ground
        tpat_tokens_def raw_pat_def raw_of_def ground_triple_def)
qed (simp add: insert_body_def dots_def serialize_for_insert_def)

lemma lex_ground_text: "list_all printable_raw rs \<Longrightarrow> lex (ground_text D rs @ r) = emits (dots (map raw_pat rs)) (lex r)"
proof (induction rs)
  case (Cons x rs)
  obtain s p y where x: "x = (s, p, y)" by (cases x)
  with Cons have "printable s" "printable p" "printable y"
    by (auto simp: printable_raw_def printable_tpat_def raw_pat_def elim: printable_verb.elims)
  with Cons show ?case
    by (simp add: x ground_text_def dots_def lex_bound tpat_tokens_def raw_pat_def)
qed (simp add: ground_text_def dots_def)

lemmas lex_texts = lex_insert_body lex_ground_text named literal

end

text \<open>The shelves of \<open>put_dataset\<close>.\<close>

abbreviation shelved :: "ground_shelf list \<Rightarrow> shelf list" where
  "shelved sh \<equiv> map (\<lambda>(k, n, qs). (k, n, serialize_for_insert qs)) sh"

definition printable_shelf :: "ground_shelf \<Rightarrow> bool" where
  "printable_shelf s \<longleftrightarrow> (case s of (k, n, qs) \<Rightarrow> plain_iri k \<and> plain_iri n \<and> list_all printable_quad qs)"

definition reads_as :: "string \<Rightarrow> sop list \<Rightarrow> bool" where
  "reads_as txt us \<longleftrightarrow> read_update txt = Some (map sop_syntax us)"

definition op_tokens :: "token list list \<Rightarrow> token list" where
  "op_tokens bs = concat (map (\<lambda>b. b @ [TPunct (CHR '';'')]) bs)"

lemma reads_asI:
  assumes "lex txt = Some (op_tokens bs @ b)" and "list_all2 (\<lambda>b u. op_reads b (sop_syntax u)) bs us" and "op_reads b (sop_syntax u)"
  shows "reads_as txt (us @ [u])"
proof -
  have "p_sequence (op_tokens bs @ b) = map_option ((@) (map sop_syntax us)) (p_sequence b)"
    using assms(2)
  proof (induction rule: list_all2_induct)
    case (Cons c cs v vs)
    have "op_tokens cs @ b \<noteq> []" using assms(3) by (simp add: op_reads_def)
    from p_sequence_step [OF Cons(1) this] Cons show ?case by (simp add: op_tokens_def option.map_comp comp_def)
  qed (cases "p_sequence b"; simp add: op_tokens_def)
  with assms(1,3) show ?thesis by (simp add: reads_as_def read_update_def p_sequence_last)
qed

lemma op_reads_DropSilent [simp]: "op_reads (drop_tokens g) (Drop g)"
  using op_reads_drop [of g] by (simp add: drop_tokens_def)

lemma op_reads_InsertData:
  assumes "list_all (\<lambda>(g, b, ts). triples_body b (map triple_pat ts)) bs"
  shows "op_reads (TWord ''INSERT'' # TWord ''DATA'' # braced (concat (map (\<lambda>(g, b, ts). block_tokens g b) bs)))
    (sop_syntax (InsertData (map (\<lambda>(g, b, ts). (g, ts)) bs)))"
proof -
  let ?bs = "map (\<lambda>(g, b, ts). (g, b, map triple_pat ts)) bs"
  have "list_all (\<lambda>(g, b, ps). triples_body b ps) ?bs" using assms by (auto simp: list_all_iff)
  from quads_reads_blocks [OF this]
  have "quads_reads (concat (map (\<lambda>(g, b, ts). block_tokens g b) bs)) (graph_blocks (map (\<lambda>(g, b, ts). (g, ts)) bs))"
    by (simp add: graph_blocks_def comp_def case_prod_unfold)
  then show ?thesis by (simp add: op_reads_insert_data)
qed

lemma triples_body_quads: "list_all printable_quad qs \<Longrightarrow> triples_body (dots (map triple_pat (serialize_for_insert qs))) (map triple_pat (serialize_for_insert qs))"
  by (rule triples_body_dots) (rule printable_body)

lemma op_reads_mark:
  "op_reads (TWord ''INSERT'' # TWord ''DATA'' # braced (block_tokens (sys_graph_iri i) (present_tokens i)))
     (sop_syntax (InsertData [(sys_graph_iri i, [present_triple i])]))"
  using op_reads_InsertData [of "[(sys_graph_iri i, present_tokens i, [present_triple i])]"]
  by (simp add: triples_body_one [OF present_reads])

definition guard_tokens :: "iri \<Rightarrow> token list" where
  "guard_tokens i = TWord ''FILTER'' # TWord ''EXISTS'' # braced (block_tokens (sys_graph_iri i) (present_tokens i))"

lemma lex_guard [simp]: "plain_iri i \<Longrightarrow> lex (guard_text i @ r) = emits (guard_tokens i) (lex r)"
  by (simp add: guard_text_def guard_tokens_def braced_def block_tokens_def)

lemma guard_reads:
  "group_reads (guard_tokens i) (guard_elems (Some (sys_graph_iri i, present_triple i)))"
  using group_reads_elems [of "[(guard_tokens i, ExistsFilter (Con (TermNamed (sys_graph_iri i))) [triple_pat (present_triple i)])]"]
    triples_body_one [OF present_reads [of i]]
  by (auto simp: guard_elems_def guard_tokens_def braced_def)

lemma SPO_reads: "triple_reads [TVar ''s'', TVar ''p'', TVar ''o''] SPO"
  by (simp add: triple_reads_def p_triple_def p_bind_def p_return_def SPO_def)

lemma clear_reads:
  "op_reads (TWord ''DELETE'' # braced (block_tokens g [TVar ''s'', TVar ''p'', TVar ''o'']) @ TWord ''WHERE''
       # braced (block_tokens g [TVar ''s'', TVar ''p'', TVar ''o''] @ guard_tokens i))
     (sop_syntax (ClearWhere g (Some (sys_graph_iri i, present_triple i))))"
proof -
  let ?spo = "[TVar ''s'', TVar ''p'', TVar ''o'']" and ?gd = "ExistsFilter (Con (TermNamed (sys_graph_iri i))) [triple_pat (present_triple i)]"
  have spo: "triples_body ?spo [SPO]" by (rule triples_body_one [OF SPO_reads])
  have "group_reads (block_tokens g ?spo @ guard_tokens i) [InGraph (Con (TermNamed g)) [SPO], ?gd]"
    using group_reads_elems [of "[(block_tokens g ?spo, InGraph (Con (TermNamed g)) [SPO]), (guard_tokens i, ?gd)]"]
      spo triples_body_one [OF present_reads [of i]] by (auto simp: guard_tokens_def braced_def)
  from op_reads_delete [OF quads_reads_block [OF spo] this] show ?thesis by (simp add: guard_elems_def)
qed

context sparql_display
begin

lemma put_rdf_reads:
  assumes "plain_iri i" "list_all printable_quad body"
  shows "reads_as (insert_marked_text D i body) (insert_marked_update i (serialize_for_insert body))"
    and "reads_as (put_rdf_text D i body) (put_rdf_update i (serialize_for_insert body))"
proof -
  let ?b = "TWord ''INSERT'' # TWord ''DATA'' # braced (block_tokens i (dots (map triple_pat (serialize_for_insert body))))"
  let ?m = "TWord ''INSERT'' # TWord ''DATA'' # braced (block_tokens (sys_graph_iri i) (present_tokens i))"
  have op: "op_reads ?b (sop_syntax (InsertData [(i, serialize_for_insert body)]))"
    using op_reads_InsertData [of "[(i, dots (map triple_pat (serialize_for_insert body)), serialize_for_insert body)]"]
      triples_body_quads [OF assms(2)] by simp
  have lexed: "lex (insert_marked_text D i body) = Some (op_tokens [?b] @ ?m)"
    using assms by (simp add: insert_marked_text_def mark_text_def lex_texts op_tokens_def braced_def block_tokens_def)
  then show "reads_as (insert_marked_text D i body) (insert_marked_update i (serialize_for_insert body))"
    using reads_asI [of _ "[?b]" ?m "[InsertData [(i, serialize_for_insert body)]]"] op op_reads_mark
    by (simp add: insert_marked_update_def)
  have "lex (put_rdf_text D i body) = Some (op_tokens [drop_tokens i, ?b] @ ?m)"
    using assms(1) lexed by (simp add: put_rdf_text_def op_tokens_def)
  then show "reads_as (put_rdf_text D i body) (put_rdf_update i (serialize_for_insert body))"
    using reads_asI [of _ "[drop_tokens i, ?b]" ?m "[DropSilent i, InsertData [(i, serialize_for_insert body)]]"]
      op op_reads_mark op_reads_DropSilent by (simp add: put_rdf_update_def)
qed

lemma lex_drops: "list_all plain_iri ks \<Longrightarrow>
    lex (concat (map (\<lambda>k. drop_text k @ ''; '') ks) @ r) = emits (op_tokens (map drop_tokens ks)) (lex r)"
  by (induction ks) (simp_all add: op_tokens_def)

lemma delete_rdf_reads: "plain_iri i \<Longrightarrow> reads_as (delete_rdf_text i) (delete_rdf_update i)"
  using reads_asI [of "delete_rdf_text i" "[drop_tokens i]" "drop_tokens (sys_graph_iri i)" "[DropSilent i]" "DropSilent (sys_graph_iri i)"]
    lex_drop [of "sys_graph_iri i" "[]"]
  by (simp add: delete_rdf_text_def op_tokens_def op_reads_DropSilent delete_rdf_update_def)

lemma drops_read: "list_all2 (\<lambda>b u. op_reads b (sop_syntax u)) (map drop_tokens ks) (map DropSilent ks)"
  by (simp add: list_all2_conv_all_nth op_reads_DropSilent)

lemma put_blob_reads:
  assumes "plain_iri i" "list_all plain_iri reg"
  shows "reads_as (put_blob_text D i reg mt) (put_blob_update i reg mt)"
proof -
  let ?ty = "mk_triple (NamedNode i) RDF_TYPE (TermNamed SYS_BINARY_RESOURCE)"
  let ?mt = "mk_triple (NamedNode i) SYS_MEDIA_TYPE (TermLiteral (simple_literal mt))"
  let ?t = "present_tokens i @ TPunct (CHR ''.'') # tpat_tokens (triple_pat ?ty) @ TPunct (CHR ''.'') # tpat_tokens (triple_pat ?mt)"
  let ?b = "TWord ''INSERT'' # TWord ''DATA'' # braced (block_tokens (sys_graph_iri i) ?t)"
  have pats: "printable_tpat (triple_pat ?ty)" "printable_tpat (triple_pat ?mt)"
    using assms(1) by (simp_all add: printable_tpat_def raw_pat_def raw_of_def)
  have "triples_body ?t (map triple_pat [present_triple i, ?ty, ?mt])"
    using triples_body_Cons [OF present_reads triples_body_Cons [OF triple_reads_tokens triples_body_one [OF triple_reads_tokens]]] pats
    by simp
  then have "op_reads ?b (sop_syntax (InsertData [(sys_graph_iri i, [present_triple i, ?ty, ?mt])]))"
    using op_reads_InsertData [of "[(sys_graph_iri i, ?t, [present_triple i, ?ty, ?mt])]"] by simp
  moreover have "lex (put_blob_text D i reg mt) = Some (op_tokens (map drop_tokens (reg @ [i, sys_graph_iri i])) @ ?b)"
    using assms by (simp add: put_blob_text_def lex_texts lex_drops op_tokens_def braced_def block_tokens_def
        tpat_tokens_def raw_pat_def raw_of_def)
  ultimately show ?thesis
    using reads_asI [OF _ drops_read] by (fastforce simp: put_blob_update_def)
qed

lemma conditional_put_reads:
  assumes "plain_iri (a_iri a)" "plain_iri (r_iri (a_subject a))" "list_all printable_quad body"
  shows "reads_as (conditional_put_text D a body) (conditional_put_update a (serialize_for_insert body))"
proof -
  let ?i = "a_iri a" and ?s = "r_iri (a_subject a)" and ?ts = "serialize_for_insert body" and ?spo = "[TVar ''s'', TVar ''p'', TVar ''o'']"
  let ?bs = "[(?i, dots (map triple_pat ?ts), ?ts), (sys_graph_iri ?i, present_tokens ?i, [present_triple ?i])]"
  let ?q = "concat (map (\<lambda>(g, b, ts). block_tokens g b) ?bs)"
  let ?c = "TWord ''DELETE'' # braced (block_tokens ?i ?spo) @ TWord ''WHERE'' # braced (block_tokens ?i ?spo @ guard_tokens ?s)"
  let ?w = "TWord ''INSERT'' # braced ?q @ TWord ''WHERE'' # braced (guard_tokens ?s)"
  have "quads_reads ?q (graph_blocks [(?i, ?ts), (sys_graph_iri ?i, [present_triple ?i])])"
    using quads_reads_blocks [of "[(?i, dots (map triple_pat ?ts), map triple_pat ?ts), (sys_graph_iri ?i, present_tokens ?i, [triple_pat (present_triple ?i)])]"]
      triples_body_quads [OF assms(3)] triples_body_one [OF present_reads [of ?i]] by (simp add: graph_blocks_def comp_def)
  from op_reads_insert [OF this guard_reads [of ?s]]
  have "op_reads ?w (sop_syntax (InsertWhere [(?i, ?ts), (sys_graph_iri ?i, [present_triple ?i])] (subject_present_guard a)))"
    by (simp add: subject_present_guard_def)
  moreover have "lex (conditional_put_text D a body) = Some (op_tokens [?c] @ ?w)"
    using assms by (simp add: conditional_put_text_def Let_def lex_texts op_tokens_def braced_def block_tokens_def)
  ultimately show ?thesis
    using reads_asI [of _ "[?c]" ?w "[ClearWhere ?i (subject_present_guard a)]"] clear_reads [of ?i ?s]
    by (simp add: conditional_put_update_def subject_present_guard_def)
qed

lemma patch_reads:
  assumes "plain_iri i" "list_all printable_raw ds" "list_all printable_raw ins"
    and "gt = [] \<and> gd = None \<or> (\<exists>s. plain_iri s \<and> gt = guard_text s \<and> gd = Some (sys_graph_iri s, present_triple s))"
  shows "reads_as (patch_text D i ds ins gt) [ModifyGround i ds ins gd]"
proof -
  have pats: "list_all printable_tpat (map raw_pat rs)" if "list_all printable_raw rs" for rs
    using that by (simp add: list_all_iff printable_raw_def)
  have body: "quads_reads (dots (map raw_pat rs)) (default_block rs)" if "list_all printable_raw rs" for rs
    using quads_reads_default [OF triples_body_dots [OF pats [OF that]]] by (simp add: default_block_def)
  obtain g where g: "group_reads g (guard_elems gd)" "g = [] \<or> hd g = TWord ''FILTER''" "lex (gt @ CHR '' '' # r) = emits g (lex r)" for r
    using assms(4) group_reads_Nil guard_reads by (force simp: guard_elems_def guard_tokens_def)
  have "group_reads (dots (map raw_pat ds) @ g) ((if ds = [] then [] else [Bgp (map raw_pat ds)]) @ guard_elems gd)"
    using group_reads_bgp [OF pats [OF assms(2)] _ g(1,2)] g(1) by (cases ds) (auto simp: dots_def)
  from op_reads_with [OF body [OF assms(2)] body [OF assms(3)] this, of i]
  have "op_reads (TWord ''WITH'' # TIri i # TWord ''DELETE'' # braced (dots (map raw_pat ds)) @ TWord ''INSERT'' # braced (dots (map raw_pat ins)) @
      TWord ''WHERE'' # braced (dots (map raw_pat ds) @ g)) (sop_syntax (ModifyGround i ds ins gd))" by simp
  then show ?thesis
    using reads_asI [of "patch_text D i ds ins gt" "[]" _ "[]"] assms g(3)
    by (simp add: patch_text_def lex_texts op_tokens_def braced_def)
qed

lemma containment_removal_reads:
  assumes "plain_iri p" "plain_iri c"
  shows "\<exists>b. (\<forall>r. lex (containment_removal_text D p c @ r) = emits b (lex r)) \<and> op_reads b (sop_syntax (DeleteData p [contains_triple p c]))"
proof -
  let ?t = "triple_pat (contains_triple p c)"
  have "printable_tpat ?t" using assms by (simp add: printable_tpat_def raw_pat_def raw_of_def contains_triple_def)
  then have "quads_reads (block_tokens p (tpat_tokens ?t)) (graph_blocks [(p, [contains_triple p c])])"
    using quads_reads_block [OF triples_body_one [OF triple_reads_tokens]] by (simp add: graph_blocks_def)
  from op_reads_delete_data [OF this] assms show ?thesis
    by (intro exI conjI) (simp_all add: containment_removal_text_def lex_texts braced_def block_tokens_def tpat_tokens_def
        raw_pat_def raw_of_def contains_triple_def)
qed

lemma reads_join:
  assumes "list_all2 (\<lambda>t u. \<exists>b. (\<forall>r. lex (t @ r) = emits b (lex r)) \<and> op_reads b (sop_syntax u)) ts us" and "us \<noteq> []"
  shows "reads_as (join_with ''; '' ts) us"
  using assms
proof (induction rule: list_all2_induct)
  case (Cons t ts u us)
  then obtain b where b: "lex (t @ r) = emits b (lex r)" "op_reads b (sop_syntax u)" for r by blast
  show ?case
  proof (cases "us = []")
    case True
    with Cons b reads_asI [of t "[]" b "[]" u] b(1) [of "[]"] show ?thesis by (simp add: op_tokens_def)
  next
    case False
    with Cons obtain t' ts' where ts: "ts = t' # ts'" by (cases ts) auto
    from Cons False have "reads_as (join_with ''; '' ts) us" by blast
    then obtain toks where toks: "lex (join_with ''; '' ts) = Some toks" "p_sequence toks = Some (map sop_syntax us)"
      by (auto simp: reads_as_def read_update_def bind_eq_Some_conv)
    have "p_sequence [] = None" by (simp add: p_sequence.simps p_update_def parse_simps)
    with toks have "toks \<noteq> []" by auto
    with p_sequence_step [OF b(2) this] b(1) toks ts show ?thesis by (simp add: reads_as_def read_update_def)
  qed
qed simp

lemma drop_reads: "plain_iri g \<Longrightarrow> \<exists>b. (\<forall>r. lex (drop_text g @ r) = emits b (lex r)) \<and> op_reads b (sop_syntax (DropSilent g))"
  by (intro exI [of _ "drop_tokens g"]) simp

lemma delete_subject_reads:
  assumes "list_all plain_iri reg" "plain_iri (r_iri u)" "\<And>k. plain_iri (a_iri (url_aux u k))"
    and "\<And>p. parent u = Some p \<Longrightarrow> plain_iri (container_iri p)"
  shows "reads_as (delete_subject_text D u reg)
    (delete_subject_ops u reg @ (case parent u of None \<Rightarrow> [] | Some p \<Rightarrow> [DeleteData (container_iri p) [contains_triple (container_iri p) (r_iri u)]]))"
  unfolding delete_subject_text_def delete_subject_ops_def append_assoc
proof (rule reads_join)
  let ?R = "\<lambda>t u. \<exists>b. (\<forall>r. lex (t @ r) = emits b (lex r)) \<and> op_reads b (sop_syntax u)"
  have "list_all2 ?R (map drop_text reg) (map DropSilent reg)"
    using assms(1) by (auto simp: list_all2_map1 list_all2_map2 list_all2_same list_all_iff intro!: drop_reads)
  moreover have "list_all2 ?R (case parent u of None \<Rightarrow> [] | Some p \<Rightarrow> [containment_removal_text D (container_iri p) (r_iri u)])
      (case parent u of None \<Rightarrow> [] | Some p \<Rightarrow> [DeleteData (container_iri p) [contains_triple (container_iri p) (r_iri u)]])"
    using assms(2,4) containment_removal_reads by (auto split: option.splits)
  ultimately show "list_all2 ?R
     (map drop_text reg @ [drop_text (r_iri u), drop_text (sys_graph_iri (r_iri u))]
        @ concat (map (\<lambda>k. [drop_text (a_iri (url_aux u k)), drop_text (sys_graph_iri (a_iri (url_aux u k)))]) aux_kind_all)
        @ (case parent u of None \<Rightarrow> [] | Some p \<Rightarrow> [containment_removal_text D (container_iri p) (r_iri u)]))
     (map DropSilent reg @ [DropSilent (r_iri u), DropSilent (sys_graph_iri (r_iri u))]
        @ concat (map (\<lambda>k. [DropSilent (a_iri (url_aux u k)), DropSilent (sys_graph_iri (a_iri (url_aux u k)))]) aux_kind_all)
        @ (case parent u of None \<Rightarrow> [] | Some p \<Rightarrow> [DeleteData (container_iri p) [contains_triple (container_iri p) (r_iri u)]]))"
    using assms(2,3) by (intro list_all2_appendI) (auto simp: aux_kind_all_def intro!: drop_reads)
qed simp

lemma lex_shelves: "list_all printable_shelf sh \<Longrightarrow>
    lex (shelves_text D sh @ r) =
    emits (concat (map (\<lambda>(k, _, qs). block_tokens k (dots (map triple_pat (serialize_for_insert qs)))) sh)) (lex r)"
  by (induction sh) (auto simp: shelves_text_def printable_shelf_def lex_texts block_tokens_def)

lemma lex_registry:
  assumes "plain_iri i" "list_all printable_shelf sh"
  shows "lex (registry_text D i mt sh @ r) =
    emits (present_tokens i @ TPunct (CHR ''.'') # dots (map triple_pat (tl (registry_triples i mt (shelved sh))))) (lex r)"
proof -
  have "lex (concat (map (\<lambda>(k, name, _). ''<'' @ i @ ''> <'' @ SYS_HAS_SUBGRAPH @ ''> <'' @ k @ ''> . <'' @ k @ ''> <''
         @ SYS_GRAPH_NAME @ ''> <'' @ name @ ''> . '') sh) @ r) =
     emits (dots (map triple_pat (concat (map (\<lambda>(key, name, _).
         [mk_triple (NamedNode i) SYS_HAS_SUBGRAPH (TermNamed key), mk_triple (NamedNode key) SYS_GRAPH_NAME (TermNamed name)]) (shelved sh))))) (lex r)"
    using assms(2) by (induction sh) (auto simp: printable_shelf_def assms(1) dots_def tpat_tokens_def raw_pat_def raw_of_def)
  with assms(1) show ?thesis
    by (simp add: registry_text_def registry_triples_def lex_texts dots_def tpat_tokens_def raw_pat_def raw_of_def)
qed

lemma put_dataset_reads:
  assumes "plain_iri i" "list_all plain_iri reg" "list_all printable_quad df" "list_all printable_shelf sh"
  shows "reads_as (put_dataset_text D i reg df sh mt) (put_dataset_update i reg (serialize_for_insert df) (shelved sh) mt)"
proof -
  let ?bs = "(i, serialize_for_insert df) # map (\<lambda>(k, _, ts). (k, ts)) (shelved sh)"
  let ?toks = "map (\<lambda>(k, ts). (k, dots (map triple_pat ts), ts)) ?bs"
  let ?ins = "TWord ''INSERT'' # TWord ''DATA'' # braced (concat (map (\<lambda>(g, b, ts). block_tokens g b) ?toks))"
  let ?rt = "registry_triples i mt (shelved sh)"
  let ?rb = "present_tokens i @ TPunct (CHR ''.'') # dots (map triple_pat (tl ?rt))"
  let ?reg = "TWord ''INSERT'' # TWord ''DATA'' # braced (block_tokens (sys_graph_iri i) ?rb)"
  let ?ks = "reg @ map fst sh @ [i, sys_graph_iri i]"
  have "list_all (\<lambda>(g, b, ts). triples_body b (map triple_pat ts)) ?toks"
    using assms(3,4) triples_body_quads by (auto simp: list_all_iff printable_shelf_def)
  from op_reads_InsertData [OF this] have ins: "op_reads ?ins (sop_syntax (InsertData ?bs))"
    by (simp add: comp_def case_prod_unfold)
  have "list_all printable_tpat (map triple_pat (tl ?rt))"
    using assms(1,4) by (auto simp: registry_triples_def list_all_iff printable_shelf_def printable_tpat_def raw_pat_def raw_of_def)
  from triples_body_Cons [OF present_reads triples_body_dots [OF this]]
  have "triples_body ?rb (map triple_pat ?rt)" by (simp add: registry_triples_def)
  then have rg: "op_reads ?reg (sop_syntax (InsertData [(sys_graph_iri i, ?rt)]))"
    using op_reads_InsertData [of "[(sys_graph_iri i, ?rb, ?rt)]"] by simp
  have "list_all plain_iri (map fst sh)" using assms(4) by (auto simp: list_all_iff printable_shelf_def)
  from lex_drops [OF this] have drops: "lex (concat (map (\<lambda>(k, _, _). drop_text k @ ''; '') sh) @ r) =
      emits (op_tokens (map drop_tokens (map fst sh))) (lex r)" for r
    by (simp add: comp_def case_prod_unfold)
  have "lex (put_dataset_text D i reg df sh mt) = Some (op_tokens (map drop_tokens ?ks @ [?ins]) @ ?reg)"
    using assms by (simp add: put_dataset_text_def drops lex_drops lex_texts lex_shelves lex_registry
        op_tokens_def braced_def block_tokens_def [of i] block_tokens_def [of "sys_graph_iri i"])
      (simp add: comp_def case_prod_unfold)
  from reads_asI [OF this _ rg, of "map DropSilent ?ks @ [InsertData ?bs]"] drops_read [of ?ks] ins
  show ?thesis by (simp add: put_dataset_update_def list_all2_append comp_def case_prod_unfold)
qed

end

section \<open>Queries\<close>

definition ask_present_text :: "iri \<Rightarrow> string" where
  "ask_present_text i = ''ASK { GRAPH <'' @ sys_graph_iri i @ ''> { '' @ present_text i @ '' } }''"

definition ask_binary_text :: "iri \<Rightarrow> string" where
  "ask_binary_text i = ''ASK { GRAPH <'' @ sys_graph_iri i @ ''> { <'' @ i @ ''> <'' @ RDF_TYPE @ ''> <'' @ SYS_BINARY_RESOURCE @ ''> } }''"

definition ask_ground_text :: "display \<Rightarrow> iri \<Rightarrow> raw list \<Rightarrow> string" where
  "ask_ground_text D i ds = ''ASK { GRAPH <'' @ i @ ''> { '' @ ground_text D ds @ '' } }''"

definition graph_text :: "iri \<Rightarrow> string" where
  "graph_text i = ''CONSTRUCT { ?s ?p ?o } WHERE { GRAPH <'' @ i @ ''> { ?s ?p ?o } }''"

text \<open>The queries for the objects of one subject and predicate differ in the name of their variable.\<close>

definition objects_text :: "string \<Rightarrow> iri \<Rightarrow> iri \<Rightarrow> iri \<Rightarrow> string" where
  "objects_text v g s p =
     ''CONSTRUCT { <'' @ s @ ''> <'' @ p @ ''> ?'' @ v @ '' } WHERE { GRAPH <'' @ g @ ''> { <'' @ s @ ''> <'' @ p @ ''> ?'' @ v @ '' } }''"

definition present_values :: "iri list \<Rightarrow> string" where
  "present_values gs = concat (map (\<lambda>i. ''(<'' @ sys_graph_iri i @ ''> <'' @ i @ ''>) '') gs)"

definition present_query_text :: "iri list \<Rightarrow> string" where
  "present_query_text gs = ''SELECT ?g WHERE { VALUES (?sys ?g) { '' @ present_values gs @ '' } GRAPH ?sys { ?g <''
     @ SYS_PRESENT @ ''> true } }''"

definition graph_values :: "iri list \<Rightarrow> string" where
  "graph_values gs = concat (map (\<lambda>i. ''<'' @ i @ ''> '') gs)"

definition graphs_query_text :: "iri list \<Rightarrow> string" where
  "graphs_query_text gs = ''SELECT ?g ?s ?p ?o WHERE { VALUES ?g { '' @ graph_values gs @ '' } GRAPH ?g { ?s ?p ?o } }''"

definition match_text :: "display \<Rightarrow> iri \<Rightarrow> pattern list \<Rightarrow> string" where
  "match_text D i ps = ''SELECT * WHERE { GRAPH <'' @ i @ ''> { '' @ render_patterns D ps @ '' } } LIMIT 2''"

text \<open>Patterns as syntax, with the variables named as \<open>render_term\<close> names them.\<close>

fun pterm_vt :: "pattern_term \<Rightarrow> vt" where
  "pterm_vt (PNamed n) = Con (TermNamed n)"
| "pterm_vt (PLiteral l) = Con (TermLiteral l)"
| "pterm_vt (PVar i) = Var (CHR ''v'' # show_nat i)"

definition pattern_pat :: "pattern \<Rightarrow> tpat" where
  "pattern_pat p = (pterm_vt (p_subject p), pterm_vt (p_predicate p), pterm_vt (p_object p))"

definition printable_pattern :: "pattern \<Rightarrow> bool" where
  "printable_pattern p \<longleftrightarrow> printable_tpat (pattern_pat p)"

abbreviation named_con :: "iri \<Rightarrow> vt" where "named_con i \<equiv> Con (TermNamed i)"

definition present_group :: "iri list \<Rightarrow> elem list" where
  "present_group gs = [ValuesBlock [''sys'', ''g''] (map (\<lambda>i. [TermNamed (sys_graph_iri i), TermNamed i]) gs),
     InGraph (Var ''sys'') [(Var ''g'', named_con SYS_PRESENT, Con (TermLiteral XSD_TRUE))]]"

definition graphs_group :: "iri list \<Rightarrow> elem list" where
  "graphs_group gs = [ValuesBlock [''g''] (map (\<lambda>i. [TermNamed i]) gs), InGraph (Var ''g'') [SPO]]"

text \<open>What they are read as.\<close>

lemma p_triples_SPO [simp]: "p_triples (TVar ''s'' # TVar ''p'' # TVar ''o'' # TPunct (CHR ''}'') # ts) = Some ([SPO], TPunct (CHR ''}'') # ts)"
  using triples_body_one [OF SPO_reads] by (simp add: triples_body_def)

lemma group_reads_graph: "triples_body c ps \<Longrightarrow> ps \<noteq> [] \<Longrightarrow> group_reads (block_tokens g c) [InGraph (named_con g) ps]"
  using group_reads_elems [of "[(block_tokens g c, InGraph (named_con g) ps)]"] by auto

lemma read_ask:
  assumes "lex txt = Some (TWord ''ASK'' # braced (block_tokens g c))" "triples_body c ps" "ps \<noteq> []"
  shows "read_query txt = Some (Ask [InGraph (named_con g) ps])"
  using group_reads_graph [OF assms(2,3), of g] assms(1)
  by (simp add: read_query_def p_query_def parse_simps p_group_def group_reads_def braced_def)

lemma read_construct:
  assumes "lex txt = Some (TWord ''CONSTRUCT'' # braced c @ TWord ''WHERE'' # braced (block_tokens g c))"
    and "triples_body c ps" "ps \<noteq> []"
  shows "read_query txt = Some (Construct ps [InGraph (named_con g) ps])"
  using group_reads_graph [OF assms(2,3), of g] assms(1,2)
  by (simp add: read_query_def p_query_def parse_simps p_group_def group_reads_def braced_def triples_body_def)

lemma read_select_all:
  assumes "lex txt = Some (TWord ''SELECT'' # TPunct (CHR ''*'') # TWord ''WHERE'' # braced (block_tokens g c) @ [TWord ''LIMIT'', TInt ''2''])"
    and "triples_body c ps" "ps \<noteq> []"
  shows "read_query txt = Some (Select None [InGraph (named_con g) ps] (Some 2))"
  using group_reads_graph [OF assms(2,3), of g] assms(1,2)
  by (simp add: read_query_def p_query_def parse_simps p_group_def group_reads_def braced_def triples_body_def)

lemma present_query_reads:
  assumes "plain_iri i" shows "read_query (ask_present_text i) = Some (Ask [InGraph (named_con (sys_graph_iri i)) [triple_pat (present_triple i)]])"
    and "read_query (ask_binary_text i) = Some (Ask [InGraph (named_con (sys_graph_iri i))
      [triple_pat (mk_triple (NamedNode i) RDF_TYPE (TermNamed SYS_BINARY_RESOURCE))]])"
proof -
  let ?t = "triple_pat (mk_triple (NamedNode i) RDF_TYPE (TermNamed SYS_BINARY_RESOURCE))"
  have "printable_tpat ?t" using assms by (simp add: printable_tpat_def raw_pat_def raw_of_def)
  from triples_body_one [OF triple_reads_tokens [OF this]]
  show "read_query (ask_binary_text i) = Some (Ask [InGraph (named_con (sys_graph_iri i)) [?t]])"
    using assms by (intro read_ask) (auto simp: ask_binary_text_def braced_def block_tokens_def tpat_tokens_def raw_pat_def raw_of_def)
  show "read_query (ask_present_text i) = Some (Ask [InGraph (named_con (sys_graph_iri i)) [triple_pat (present_triple i)]])"
    by (rule read_ask [OF _ triples_body_one [OF present_reads]])
       (use assms in \<open>simp_all add: ask_present_text_def braced_def block_tokens_def\<close>)
qed

lemma graph_query_reads: "plain_iri i \<Longrightarrow> read_query (graph_text i) = Some (Construct [SPO] [InGraph (named_con i) [SPO]])"
  by (rule read_construct [OF _ triples_body_one [OF SPO_reads]]) (simp_all add: graph_text_def braced_def block_tokens_def)

lemma objects_query_reads:
  assumes "plain_iri g" "plain_iri s" "plain_iri p" "list_all name_char v" "v \<noteq> []"
  shows "read_query (objects_text v g s p) =
    Some (Construct [(named_con s, named_con p, Var v)] [InGraph (named_con g) [(named_con s, named_con p, Var v)]])"
proof (rule read_construct)
  show "triples_body [TIri s, TIri p, TVar v] [(named_con s, named_con p, Var v)]"
    by (rule triples_body_one) (simp add: triple_reads_def p_triple_def p_bind_def p_return_def)
  have "lex (CHR ''?'' # v @ CHR '' '' # r) = emits [TVar v] (lex r)" for r
    using lex_var [OF assms(4,5), of "CHR '' '' # r"] by (simp add: name_char_def alpha_def digit_def Let_def)
  then show "lex (objects_text v g s p) = Some (TWord ''CONSTRUCT'' # braced [TIri s, TIri p, TVar v] @ TWord ''WHERE''
      # braced (block_tokens g [TIri s, TIri p, TVar v]))"
    using assms by (simp add: objects_text_def braced_def block_tokens_def)
qed simp

lemma p_elem_graph_var:
  "triples_body c ps \<Longrightarrow> ps \<noteq> [] \<Longrightarrow>
     p_elem (TWord ''GRAPH'' # TVar v # TPunct (CHR ''{'') # c @ TPunct (CHR ''}'') # ts) = Some (InGraph (Var v) ps, ts)"
  by (simp add: p_elem_def p_graph_pattern_def p_block_def parse_simps triples_body_def)

lemma p_many_terms:
  "p_many p_term (map TIri is @ TPunct c # ts) = Some (map TermNamed is, TPunct c # ts)"
  by (induction "is") (simp_all add: p_many_stop p_many_append [of p_term "[TIri _]", simplified])

lemma p_many_rows:
  "p_many (p_parens (p_many p_term)) (concat (map (\<lambda>is. TPunct (CHR ''('') # map TIri is @ [TPunct (CHR '')'')]) rows) @ TPunct (CHR ''}'') # ts)
   = Some (map (map TermNamed) rows, TPunct (CHR ''}'') # ts)"
proof (induction rows)
  case (Cons row rows)
  have "p_parens (p_many p_term) ((TPunct (CHR ''('') # map TIri row @ [TPunct (CHR '')'')]) @ r) = Some (map TermNamed row, r)" for r
    by (simp add: p_parens_def parse_simps p_many_terms)
  from p_many_append [where p = "p_parens (p_many p_term)" and b = "TPunct (CHR ''('') # map TIri row @ [TPunct (CHR '')'')]", OF this] Cons
  show ?case by simp
qed (simp add: p_many_stop p_parens_def parse_simps)

lemma read_select:
  assumes "lex txt = Some (TWord ''SELECT'' # map TVar vs @ TWord ''WHERE'' # braced (b @ TWord ''GRAPH'' # TVar v # braced c))"
    and "vs \<noteq> []" and "triples_body c ps" "ps \<noteq> []" and "\<And>ts. p_elem (b @ ts) = Some (e, ts)" and "b \<noteq> []"
  shows "read_query txt = Some (Select (Some vs) [e, InGraph (Var v) ps] None)"
proof -
  have vars: "p_many p_var (map TVar us @ TWord w # ts) = Some (us, TWord w # ts)" for us w ts
    by (induction us) (simp_all add: p_many_stop p_many_append [of p_var "[TVar _]", simplified])
  have "p_many p_elem (b @ TWord ''GRAPH'' # TVar v # braced c @ TPunct (CHR ''}'') # ts) = Some ([e, InGraph (Var v) ps], TPunct (CHR ''}'') # ts)" for ts
  proof -
    have "p_elem ((TWord ''GRAPH'' # TVar v # braced c) @ r) = Some (InGraph (Var v) ps, r)" for r
      using p_elem_graph_var [OF assms(3,4)] by (simp add: braced_def)
    from p_many_append [where p = p_elem and b = "TWord ''GRAPH'' # TVar v # braced c" and r = "TPunct (CHR ''}'') # ts", OF this]
      p_many_append [where p = p_elem and b = b and r = "TWord ''GRAPH'' # TVar v # braced c @ TPunct (CHR ''}'') # ts", OF assms(5,6)]
    show ?thesis by (simp add: p_many_stop)
  qed
  then have "p_group (braced (b @ TWord ''GRAPH'' # TVar v # braced c)) = Some ([e, InGraph (Var v) ps], [])"
    by (simp add: p_group_def parse_simps braced_def [of "b @ _"])
  moreover have "map TVar vs = TVar (hd vs) # map TVar (tl vs)" using assms(2) by (cases vs) auto
  ultimately show ?thesis
    using assms(1,2) vars [of vs] by (simp add: read_query_def p_query_def parse_simps nonempty_def)
qed

lemma present_values_lex: "list_all plain_iri gs \<Longrightarrow> lex (present_values gs @ r) =
    emits (concat (map (\<lambda>is. TPunct (CHR ''('') # map TIri is @ [TPunct (CHR '')'')]) (map (\<lambda>i. [sys_graph_iri i, i]) gs))) (lex r)"
  by (induction gs) (simp_all add: present_values_def)

lemma present_many_reads:
  assumes "list_all plain_iri gs"
  shows "read_query (present_query_text gs) = Some (Select (Some [''g'']) (present_group gs) None)"
proof -
  let ?b = "TWord ''VALUES'' # TPunct (CHR ''('') # TVar ''sys'' # TVar ''g'' # TPunct (CHR '')'') #
    braced (concat (map (\<lambda>is. TPunct (CHR ''('') # map TIri is @ [TPunct (CHR '')'')]) (map (\<lambda>i. [sys_graph_iri i, i]) gs)))"
  let ?p = "(Var ''g'', named_con SYS_PRESENT, Con (TermLiteral XSD_TRUE))"
  have vars: "p_many p_var (TVar ''sys'' # TVar ''g'' # TPunct (CHR '')'') # ts) = Some ([''sys'', ''g''], TPunct (CHR '')'') # ts)" for ts
    by (simp add: p_many.simps)
  have "p_elem (?b @ ts) = Some (ValuesBlock [''sys'', ''g''] (map (map TermNamed) (map (\<lambda>i. [sys_graph_iri i, i]) gs)), ts)" for ts
    using p_many_rows [of "map (\<lambda>i. [sys_graph_iri i, i]) gs" ts]
    by (simp add: p_elem_def p_graph_pattern_def p_block_def p_values_def p_parens_def parse_simps braced_def vars list_all_iff)
  moreover have "triples_body [TVar ''g'', TIri SYS_PRESENT, TWord ''true''] [?p]"
    by (rule triples_body_one) (simp add: triple_reads_def p_triple_def p_bind_def p_return_def)
  moreover have "lex (present_query_text gs) = Some (TWord ''SELECT'' # map TVar [''g''] @ TWord ''WHERE'' #
      braced (?b @ TWord ''GRAPH'' # TVar ''sys'' # braced [TVar ''g'', TIri SYS_PRESENT, TWord ''true'']))"
    using assms by (simp add: present_query_text_def present_values_lex braced_def)
  ultimately show ?thesis
    using read_select [of _ "[''g'']" ?b "''sys''"] by (simp add: present_group_def comp_def)
qed

lemma graphs_many_reads:
  assumes "list_all plain_iri gs"
  shows "read_query (graphs_query_text gs) = Some (Select (Some [''g'', ''s'', ''p'', ''o'']) (graphs_group gs) None)"
proof -
  let ?b = "TWord ''VALUES'' # TVar ''g'' # braced (map TIri gs)"
  have "p_elem (?b @ ts) = Some (ValuesBlock [''g''] (map (\<lambda>i. [TermNamed i]) gs), ts)" for ts
    by (simp add: p_elem_def p_graph_pattern_def p_block_def p_values_def parse_simps braced_def p_many_terms)
  moreover have "lex (graph_values gs @ r) = emits (map TIri gs) (lex r)" for r
    using assms by (induction gs) (simp_all add: graph_values_def)
  then have "lex (graphs_query_text gs) = Some (TWord ''SELECT'' # map TVar [''g'', ''s'', ''p'', ''o''] @ TWord ''WHERE'' #
      braced (?b @ TWord ''GRAPH'' # TVar ''g'' # braced [TVar ''s'', TVar ''p'', TVar ''o'']))"
    by (simp add: graphs_query_text_def braced_def)
  ultimately show ?thesis
    using read_select [of _ "[''g'', ''s'', ''p'', ''o'']" ?b "''g''"] triples_body_one [OF SPO_reads] by (simp add: graphs_group_def)
qed

declare show_nat.simps [simp del]

lemma show_nat_digits: "list_all digit (show_nat i)"
proof (induction i rule: show_nat.induct)
  case (1 i)
  have "digit (char_of (48 + k))" if "k < 10" for k :: nat using that by (simp add: digit_def)
  with 1 show ?case by (subst show_nat.simps) simp
qed

context sparql_display
begin

lemma ground_query_reads:
  assumes "plain_iri i" "list_all printable_raw ds" "ds \<noteq> []"
  shows "read_query (ask_ground_text D i ds) = Some (Ask [InGraph (named_con i) (map raw_pat ds)])"
proof (rule read_ask)
  show "triples_body (dots (map raw_pat ds)) (map raw_pat ds)"
    using assms(2) by (intro triples_body_dots) (simp add: list_all_iff printable_raw_def)
qed (use assms in \<open>simp_all add: ask_ground_text_def lex_texts braced_def block_tokens_def\<close>)

lemma lex_render_term:
  "printable_vt (pterm_vt t) \<Longrightarrow> lex (render_term D t @ CHR '' '' # r) = emits (vt_tokens (pterm_vt t)) (lex r)"
proof (cases t)
  case (PVar i)
  have "list_all name_char (CHR ''v'' # show_nat i)"
    using show_nat_digits [of i] by (auto simp: list_all_iff name_char_def alpha_def)
  from lex_var [OF this, of "CHR '' '' # r"] PVar show ?thesis by (simp add: name_char_def alpha_def digit_def Let_def)
qed (simp_all add: named literal)

lemma lex_render_patterns:
  "list_all printable_pattern ps \<Longrightarrow> lex (render_patterns D ps @ r) = emits (dots (map pattern_pat ps)) (lex r)"
proof (induction ps)
  case (Cons p ps)
  then have "printable_vt (pterm_vt (p_subject p))" "printable_vt (pterm_vt (p_predicate p))" "printable_vt (pterm_vt (p_object p))"
    by (auto simp: printable_pattern_def printable_tpat_def pattern_pat_def elim: printable_verb.elims)
  with Cons show ?case
    by (simp add: render_patterns_def dots_def lex_render_term tpat_tokens_def pattern_pat_def)
qed (simp add: render_patterns_def dots_def)

lemma match_query_reads:
  assumes "plain_iri i" "list_all printable_pattern ps" "ps \<noteq> []"
  shows "read_query (match_text D i ps) = Some (Select None [InGraph (named_con i) (map pattern_pat ps)] (Some 2))"
proof (rule read_select_all)
  show "triples_body (dots (map pattern_pat ps)) (map pattern_pat ps)"
    using assms(2) by (intro triples_body_dots) (simp add: list_all_iff printable_pattern_def)
qed (use assms in \<open>simp_all add: match_text_def lex_render_patterns braced_def block_tokens_def\<close>)

end

end
