(* ===== verification/Endpoint.thy ===== *)
theory Endpoint
  imports Statements
begin

text \<open>
  The store of \<^verbatim>\<open>src/store.rs\<close>: the methods of \<open>OxigraphStore\<close> over the library they call, which is the
  record \<open>oxigraph\<close>. What that library promises, that it reads a text as SPARQL does and gives it
  SPARQL's meaning, is the locale \<open>oxigraph_store\<close>; it is interpreted on an executable store that reads the
  texts and runs them in memory. Under it, every text of \<open>Statements\<close> has the effect or the answer that
  the operation of \<open>Sparql\<close> in its place has.
\<close>

section \<open>The store\<close>

datatype query_results =
    ResultBoolean bool
  | ResultGraph "(string + triple) list"
  | ResultSolutions "(string + valuation) list"

record 'db oxigraph =
  ox_update :: "'db \<Rightarrow> string \<Rightarrow> string + 'db"
  ox_query :: "'db \<Rightarrow> string \<Rightarrow> string + query_results"
  ox_join_error :: "'db \<Rightarrow> string option"

definition blocking :: "'db oxigraph \<Rightarrow> ('db \<Rightarrow> store_error + 'a) \<Rightarrow> 'db \<Rightarrow> store_error + 'a" where
  "blocking ox f db = (case ox_join_error ox db of
     Some e \<Rightarrow> Inl (Backend (''store task did not complete: '' @ e))
   | None \<Rightarrow> f db)"

definition evaluate :: "'db oxigraph \<Rightarrow> string \<Rightarrow> 'db \<Rightarrow> store_error + query_results" where
  "evaluate ox sparql db = map_err Backend (ox_query ox db sparql)"

fun collect_res :: "(string + 'a) list \<Rightarrow> store_error + 'a list" where
  "collect_res [] = Inr []"
| "collect_res (Inl e # rs) = Inl (Backend e)"
| "collect_res (Inr x # rs) = res_bind (collect_res rs) (\<lambda>xs. Inr (x # xs))"

definition store_update :: "'db oxigraph \<Rightarrow> string \<Rightarrow> 'db \<Rightarrow> store_error + 'db" where
  "store_update ox sparql = blocking ox (\<lambda>db. map_err Backend (ox_update ox db sparql))"

definition store_query_triples :: "'db oxigraph \<Rightarrow> string \<Rightarrow> 'db \<Rightarrow> store_error + triple list" where
  "store_query_triples ox sparql = blocking ox (\<lambda>db. res_bind (evaluate ox sparql db) (\<lambda>r.
     case r of ResultGraph ts \<Rightarrow> collect_res ts | _ \<Rightarrow> Inl (Backend ''expected CONSTRUCT/graph results'')))"

definition store_ask :: "'db oxigraph \<Rightarrow> string \<Rightarrow> 'db \<Rightarrow> store_error + bool" where
  "store_ask ox sparql = blocking ox (\<lambda>db. res_bind (evaluate ox sparql db) (\<lambda>r.
     case r of ResultBoolean b \<Rightarrow> Inr b | _ \<Rightarrow> Inl (Backend ''expected ASK/boolean results'')))"

definition store_query_solutions :: "'db oxigraph \<Rightarrow> string \<Rightarrow> 'db \<Rightarrow> store_error + valuation list" where
  "store_query_solutions ox sparql = blocking ox (\<lambda>db. res_bind (evaluate ox sparql db) (\<lambda>r.
     case r of ResultSolutions ss \<Rightarrow> collect_res ss | _ \<Rightarrow> Inl (Backend ''expected SELECT/solution results'')))"

text \<open>How the sources read the rows: \<open>exists_many\<close>, \<open>chain_acls\<close>, and the bindings of a patch.\<close>

definition row_graph :: "valuation \<Rightarrow> iri option" where
  "row_graph row = (case row ''g'' of Some (TermNamed n) \<Rightarrow> Some n | _ \<Rightarrow> None)"

definition row_triple :: "valuation \<Rightarrow> (iri \<times> triple) option" where
  "row_triple row =
     (case (row ''g'', row ''s'', row ''p'', row ''o'') of
        (Some (TermNamed g), Some s, Some p, Some x) \<Rightarrow>
          (case (term_node s, p) of (Some n, TermNamed p') \<Rightarrow> Some (g, mk_triple n p' x) | _ \<Rightarrow> None)
      | _ \<Rightarrow> None)"

definition row_solution :: "pattern list \<Rightarrow> valuation \<Rightarrow> solution" where
  "row_solution ps row = map (\<lambda>i. (i, the (row (CHR ''v'' # show_nat i)))) (pattern_vars ps)"

section \<open>What a query answers\<close>

definition constructed :: "graphs \<Rightarrow> tpat list \<Rightarrow> elem list \<Rightarrow> triple set" where
  "constructed G ps es = {t. \<exists>\<mu> \<in> sols G [] es. \<exists>p \<in> set ps. inst_triple \<mu> p = Some (raw_of t)}"

definition selected :: "graphs \<Rightarrow> string list option \<Rightarrow> elem list \<Rightarrow> valuation set" where
  "selected G vs es = (case vs of None \<Rightarrow> sols G [] es | Some us \<Rightarrow> (\<lambda>\<mu>. \<mu> |` set us) ` sols G [] es)"

text \<open>A stream may break off with an error, and then nothing is said. A \<open>SELECT *\<close> over one graph has each
  solution once.\<close>

fun answers :: "query \<Rightarrow> graphs \<Rightarrow> query_results \<Rightarrow> bool" where
  "answers (Ask es) G r \<longleftrightarrow> r = ResultBoolean (sols G [] es \<noteq> {})"
| "answers (Construct ps es) G r \<longleftrightarrow>
     (\<exists>rs. r = ResultGraph rs \<and> (\<forall>ts. rs = map Inr ts \<longrightarrow> distinct ts \<and> set ts = constructed G ps es))"
| "answers (Select vs es None) G r \<longleftrightarrow> (\<exists>rs. r = ResultSolutions rs \<and> (\<forall>ms. rs = map Inr ms \<longrightarrow> set ms = selected G vs es))"
| "answers (Select vs es (Some n)) G r \<longleftrightarrow> (\<exists>rs. r = ResultSolutions rs \<and> (\<forall>ms. rs = map Inr ms \<longrightarrow>
     set ms \<subseteq> selected G vs es \<and>
     (\<forall>g ps. vs = None \<and> es = [InGraph g ps] \<longrightarrow> distinct ms \<and> length ms = min n (card (selected G vs es)))))"

locale oxigraph_store =
  fixes ox :: "'db oxigraph" and abs :: "'db \<Rightarrow> graphs"
  assumes update_meaning: "ox_update ox db sparql = Inr db' \<Longrightarrow> read_update sparql = Some us \<Longrightarrow> abs db' = apply_updates us (abs db)"
    and query_meaning: "ox_query ox db sparql = Inr r \<Longrightarrow> read_query sparql = Some q \<Longrightarrow> answers q (abs db) r"

lemma blocking_Inr: "blocking ox f db = Inr x \<Longrightarrow> f db = Inr x"
  by (simp add: blocking_def split: option.splits)

lemma collect_res_Inr: "collect_res rs = Inr xs \<longleftrightarrow> rs = map Inr xs"
  by (induction rs arbitrary: xs rule: collect_res.induct) (auto simp: res_bind_Inr)

lemma store_ask_Inr: "store_ask ox txt db = Inr b \<Longrightarrow> ox_query ox db txt = Inr (ResultBoolean b)"
  by (auto simp: store_ask_def evaluate_def res_bind_Inr map_err_Inr dest!: blocking_Inr split: query_results.split_asm)

lemma store_query_triples_Inr: "store_query_triples ox txt db = Inr ts \<Longrightarrow> ox_query ox db txt = Inr (ResultGraph (map Inr ts))"
  by (auto simp: store_query_triples_def evaluate_def res_bind_Inr map_err_Inr collect_res_Inr dest!: blocking_Inr split: query_results.split_asm)

lemma store_query_solutions_Inr: "store_query_solutions ox txt db = Inr ms \<Longrightarrow> ox_query ox db txt = Inr (ResultSolutions (map Inr ms))"
  by (auto simp: store_query_solutions_def evaluate_def res_bind_Inr map_err_Inr collect_res_Inr dest!: blocking_Inr split: query_results.split_asm)

section \<open>The meaning of the queries\<close>

lemma ask_meaning: "g \<noteq> [] \<Longrightarrow> sols G d [InGraph (named_con g) (map raw_pat rs)] \<noteq> {} \<longleftrightarrow> set rs \<subseteq> raw_of ` G g"
  by (subst sols_ground) (auto simp: in_named_def)

lemma sols_one_graph: "g \<noteq> [] \<Longrightarrow> sols G d [InGraph (named_con g) ps] = {\<mu>. dom \<mu> = tpat_vars ps \<and> matched_in (G g) \<mu> ps}"
  by (auto simp: sols_def in_named_def)

lemma constructed_self: "g \<noteq> [] \<Longrightarrow> constructed G [p] [InGraph (named_con g) [p]] =
    {t \<in> G g. \<exists>\<mu>. dom \<mu> = tpat_vars [p] \<and> inst_triple \<mu> p = Some (raw_of t)}"
  by (auto simp: constructed_def sols_one_graph matched_in_def)

lemma construct_graph: "g \<noteq> [] \<Longrightarrow> constructed G [SPO] [InGraph (named_con g) [SPO]] = G g"
  unfolding constructed_self vars_SPO using SPO_solution by blast

lemma construct_objects:
  assumes "g \<noteq> []"
  shows "constructed G [(named_con s, named_con p, Var v)] [InGraph (named_con g) [(named_con s, named_con p, Var v)]] =
    {t \<in> G g. t_subject t = NamedNode s \<and> t_predicate t = p}"
proof -
  let ?p = "(named_con s, named_con p, Var v)"
  have inst: "inst_triple \<mu> ?p = Some (raw_of t) \<longleftrightarrow> t_subject t = NamedNode s \<and> t_predicate t = p \<and> \<mu> v = Some (t_object t)" for \<mu> t
    by (cases "t_subject t") (auto simp: inst_triple_def raw_of_def)
  have "tpat_vars [?p] = {v}" by (simp add: tpat_vars_def)
  moreover have "dom [v \<mapsto> t_object t] = {v}" "[v \<mapsto> t_object t] v = Some (t_object t)" for t :: triple by simp_all
  ultimately show ?thesis unfolding constructed_self [OF assms] inst by metis
qed

lemma row_graph_Some: "row_graph row = Some i \<longleftrightarrow> row ''g'' = Some (TermNamed i)"
  by (auto simp: row_graph_def split: option.splits rdf_term.splits)

lemma node_term_eq [simp]: "node_term n = TermNamed i \<longleftrightarrow> n = NamedNode i" "node_term n = TermBlank b \<longleftrightarrow> n = BlankNode b"
  by (cases n; simp)+

lemma select_present:
  assumes "list_all plain_iri gs" and "set ms = selected G (Some [''g'']) (present_group gs)"
  shows "set (List.map_filter row_graph ms) = {i \<in> set gs. present_triple i \<in> G (sys_graph_iri i)}"
proof -
  let ?P = "\<lambda>i. present_triple i \<in> G (sys_graph_iri i)"
  have inst: "inst_triple \<mu> (Var ''g'', named_con SYS_PRESENT, Con (TermLiteral XSD_TRUE)) = Some (raw_of t) \<longleftrightarrow>
      (\<exists>n. \<mu> ''g'' = Some (node_term n) \<and> t = mk_triple n SYS_PRESENT (TermLiteral XSD_TRUE))" for \<mu> t
    by (auto simp: inst_triple_def raw_of_def bind_eq_Some_conv)
  have sol: "\<mu> \<in> sols G [] (present_group gs) \<longleftrightarrow> dom \<mu> = {''sys'', ''g''} \<and>
      (\<exists>i \<in> set gs. \<mu> ''sys'' = Some (TermNamed (sys_graph_iri i)) \<and> \<mu> ''g'' = Some (TermNamed i) \<and> ?P i)" for \<mu>
  proof -
    have "in_named G \<mu> (Var ''sys'') [(Var ''g'', named_con SYS_PRESENT, Con (TermLiteral XSD_TRUE))] \<longleftrightarrow> ?P i"
      if "\<mu> ''sys'' = Some (TermNamed (sys_graph_iri i))" "\<mu> ''g'' = Some (TermNamed i)" for i
      using that by (auto simp: in_named_def matched_in_def inst present_triple_def eq_commute [of "TermNamed i"] sys_graph_iri_def SYS_PREFIX_def)
    then show ?thesis
      by (auto simp: sols_def present_group_def tpat_vars_def image_iff)
  qed
  have "i \<in> set (List.map_filter row_graph ms) \<longleftrightarrow> i \<in> set gs \<and> ?P i" for i
  proof -
    have "\<exists>\<mu> \<in> sols G [] (present_group gs). \<mu> ''g'' = Some (TermNamed i)" if "i \<in> set gs \<and> ?P i"
    proof (rule bexI)
      show "[''sys'' \<mapsto> TermNamed (sys_graph_iri i), ''g'' \<mapsto> TermNamed i] \<in> sols G [] (present_group gs)"
        using that unfolding sol by auto
    qed simp
    moreover have "\<mu> \<in> sols G [] (present_group gs) \<Longrightarrow> \<mu> ''g'' = Some (TermNamed i) \<Longrightarrow> i \<in> set gs \<and> ?P i" for \<mu>
      unfolding sol by auto
    moreover have "i \<in> set (List.map_filter row_graph ms) \<longleftrightarrow> (\<exists>\<mu> \<in> sols G [] (present_group gs). \<mu> ''g'' = Some (TermNamed i))"
      by (simp add: set_map_filter_iff assms(2) selected_def row_graph_Some)
    ultimately show ?thesis by metis
  qed
  then show ?thesis by blast
qed

lemma inst_SPO_row: "inst_triple \<mu> SPO = Some (raw_of t) \<and> \<mu> ''g'' = Some (TermNamed g) \<longleftrightarrow> row_triple \<mu> = Some (g, t)"
  by (cases t; cases "t_subject t")
    (auto simp: row_triple_def inst_SPO raw_of_def mk_triple_def term_node_iff split: option.splits rdf_term.splits prod.splits)

lemma row_triple_restrict: "row_triple (\<mu> |` {''g'', ''s'', ''p'', ''o''}) = row_triple \<mu>"
  by (simp add: row_triple_def)

lemma select_graphs:
  assumes "list_all plain_iri gs" and "set ms = selected G (Some [''g'', ''s'', ''p'', ''o'']) (graphs_group gs)"
  shows "set (List.map_filter row_triple ms) = {(g, t). g \<in> set gs \<and> t \<in> G g}"
proof -
  have sol: "\<mu> \<in> sols G [] (graphs_group gs) \<longleftrightarrow> dom \<mu> = {''g'', ''s'', ''p'', ''o''} \<and>
      (\<exists>g \<in> set gs. \<exists>t \<in> G g. \<mu> ''g'' = Some (TermNamed g) \<and> inst_triple \<mu> SPO = Some (raw_of t))" for \<mu>
    using assms(1) by (auto simp: sols_def graphs_group_def in_named_def matched_in_def image_iff list_all_iff plain_iri_def)
  have "(g, t) \<in> set (List.map_filter row_triple ms) \<longleftrightarrow> g \<in> set gs \<and> t \<in> G g" for g t
  proof -
    have "(g, t) \<in> set (List.map_filter row_triple ms) \<longleftrightarrow> (\<exists>\<mu> \<in> sols G [] (graphs_group gs). row_triple \<mu> = Some (g, t))"
      by (simp add: set_map_filter_iff assms(2) selected_def row_triple_restrict)
    also have "\<dots> \<longleftrightarrow> (\<exists>\<mu>. dom \<mu> = {''g'', ''s'', ''p'', ''o''} \<and> g \<in> set gs \<and> t \<in> G g \<and> row_triple \<mu> = Some (g, t))"
      unfolding Bex_def sol inst_SPO_row [symmetric] by (metis option.inject raw_of_inject rdf_term.inject(1))
    also have "\<dots> \<longleftrightarrow> g \<in> set gs \<and> t \<in> G g"
    proof -
      obtain s p x where r: "raw_of t = (s, p, x)" by (cases "raw_of t")
      let ?\<mu> = "[''g'' \<mapsto> TermNamed g, ''s'' \<mapsto> s, ''p'' \<mapsto> p, ''o'' \<mapsto> x]"
      have "dom ?\<mu> = {''g'', ''s'', ''p'', ''o''}" by auto
      moreover have "row_triple ?\<mu> = Some (g, t)"
        unfolding inst_SPO_row [symmetric] r inst_SPO by simp
      ultimately show ?thesis by metis
    qed
    finally show ?thesis .
  qed
  then show ?thesis by auto
qed

text \<open>The rows of a patch's conditions are the solutions of its patterns.\<close>

definition number :: "string \<Rightarrow> nat" where
  "number s = foldl (\<lambda>acc c. 10 * acc + (of_char c - 48)) 0 s"

lemma number_show_nat: "number (show_nat n) = n"
proof (induction n rule: show_nat.induct)
  case (1 n)
  have "number (s @ [char_of (48 + k)]) = 10 * number s + k" if "k < 10" for s and k :: nat
    using that by (simp add: number_def)
  with 1 show ?case by (subst show_nat.simps) (auto simp: number_def)
qed

lemma show_nat_inject [simp]: "show_nat i = show_nat j \<longleftrightarrow> i = j"
  by (metis number_show_nat)

lemma vars_patterns: "tpat_vars (map pattern_pat ps) = (\<lambda>i. CHR ''v'' # show_nat i) ` set (pattern_vars ps)"
proof -
  have "vt_vars (pterm_vt t) = (\<lambda>i. CHR ''v'' # show_nat i) ` set (term_vars t)" for t by (cases t) auto
  then show ?thesis by (auto simp: tpat_vars_def pattern_vars_def pattern_pat_def)
qed

lemma inst_pattern:
  assumes "\<And>i. i \<in> set (pattern_vars ps) \<Longrightarrow> map_of \<sigma> i = \<mu> (CHR ''v'' # show_nat i)" and "p \<in> set ps"
  shows "(\<exists>t \<in> G. inst_triple \<mu> (pattern_pat p) = Some (raw_of t)) \<longleftrightarrow> pattern_holds \<sigma> G p"
proof -
  have "inst \<mu> (pterm_vt t) = bound_term \<sigma> t" if "t \<in> {p_subject p, p_predicate p, p_object p}" for t
  proof (cases t)
    case (PVar i)
    then have "i \<in> set (term_vars t)" by simp
    with that assms(2) have "i \<in> set (pattern_vars ps)" by (auto simp: pattern_vars_def)
    with PVar assms(1) show ?thesis by simp
  qed simp_all
  then show ?thesis
    by (auto simp: pattern_holds_def inst_triple_def pattern_pat_def raw_of_def bind_eq_Some_conv)
qed

text \<open>The name \<open>render_term\<close> gives a variable.\<close>

abbreviation pattern_var :: "nat \<Rightarrow> string" where
  "pattern_var i \<equiv> CHR ''v'' # show_nat i"

lemma sols_patterns:
  "g \<noteq> [] \<Longrightarrow> \<mu> \<in> sols G [] [InGraph (named_con g) (map pattern_pat ps)] \<longleftrightarrow>
     dom \<mu> = pattern_var ` set (pattern_vars ps) \<and> (\<forall>p \<in> set ps. \<exists>t \<in> G g. inst_triple \<mu> (pattern_pat p) = Some (raw_of t))"
  by (simp add: sols_one_graph vars_patterns matched_in_def)

lemma row_solution_lookup:
  assumes "dom \<mu> = pattern_var ` set (pattern_vars ps)" and "i \<in> set (pattern_vars ps)"
  shows "map_of (row_solution ps \<mu>) i = \<mu> (pattern_var i)"
proof -
  from assms have "pattern_var i \<in> dom \<mu>" by auto
  then obtain x where "\<mu> (pattern_var i) = Some x" by (metis domD)
  with assms(2) show ?thesis by (simp add: row_solution_def map_of_map_restrict)
qed

lemma row_solution_inject:
  assumes "dom \<mu> = pattern_var ` set (pattern_vars ps)" "dom \<nu> = pattern_var ` set (pattern_vars ps)"
    and "row_solution ps \<mu> = row_solution ps \<nu>"
  shows "\<mu> = \<nu>"
proof
  fix x
  show "\<mu> x = \<nu> x"
  proof (cases "x \<in> pattern_var ` set (pattern_vars ps)")
    case True
    then obtain i where "i \<in> set (pattern_vars ps)" "x = pattern_var i" by blast
    with row_solution_lookup [OF assms(1)] row_solution_lookup [OF assms(2)] assms(3) show ?thesis by metis
  next
    case False
    with assms show ?thesis by (metis domIff)
  qed
qed

lemma row_solution_solves:
  assumes "dom \<mu> = pattern_var ` set (pattern_vars ps)" and "\<forall>p \<in> set ps. \<exists>t \<in> G. inst_triple \<mu> (pattern_pat p) = Some (raw_of t)"
  shows "row_solution ps \<mu> \<in> solutions G ps"
proof -
  have "map fst (row_solution ps \<mu>) = pattern_vars ps" by (simp add: row_solution_def comp_def)
  moreover have "\<forall>p \<in> set ps. pattern_holds (row_solution ps \<mu>) G p"
    using assms(2) inst_pattern [of ps "row_solution ps \<mu>" \<mu>, OF row_solution_lookup [OF assms(1)]] by simp
  ultimately show ?thesis by (simp add: solutions_def)
qed

text \<open>The row a solution comes from.\<close>

definition solution_row :: "pattern list \<Rightarrow> solution \<Rightarrow> valuation" where
  "solution_row ps \<sigma> = (\<lambda>x. if x \<in> pattern_var ` set (pattern_vars ps) then map_of \<sigma> (number (tl x)) else None)"

lemma solution_row_ok:
  assumes "\<sigma> \<in> solutions G ps"
  shows "dom (solution_row ps \<sigma>) = pattern_var ` set (pattern_vars ps)"
    and "\<forall>p \<in> set ps. \<exists>t \<in> G. inst_triple (solution_row ps \<sigma>) (pattern_pat p) = Some (raw_of t)"
    and "row_solution ps (solution_row ps \<sigma>) = \<sigma>"
proof -
  have keys: "map fst \<sigma> = pattern_vars ps" and d: "distinct (map fst \<sigma>)"
    using assms by (auto simp: solutions_def pattern_vars_def)
  have at: "solution_row ps \<sigma> (pattern_var i) = map_of \<sigma> i" if "i \<in> set (pattern_vars ps)" for i
    using that by (simp add: solution_row_def number_show_nat)
  have "map_of \<sigma> i \<noteq> None" if "i \<in> set (pattern_vars ps)" for i
    using that keys by (metis list.set_map map_of_eq_None_iff)
  then show "dom (solution_row ps \<sigma>) = pattern_var ` set (pattern_vars ps)"
    by (auto simp: solution_row_def dom_def number_show_nat)
  show "\<forall>p \<in> set ps. \<exists>t \<in> G. inst_triple (solution_row ps \<sigma>) (pattern_pat p) = Some (raw_of t)"
    using assms inst_pattern [of ps \<sigma> "solution_row ps \<sigma>"] at by (simp add: solutions_def)
  have "row_solution ps (solution_row ps \<sigma>) = map (\<lambda>i. (i, the (map_of \<sigma> i))) (map fst \<sigma>)"
    unfolding keys row_solution_def by (simp add: at cong: map_cong)
  also have "\<dots> = \<sigma>" using d by (auto simp: comp_def intro!: map_idI)
  finally show "row_solution ps (solution_row ps \<sigma>) = \<sigma>" .
qed

lemma row_solution_bij:
  assumes "g \<noteq> []"
  shows "bij_betw (row_solution ps) (sols G [] [InGraph (named_con g) (map pattern_pat ps)]) (solutions (G g) ps)"
    (is "bij_betw _ ?S _")
proof (rule bij_betwI')
  note S = sols_patterns [OF assms]
  show "row_solution ps \<mu> = row_solution ps \<nu> \<longleftrightarrow> \<mu> = \<nu>" if "\<mu> \<in> ?S" "\<nu> \<in> ?S" for \<mu> \<nu>
    using row_solution_inject that [unfolded S] by metis
  show "row_solution ps \<mu> \<in> solutions (G g) ps" if "\<mu> \<in> ?S" for \<mu>
    using that unfolding S by (elim conjE) (rule row_solution_solves)
  show "\<exists>\<mu> \<in> ?S. \<sigma> = row_solution ps \<mu>" if "\<sigma> \<in> solutions (G g) ps" for \<sigma>
    unfolding Bex_def S using solution_row_ok [OF that] by metis
qed

section \<open>An engine in memory\<close>

text \<open>An executable store for the fragment: solutions by trying every term the store or a \<open>VALUES\<close> block
  has. A filter that brings variables of its own, and a \<open>GRAPH\<close> without triples, are not supported.\<close>

fun vt_names :: "vt \<Rightarrow> string list" where
  "vt_names (Var v) = [v]"
| "vt_names (Con t) = []"

definition tpat_names :: "tpat list \<Rightarrow> string list" where
  "tpat_names ps = concat (map (\<lambda>(s, p, x). vt_names s @ vt_names p @ vt_names x) ps)"

fun elem_names :: "elem \<Rightarrow> string list" where
  "elem_names (Bgp ps) = tpat_names ps"
| "elem_names (InGraph g ps) = vt_names g @ tpat_names ps"
| "elem_names (ValuesBlock vs rows) = vs"
| "elem_names (ExistsFilter g ps) = []"

fun supported :: "elem \<Rightarrow> bool" where
  "supported (Bgp ps) = True"
| "supported (InGraph g ps) = (ps \<noteq> [])"
| "supported (ValuesBlock vs rows) = list_all (\<lambda>r. length r = length vs) rows"
| "supported (ExistsFilter g ps) = (vt_names g = [] \<and> tpat_names ps = [])"

definition mem_matched :: "mem_db \<Rightarrow> iri \<Rightarrow> valuation \<Rightarrow> tpat list \<Rightarrow> bool" where
  "mem_matched db n \<mu> ps = list_all (\<lambda>p. case inst_triple \<mu> p of None \<Rightarrow> False
     | Some r \<Rightarrow> r \<in> set (map raw_of (mem_graph db n))) ps"

fun mem_sat :: "mem_db \<Rightarrow> iri \<Rightarrow> valuation \<Rightarrow> elem \<Rightarrow> bool" where
  "mem_sat db d \<mu> (Bgp ps) = mem_matched db d \<mu> ps"
| "mem_sat db d \<mu> (ValuesBlock vs rows) = (map \<mu> vs \<in> set (map (map Some) rows))"
| "mem_sat db d \<mu> (InGraph g ps) = (case inst \<mu> g of Some (TermNamed n) \<Rightarrow> n \<noteq> [] \<and> mem_matched db n \<mu> ps | _ \<Rightarrow> False)"
| "mem_sat db d \<mu> (ExistsFilter g ps) = (case inst \<mu> g of Some (TermNamed n) \<Rightarrow> n \<noteq> [] \<and> mem_matched db n \<mu> ps | _ \<Rightarrow> False)"

fun elem_terms :: "elem \<Rightarrow> rdf_term list" where
  "elem_terms (ValuesBlock vs rows) = concat rows"
| "elem_terms _ = []"

definition candidates :: "mem_db \<Rightarrow> elem list \<Rightarrow> rdf_term list" where
  "candidates db es = remdups (map (TermNamed \<circ> fst) db @ mem_terms (map snd db) @ concat (map elem_terms es))"

definition mem_sols :: "mem_db \<Rightarrow> iri \<Rightarrow> elem list \<Rightarrow> valuation list" where
  "mem_sols db d es =
     (let vs = remdups (concat (map elem_names es)) in
      filter (\<lambda>\<mu>. list_all (mem_sat db d \<mu>) es)
        (map (\<lambda>ts. map_of (zip vs ts)) (List.n_lists (length vs) (candidates db es))))"

lemma set_vt_names: "set (vt_names v) = vt_vars v" by (cases v) auto

lemma set_tpat_names: "set (tpat_names ps) = tpat_vars ps"
  by (auto simp: tpat_names_def tpat_vars_def set_vt_names)

lemma set_elem_names: "set (elem_names e) = elem_vars e"
  by (cases e) (auto simp: set_vt_names set_tpat_names)

lemma mem_matched_iff: "mem_matched db n \<mu> ps \<longleftrightarrow> matched_in (mem_abs db n) \<mu> ps"
proof -
  have "(case inst_triple \<mu> p of None \<Rightarrow> False | Some r \<Rightarrow> r \<in> set (map raw_of (mem_graph db n))) \<longleftrightarrow>
      (\<exists>t \<in> mem_abs db n. inst_triple \<mu> p = Some (raw_of t))" for p
    by (cases "inst_triple \<mu> p") (auto simp: set_mem_graph)
  then show ?thesis by (simp add: mem_matched_def matched_in_def list_all_iff)
qed

lemma mem_named_iff: "(case inst \<mu> g of Some (TermNamed n) \<Rightarrow> n \<noteq> [] \<and> mem_matched db n \<mu> ps | _ \<Rightarrow> False) \<longleftrightarrow> in_named (mem_abs db) \<mu> g ps"
  by (auto simp: in_named_def mem_matched_iff split: option.splits rdf_term.splits)

text \<open>A pattern without variables is matched or not, whatever the solution.\<close>

lemma inst_closed: "vt_vars v = {} \<Longrightarrow> inst \<mu> v = inst \<nu> v" by (cases v) auto

lemma in_named_closed: "vt_vars g = {} \<Longrightarrow> tpat_vars ps = {} \<Longrightarrow> in_named G \<mu> g ps = in_named G \<nu> g ps"
proof -
  assume g: "vt_vars g = {}" and ps: "tpat_vars ps = {}"
  have "inst_triple \<mu> p = inst_triple \<nu> p" if "p \<in> set ps" for p
  proof -
    obtain s v x where p: "p = (s, v, x)" by (cases p)
    with ps that have "vt_vars s = {}" "vt_vars v = {}" "vt_vars x = {}" by (force simp: tpat_vars_def)+
    then show ?thesis using inst_closed [of _ \<mu> \<nu>] by (simp add: p inst_triple_def)
  qed
  with inst_closed [OF g, of \<mu> \<nu>] show ?thesis by (simp add: in_named_def matched_in_def)
qed

lemma mem_sat_iff: "supported e \<Longrightarrow> mem_sat db d \<mu> e \<longleftrightarrow> sat (mem_abs db) d \<mu> e"
proof (cases e)
  case (ExistsFilter g ps)
  assume "supported e"
  with ExistsFilter have "vt_vars g = {}" "tpat_vars ps = {}"
    unfolding set_vt_names [symmetric] set_tpat_names [symmetric] by simp_all
  with in_named_closed [OF this, of "mem_abs db" \<mu>] ExistsFilter show ?thesis
    by (auto simp: mem_named_iff intro: map_le_refl)
qed (auto simp: mem_matched_iff mem_named_iff)

lemma pattern_value:
  assumes "inst_triple \<mu> (s, p, x) = Some (raw_of t)" "v \<in> vt_vars s \<union> vt_vars p \<union> vt_vars x"
  shows "\<exists>y \<in> {node_term (t_subject t), TermNamed (t_predicate t), t_object t}. \<mu> v = Some y"
  using assms by (cases s; cases p; cases x) (auto simp: inst_triple_def raw_of_def bind_eq_Some_conv)

lemma mem_terms_mem: "(g, t) \<in> set db \<Longrightarrow>
    {node_term (t_subject t), TermNamed (t_predicate t), t_object t} \<subseteq> set (mem_terms (map snd db))"
  by (force simp: mem_terms_def)

lemma matched_value:
  assumes "matched_in (mem_abs db n) \<mu> ps" "v \<in> tpat_vars ps"
  shows "\<exists>y \<in> set (mem_terms (map snd db)). \<mu> v = Some y"
proof -
  from assms(2) obtain s p x where p: "(s, p, x) \<in> set ps" "v \<in> vt_vars s \<union> vt_vars p \<union> vt_vars x"
    by (auto simp: tpat_vars_def)
  with assms(1) obtain t where t: "t \<in> mem_abs db n" "inst_triple \<mu> (s, p, x) = Some (raw_of t)" by (auto simp: matched_in_def)
  from t(1) mem_terms_mem [of n t db] pattern_value [OF t(2) p(2)] show ?thesis by (auto simp: mem_abs_def)
qed

lemma sat_value:
  assumes "supported e" "sat (mem_abs db) d \<mu> e" "v \<in> elem_vars e"
  shows "\<exists>y \<in> set (map (TermNamed \<circ> fst) db @ mem_terms (map snd db) @ elem_terms e). \<mu> v = Some y"
proof (cases e)
  case (Bgp ps)
  with assms matched_value show ?thesis by fastforce
next
  case (InGraph g ps)
  with assms(2) obtain n where n: "inst \<mu> g = Some (TermNamed n)" "matched_in (mem_abs db n) \<mu> ps" by (auto simp: in_named_def)
  from InGraph assms(1) obtain p where "p \<in> set ps" by (cases ps) auto
  with n(2) obtain t where "(n, t) \<in> set db" by (auto simp: matched_in_def mem_abs_def)
  then have "TermNamed n \<in> set (map (TermNamed \<circ> fst) db)" by force
  with InGraph n assms(3) matched_value [OF n(2)] show ?thesis by (cases g) auto
next
  case (ValuesBlock vs rows)
  with assms(2) obtain row where row: "row \<in> set rows" "map \<mu> vs = map Some row" by auto
  from ValuesBlock assms(3) obtain k where "k < length vs" "vs ! k = v" by (auto simp: in_set_conv_nth)
  with row have "\<mu> v = Some (row ! k)" "row ! k \<in> set row" by (metis length_map nth_map, metis length_map nth_mem)
  with row(1) ValuesBlock show ?thesis by auto
qed (use assms in simp)

lemma mem_sols_ok:
  assumes "list_all supported es"
  shows "distinct (mem_sols db d es)" and "set (mem_sols db d es) = sols (mem_abs db) d es"
proof -
  let ?vs = "remdups (concat (map elem_names es))" and ?ts = "candidates db es"
  let ?of = "\<lambda>ts. map_of (zip ?vs ts)"
  have vars: "set ?vs = \<Union> (elem_vars ` set es)" by (auto simp: set_elem_names)
  have at: "map (?of ts) ?vs = map Some ts" if "length ts = length ?vs" for ts
    using that by (intro nth_equalityI) (auto simp: map_of_zip_nth)
  have inj: "inj_on ?of (set (List.n_lists (length ?vs) ?ts))"
    by (rule inj_onI) (metis at length_n_lists_elem list.inj_map_strong option.inject)
  show "distinct (mem_sols db d es)"
    using inj by (simp add: mem_sols_def Let_def distinct_map distinct_n_lists candidates_def)
  have "\<mu> \<in> set (mem_sols db d es) \<longleftrightarrow> \<mu> \<in> sols (mem_abs db) d es" for \<mu>
  proof -
    have sat: "list_all (mem_sat db d \<mu>) es \<longleftrightarrow> (\<forall>e \<in> set es. sat (mem_abs db) d \<mu> e)"
      using assms mem_sat_iff by (auto simp: list_all_iff)
    have "\<mu> \<in> ?of ` set (List.n_lists (length ?vs) ?ts)" if "dom \<mu> = set ?vs" "\<forall>e \<in> set es. sat (mem_abs db) d \<mu> e"
    proof
      let ?l = "map (\<lambda>v. the (\<mu> v)) ?vs"
      show "\<mu> = ?of ?l"
      proof
        fix x
        have "\<exists>y. \<mu> x = Some y" if "x \<in> set ?vs" using \<open>dom \<mu> = set ?vs\<close> that by (metis domD)
        moreover have "\<mu> x = None" if "x \<notin> set ?vs" using \<open>dom \<mu> = set ?vs\<close> that by (metis domIff)
        ultimately show "\<mu> x = ?of ?l x" by (cases "x \<in> set ?vs") (auto simp: map_of_zip_map)
      qed
      have "the (\<mu> v) \<in> set ?ts" if v: "v \<in> set ?vs" for v
      proof -
        from v vars obtain e where e: "e \<in> set es" "v \<in> elem_vars e" by auto
        with assms \<open>\<forall>e \<in> set es. sat (mem_abs db) d \<mu> e\<close> sat_value [of e db d \<mu> v]
        show ?thesis by (fastforce simp: list_all_iff candidates_def)
      qed
      then show "?l \<in> set (List.n_lists (length ?vs) ?ts)" by (auto simp: set_n_lists)
    qed
    moreover have "dom \<mu> = set ?vs" if "\<mu> \<in> ?of ` set (List.n_lists (length ?vs) ?ts)"
      using that by (metis (no_types, lifting) dom_map_of_zip imageE length_n_lists_elem)
    ultimately show ?thesis
      unfolding mem_sols_def Let_def sols_def set_filter set_map mem_Collect_eq sat vars [symmetric] by blast
  qed
  then show "set (mem_sols db d es) = sols (mem_abs db) d es" by blast
qed

definition mem_quads :: "iri \<Rightarrow> quads \<Rightarrow> valuation list \<Rightarrow> mem_db" where
  "mem_quads d qs ms = concat (map (\<lambda>\<mu>. concat (map (\<lambda>(g, ps). case block_graph d \<mu> g of
     None \<Rightarrow> [] | Some h \<Rightarrow> map (Pair h) (List.map_filter (\<lambda>p. Option.bind (inst_triple \<mu> p) raw_triple) ps)) qs)) ms)"

fun mem_apply :: "update_op \<Rightarrow> mem_db \<Rightarrow> string + mem_db" where
  "mem_apply (Drop g) db = Inr (mem_remove g (\<lambda>_. True) db)"
| "mem_apply (DataInsert qs) db = Inr (db @ mem_quads [] qs [Map.empty])"
| "mem_apply (DataDelete qs) db = Inr (filter (\<lambda>q. q \<notin> set (mem_quads [] qs [Map.empty])) db)"
| "mem_apply (Modify w dl il es) db =
     (if list_all supported es then
        let d = (case w of None \<Rightarrow> [] | Some g \<Rightarrow> g); ms = mem_sols db d es
        in Inr (filter (\<lambda>q. q \<notin> set (mem_quads d dl ms)) db @ mem_quads d il ms)
      else Inl ''unsupported pattern'')"

fun mem_applies :: "update_op list \<Rightarrow> mem_db \<Rightarrow> string + mem_db" where
  "mem_applies [] db = Inr db"
| "mem_applies (u # us) db = res_bind (mem_apply u db) (mem_applies us)"

definition mem_construct :: "mem_db \<Rightarrow> tpat list \<Rightarrow> elem list \<Rightarrow> triple list" where
  "mem_construct db ps es = remdups (concat (map (\<lambda>\<mu>.
     List.map_filter (\<lambda>p. Option.bind (inst_triple \<mu> p) raw_triple) ps) (mem_sols db [] es)))"

definition mem_select :: "mem_db \<Rightarrow> string list option \<Rightarrow> elem list \<Rightarrow> valuation list" where
  "mem_select db vs es = (case vs of None \<Rightarrow> mem_sols db [] es | Some us \<Rightarrow> map (\<lambda>\<mu>. \<mu> |` set us) (mem_sols db [] es))"

fun query_group :: "query \<Rightarrow> elem list" where
  "query_group (Ask es) = es"
| "query_group (Construct ps es) = es"
| "query_group (Select vs es n) = es"

fun mem_answer :: "mem_db \<Rightarrow> query \<Rightarrow> query_results" where
  "mem_answer db (Ask es) = ResultBoolean (mem_sols db [] es \<noteq> [])"
| "mem_answer db (Construct ps es) = ResultGraph (map Inr (mem_construct db ps es))"
| "mem_answer db (Select vs es n) = ResultSolutions (map Inr (case n of
     None \<Rightarrow> mem_select db vs es | Some k \<Rightarrow> take k (mem_select db vs es)))"

definition mem_oxigraph :: "mem_db oxigraph" where
  "mem_oxigraph = \<lparr>
     ox_update = (\<lambda>db sparql. case read_update sparql of None \<Rightarrow> Inl ''not an update'' | Some us \<Rightarrow> mem_applies us db),
     ox_query = (\<lambda>db sparql. case read_query sparql of
        None \<Rightarrow> Inl ''not a query''
      | Some q \<Rightarrow> if list_all supported (query_group q) then Inr (mem_answer db q) else Inl ''unsupported pattern''),
     ox_join_error = (\<lambda>_. None)\<rparr>"

lemma bind_raw: "Option.bind (inst_triple \<mu> p) raw_triple = Some t \<longleftrightarrow> inst_triple \<mu> p = Some (raw_of t)"
  by (cases "inst_triple \<mu> p") (simp_all only: bind.simps raw_triple_iff option.distinct option.inject)

lemma mem_quads_in: "(h, t) \<in> set (mem_quads d qs ms) \<longleftrightarrow> t \<in> quads_in d qs (set ms) h"
proof -
  have "(h, t) \<in> set (case b of None \<Rightarrow> [] | Some k \<Rightarrow> map (Pair k) xs) \<longleftrightarrow> b = Some h \<and> t \<in> set xs" for b and xs :: "triple list"
    by (cases b) auto
  then show ?thesis
    by (simp add: mem_quads_def quads_in_def set_map_filter_iff bind_raw Bex_def split_beta)
qed

lemma mem_apply_ok: "mem_apply u db = Inr db' \<Longrightarrow> mem_abs db' = apply_update u (mem_abs db)"
proof (cases u)
  case (Modify w dl il es)
  assume run: "mem_apply u db = Inr db'"
  with Modify have "list_all supported es" by (simp split: if_splits)
  from mem_sols_ok(2) [OF this] run Modify show ?thesis
    by (auto simp: Let_def fun_eq_iff mem_abs_def mem_quads_in split: if_splits)
qed (auto simp: mem_abs_remove fun_eq_iff mem_quads_in mem_abs_def mem_remove_def)

lemma mem_applies_ok: "mem_applies us db = Inr db' \<Longrightarrow> mem_abs db' = apply_updates us (mem_abs db)"
  by (induction us arbitrary: db) (auto simp: apply_updates_def res_bind_Inr dest!: mem_apply_ok)

lemma mem_construct_ok: "list_all supported es \<Longrightarrow> set (mem_construct db ps es) = constructed (mem_abs db) ps es"
  by (simp add: mem_construct_def constructed_def mem_sols_ok(2) set_eq_iff set_map_filter_iff bind_raw)

lemma mem_select_ok: "list_all supported es \<Longrightarrow> set (mem_select db vs es) = selected (mem_abs db) vs es"
  by (simp add: mem_select_def selected_def mem_sols_ok(2) split: option.splits)

lemma mem_answer_ok: "list_all supported (query_group q) \<Longrightarrow> answers q (mem_abs db) (mem_answer db q)"
proof (cases q)
  case (Ask es)
  assume "list_all supported (query_group q)"
  with Ask mem_sols_ok(2) [of es db "[]"] show ?thesis by (auto simp: set_empty [symmetric] simp del: set_empty)
next
  case (Construct ps es)
  assume "list_all supported (query_group q)"
  moreover have "distinct (mem_construct db ps es)" by (simp add: mem_construct_def)
  ultimately show ?thesis using Construct mem_construct_ok by (auto simp: inj_map_eq_map)
next
  case (Select vs es n)
  assume sup: "list_all supported (query_group q)"
  then have set: "set (mem_select db vs es) = selected (mem_abs db) vs es" using Select mem_select_ok by simp
  show ?thesis
  proof (cases n)
    case None
    with Select set show ?thesis by (auto simp: inj_map_eq_map)
  next
    case (Some k)
    have "distinct (mem_select db None es) \<and> length (mem_select db None es) = card (selected (mem_abs db) None es)"
      using sup Select mem_select_ok [of es db None] mem_sols_ok(1) [of es db "[]"] by (auto simp: mem_select_def distinct_card [symmetric])
    with Some Select set show ?thesis
      by (auto simp: inj_map_eq_map min_def dest: in_set_takeD)
  qed
qed

interpretation mem_ox: oxigraph_store mem_oxigraph mem_abs
  by unfold_locales (auto simp: mem_oxigraph_def mem_applies_ok mem_answer_ok split: option.splits if_splits)

section \<open>A writer of terms\<close>

text \<open>The canonical N-Triples form, which satisfies what is asked of \<open>Display\<close>.\<close>

definition escape :: "char \<Rightarrow> string" where
  "escape c =
     (if c = CHR 0x22 then [CHR 0x5C, CHR 0x22] else if c = CHR 0x5C then [CHR 0x5C, CHR 0x5C]
      else if c = CHR 0x0A then [CHR 0x5C, CHR ''n''] else if c = CHR 0x0D then [CHR 0x5C, CHR ''r''] else [c])"

definition nt_literal :: "literal \<Rightarrow> string" where
  "nt_literal l = CHR 0x22 # concat (map escape (l_value l)) @ CHR 0x22 # (case l_language l of
     None \<Rightarrow> if l_datatype l = XSD_STRING then [] else ''^^<'' @ l_datatype l @ ''>''
   | Some lang \<Rightarrow> ''@'' @ lang @ direction_suffix (l_direction l))"

fun nt_term :: "rdf_term \<Rightarrow> string" where
  "nt_term (TermNamed n) = ''<'' @ n @ ''>''"
| "nt_term (TermBlank b) = ''_:'' @ b"
| "nt_term (TermLiteral l) = nt_literal l"
| "nt_term (TermTriple s p x) = ''<<( '' @ (case s of NamedNode n \<Rightarrow> ''<'' @ n @ ''>'' | BlankNode b \<Rightarrow> ''_:'' @ b)
     @ '' <'' @ p @ ''> '' @ nt_term x @ '' )>>''"

definition nt_display :: display where
  "nt_display = \<lparr>d_named = (\<lambda>n. ''<'' @ n @ ''>''), d_literal = nt_literal, d_term = nt_term\<rparr>"

lemma lex_escaped: "lex_string (concat (map escape v) @ CHR 0x22 # r) = Some (v, r)"
  by (induction v) (auto simp: escape_def echar_def)

lemma lex_quoted: "(r = [] \<or> hd r \<noteq> CHR 0x22) \<Longrightarrow>
    lex (CHR 0x22 # concat (map escape v) @ CHR 0x22 # r) = emits [TStr v] (lex r)"
proof -
  assume r: "r = [] \<or> hd r \<noteq> CHR 0x22"
  have "\<not> prefix [CHR 0x22, CHR 0x22] (concat (map escape v) @ CHR 0x22 # r)"
    using r by (cases v; cases r) (auto simp: escape_def)
  then show ?thesis by (simp add: lex.simps(2) [of "CHR 0x22"] white_def lex_escaped)
qed

lemma plain_tag_chars: "plain_tag s \<Longrightarrow> list_all lang_char s \<and> s \<noteq> []"
  by (induction s rule: plain_tag.induct) auto

lemma direction_suffix_chars: "list_all lang_char (direction_suffix d)"
  by (cases d rule: direction_suffix.cases) (simp_all add: lang_char_def alpha_def)

lemma nt_literal_lex: "wf_literal l \<Longrightarrow> lex (nt_literal l @ CHR '' '' # r) = emits (literal_tokens l) (lex r)"
proof (cases "l_language l")
  case None
  assume "wf_literal l"
  with None have dt: "plain_iri (l_datatype l)" by (simp add: wf_literal_def)
  have "lex (CHR ''^'' # CHR ''^'' # s) = emits [TDatatype] (lex s)" for s by (simp add: lex.simps(2) [of "CHR ''^''"] white_def)
  with None dt show ?thesis by (simp add: nt_literal_def literal_tokens_def lex_quoted)
next
  case (Some lang)
  assume "wf_literal l"
  with Some have tag: "plain_tag lang" by (simp add: wf_literal_def)
  let ?tag = "lang @ direction_suffix (l_direction l)"
  have "\<not> lang_char (CHR '' '')" by (simp add: lang_char_def alpha_def digit_def)
  then have "takeWhile lang_char (?tag @ CHR '' '' # r) = ?tag" "dropWhile lang_char (?tag @ CHR '' '' # r) = CHR '' '' # r"
    using takeWhile_all [of lang_char ?tag "CHR '' '' # r"] plain_tag_chars [OF tag] direction_suffix_chars by simp_all
  then have "lex (CHR ''@'' # ?tag @ CHR '' '' # r) = emits [TLang ?tag] (lex r)"
    using plain_tag_chars [OF tag] by (simp add: lex.simps(2) [of "CHR ''@''"] white_def)
  with Some show ?thesis by (simp add: nt_literal_def literal_tokens_def lex_quoted)
qed

lemma nt_term_lex: "printable t \<Longrightarrow> lex (nt_term t @ CHR '' '' # r) = emits (term_tokens t) (lex r)"
proof (induction t arbitrary: r)
  case (TermTriple s p x)
  have "lex (CHR ''<'' # CHR ''<'' # CHR ''('' # s) = emits [TOpenTriple] (lex s)" for s
    by (simp add: lex.simps(2) [of "CHR ''<''"] white_def)
  moreover have "lex (CHR '')'' # CHR ''>'' # CHR ''>'' # s) = emits [TCloseTriple] (lex s)" for s
    by (simp add: lex.simps(2) [of "CHR '')''"] white_def)
  ultimately show ?case using TermTriple by auto
qed (simp_all add: nt_literal_lex)

interpretation nt: sparql_display nt_display
  by unfold_locales (simp_all add: nt_display_def nt_literal_lex nt_term_lex)

section \<open>Properties\<close>

text \<open>Every update text the sources send, with the operations the model has for it.\<close>

inductive sent :: "display \<Rightarrow> string \<Rightarrow> sop list \<Rightarrow> bool" for D where
  put_dataset: "plain_iri i \<Longrightarrow> list_all plain_iri reg \<Longrightarrow> list_all printable_quad df \<Longrightarrow> list_all printable_shelf sh \<Longrightarrow>
    sent D (put_dataset_text D i reg df sh mt) (put_dataset_update i reg (serialize_for_insert df) (shelved sh) mt)"
| put_blob: "plain_iri i \<Longrightarrow> list_all plain_iri reg \<Longrightarrow> sent D (put_blob_text D i reg mt) (put_blob_update i reg mt)"
| put_rdf: "plain_iri i \<Longrightarrow> list_all printable_quad body \<Longrightarrow>
    sent D (put_rdf_text D i body) (put_rdf_update i (serialize_for_insert body))"
| insert_marked: "plain_iri i \<Longrightarrow> list_all printable_quad body \<Longrightarrow>
    sent D (insert_marked_text D i body) (insert_marked_update i (serialize_for_insert body))"
| delete_rdf: "plain_iri i \<Longrightarrow> sent D (delete_rdf_text i) (delete_rdf_update i)"
| conditional_put: "plain_iri (a_iri a) \<Longrightarrow> plain_iri (r_iri (a_subject a)) \<Longrightarrow> list_all printable_quad body \<Longrightarrow>
    sent D (conditional_put_text D a body) (conditional_put_update a (serialize_for_insert body))"
| delete_subject: "list_all plain_iri reg \<Longrightarrow> plain_iri (r_iri u) \<Longrightarrow> (\<And>k. plain_iri (a_iri (url_aux u k))) \<Longrightarrow>
    (\<And>p. parent u = Some p \<Longrightarrow> plain_iri (container_iri p)) \<Longrightarrow>
    sent D (delete_subject_text D u reg) (delete_subject_ops u reg @ (case parent u of None \<Rightarrow> []
      | Some p \<Rightarrow> [DeleteData (container_iri p) [contains_triple (container_iri p) (r_iri u)]]))"
| patch: "plain_iri i \<Longrightarrow> list_all printable_raw ds \<Longrightarrow> list_all printable_raw ins \<Longrightarrow>
    sent D (patch_text D i ds ins []) [ModifyGround i ds ins None]"
| patch_aux: "plain_iri (a_iri a) \<Longrightarrow> plain_iri (r_iri (a_subject a)) \<Longrightarrow> list_all printable_raw ds \<Longrightarrow> list_all printable_raw ins \<Longrightarrow>
    sent D (patch_text D (a_iri a) ds ins (guard_text (r_iri (a_subject a)))) [ModifyGround (a_iri a) ds ins (subject_present_guard a)]"

lemma sys_named [simp]: "sys_graph_iri i \<noteq> []" by (simp add: sys_graph_iri_def SYS_PREFIX_def)

lemma plain_named: "plain_iri i \<Longrightarrow> i \<noteq> []" by (simp add: plain_iri_def)

lemma sent_named: "sent D txt us \<Longrightarrow> list_all sop_named us"
  by (erule sent.cases)
     (auto simp: put_dataset_update_def put_blob_update_def put_rdf_update_def insert_marked_update_def delete_rdf_update_def
      conditional_put_update_def subject_present_guard_def guard_named_def delete_subject_ops_def list_all_iff plain_named
      split: option.splits)

context sparql_display
begin

lemma sent_reads: "sent D txt us \<Longrightarrow> reads_as txt us"
proof (induction rule: sent.induct)
  case (patch i ds ins)
  then show ?case by (intro patch_reads) simp_all
next
  case (patch_aux a ds ins)
  then show ?case by (intro patch_reads) (auto simp: subject_present_guard_def)
qed (simp_all add: put_dataset_reads put_blob_reads put_rdf_reads delete_rdf_reads conditional_put_reads delete_subject_reads)

end

context oxigraph_store
begin

lemma store_update_meaning:
  "store_update ox txt db = Inr db' \<Longrightarrow> reads_as txt us \<Longrightarrow> list_all sop_named us \<Longrightarrow> abs db' = exec us (abs db)"
  using update_meaning run_sops by (auto simp: store_update_def reads_as_def map_err_Inr dest!: blocking_Inr)

lemma store_ask_meaning:
  "store_ask ox txt db = Inr b \<Longrightarrow> read_query txt = Some (Ask [InGraph (named_con g) (map raw_pat rs)]) \<Longrightarrow> g \<noteq> [] \<Longrightarrow>
     b \<longleftrightarrow> set rs \<subseteq> raw_of ` abs db g"
proof -
  assume "store_ask ox txt db = Inr b" "read_query txt = Some (Ask [InGraph (named_con g) (map raw_pat rs)])" "g \<noteq> []"
  from query_meaning [OF store_ask_Inr [OF this(1)] this(2)] ask_meaning [OF this(3), of "abs db" "[]" rs] show ?thesis
    by (simp only: answers.simps(1) query_results.inject(1))
qed

lemma store_triples_meaning:
  "store_query_triples ox txt db = Inr ts \<Longrightarrow> read_query txt = Some (Construct ps es) \<Longrightarrow> distinct ts \<and> set ts = constructed (abs db) ps es"
  using query_meaning [OF store_query_triples_Inr] by fastforce

lemma store_rows_meaning:
  "store_query_solutions ox txt db = Inr ms \<Longrightarrow> read_query txt = Some (Select vs es None) \<Longrightarrow> set ms = selected (abs db) vs es"
  using query_meaning [OF store_query_solutions_Inr] by fastforce

lemma store_limited_meaning:
  "store_query_solutions ox txt db = Inr ms \<Longrightarrow> read_query txt = Some (Select None [InGraph g ps] (Some n)) \<Longrightarrow>
     distinct ms \<and> set ms \<subseteq> sols (abs db) [] [InGraph g ps] \<and> length ms = min n (card (sols (abs db) [] [InGraph g ps]))"
  using query_meaning [OF store_query_solutions_Inr] by (fastforce simp: selected_def)

end

text \<open>C6: whatever a client puts into a graph name, a literal or a patch, an update the pod sends is read by
  SPARQL's grammar as the operations the model has for it and as nothing else, and when the store accepts
  it the graphs change exactly as those operations say. Nothing can close a quote or a bracket and
  continue the update as syntax.\<close>

theorem update_text_exact:
  assumes "sparql_display D" and "sent D txt us"
  shows "read_update txt = Some (map sop_syntax us) \<and>
    (\<forall>ox abs db db'. oxigraph_store ox abs \<and> store_update ox txt db = Inr db' \<longrightarrow> abs db' = exec us (abs db))"
  using sparql_display.sent_reads [OF assms] sent_named [OF assms(2)] oxigraph_store.store_update_meaning
  by (auto simp: reads_as_def)

theorem update_text_exact_witness:
  "mem_abs (case store_update mem_oxigraph (delete_rdf_text ''http://h/a'')
       [(''http://h/a'', present_triple ''http://h/a''), (sys_graph_iri ''http://h/a'', present_triple ''http://h/a'')] of Inr db \<Rightarrow> db) =
   exec (delete_rdf_update ''http://h/a'')
     (mem_abs [(''http://h/a'', present_triple ''http://h/a''), (sys_graph_iri ''http://h/a'', present_triple ''http://h/a'')])"
proof -
  let ?db = "[(''http://h/a'', present_triple ''http://h/a''), (sys_graph_iri ''http://h/a'', present_triple ''http://h/a'')]"
  have "plain_iri ''http://h/a''" by code_simp
  then have sent: "sent nt_display (delete_rdf_text ''http://h/a'') (delete_rdf_update ''http://h/a'')" by (rule sent.delete_rdf)
  note exact = update_text_exact [OF nt.sparql_display_axioms sent]
  from exact [THEN conjunct1] have "read_update (delete_rdf_text ''http://h/a'') = Some [Drop ''http://h/a'', Drop (sys_graph_iri ''http://h/a'')]"
    by (simp add: delete_rdf_update_def)
  then obtain db where "store_update mem_oxigraph (delete_rdf_text ''http://h/a'') ?db = Inr db"
    by (simp add: store_update_def blocking_def mem_oxigraph_def)
  with exact [THEN conjunct2, rule_format, OF conjI, OF mem_ox.oxigraph_store_axioms] show ?thesis by simp
qed

text \<open>C7: each query the pod sends is answered as the model's operation in its place: presence and kind are
  the markers in the system graph, a graph's content is all of it, the objects of a subject and predicate
  are exactly those, the presence of many and the lists of many are those of each, and the rows of a
  patch's conditions, at most two, are as many as its patterns have solutions and are among them.\<close>

theorem query_text_exact:
  assumes "sparql_display D" and "oxigraph_store ox sabs" and "plain_iri i"
  shows "(\<forall>b. store_ask ox (ask_present_text i) db = Inr b \<longrightarrow> (b \<longleftrightarrow> present_triple i \<in> sabs db (sys_graph_iri i))) \<and>
    (\<forall>b. store_ask ox (ask_binary_text i) db = Inr b \<longrightarrow>
       (b \<longleftrightarrow> mk_triple (NamedNode i) RDF_TYPE (TermNamed SYS_BINARY_RESOURCE) \<in> sabs db (sys_graph_iri i))) \<and>
    (\<forall>b ds. list_all printable_raw ds \<and> ds \<noteq> [] \<and> store_ask ox (ask_ground_text D i ds) db = Inr b \<longrightarrow>
       (b \<longleftrightarrow> set ds \<subseteq> raw_of ` sabs db i)) \<and>
    (\<forall>ts. store_query_triples ox (graph_text i) db = Inr ts \<longrightarrow> distinct ts \<and> set ts = sabs db i) \<and>
    (\<forall>v s p ts. plain_iri s \<and> plain_iri p \<and> list_all name_char v \<and> v \<noteq> [] \<and> store_query_triples ox (objects_text v i s p) db = Inr ts \<longrightarrow>
       set ts = {t \<in> sabs db i. t_subject t = NamedNode s \<and> t_predicate t = p}) \<and>
    (\<forall>gs rows. list_all plain_iri gs \<and> store_query_solutions ox (present_query_text gs) db = Inr rows \<longrightarrow>
       set (List.map_filter row_graph rows) = {g \<in> set gs. present_triple g \<in> sabs db (sys_graph_iri g)}) \<and>
    (\<forall>gs rows. list_all plain_iri gs \<and> store_query_solutions ox (graphs_query_text gs) db = Inr rows \<longrightarrow>
       set (List.map_filter row_triple rows) = {(g, t). g \<in> set gs \<and> t \<in> sabs db g}) \<and>
    (\<forall>ps rows. list_all printable_pattern ps \<and> ps \<noteq> [] \<and> store_query_solutions ox (match_text D i ps) db = Inr rows \<longrightarrow>
       distinct (map (row_solution ps) rows) \<and> set (map (row_solution ps) rows) \<subseteq> solutions (sabs db i) ps \<and>
       length rows = min 2 (card (solutions (sabs db i) ps)))"
proof -
  note o = oxigraph_store.store_ask_meaning [OF assms(2)] oxigraph_store.store_triples_meaning [OF assms(2)]
    oxigraph_store.store_rows_meaning [OF assms(2)] oxigraph_store.store_limited_meaning [OF assms(2)]
  have i: "i \<noteq> []" using assms(3) by (rule plain_named)
  have matches: "distinct (map (row_solution ps) rows) \<and> set (map (row_solution ps) rows) \<subseteq> solutions (sabs db i) ps \<and>
       length rows = min 2 (card (solutions (sabs db i) ps))"
    if "list_all printable_pattern ps" "ps \<noteq> []" "store_query_solutions ox (match_text D i ps) db = Inr rows" for ps rows
    using o(4) [OF that(3) sparql_display.match_query_reads [OF assms(1,3) that(1,2)]] row_solution_bij [OF i, of ps "sabs db"]
    by (auto simp: distinct_map bij_betw_def bij_betw_same_card [OF row_solution_bij [OF i, of ps "sabs db"]] inj_on_subset image_mono)
  have presence: "b \<longleftrightarrow> present_triple i \<in> sabs db (sys_graph_iri i)" if "store_ask ox (ask_present_text i) db = Inr b" for b
    using o(1) [of _ _ _ "sys_graph_iri i" "[raw_of (present_triple i)]", OF that] present_query_reads(1) [OF assms(3)] by auto
  have binary: "b \<longleftrightarrow> mk_triple (NamedNode i) RDF_TYPE (TermNamed SYS_BINARY_RESOURCE) \<in> sabs db (sys_graph_iri i)"
    if "store_ask ox (ask_binary_text i) db = Inr b" for b
    using o(1) [of _ _ _ "sys_graph_iri i" "[raw_of (mk_triple (NamedNode i) RDF_TYPE (TermNamed SYS_BINARY_RESOURCE))]", OF that]
      present_query_reads(2) [OF assms(3)] by auto
  have ground: "b \<longleftrightarrow> set ds \<subseteq> raw_of ` sabs db i"
    if "list_all printable_raw ds \<and> ds \<noteq> [] \<and> store_ask ox (ask_ground_text D i ds) db = Inr b" for b ds
    using o(1) [of "ask_ground_text D i ds" db b i ds] sparql_display.ground_query_reads [OF assms(1,3)] that i by blast
  have objects: "set ts = {t \<in> sabs db i. t_subject t = NamedNode s \<and> t_predicate t = p}"
    if "plain_iri s \<and> plain_iri p \<and> list_all name_char v \<and> v \<noteq> [] \<and> store_query_triples ox (objects_text v i s p) db = Inr ts" for v s p ts
    using o(2) [of "objects_text v i s p" db ts] objects_query_reads [OF assms(3), of s p v] that construct_objects [OF i, of "sabs db" s p v] by simp
  have whole: "distinct ts \<and> set ts = sabs db i" if "store_query_triples ox (graph_text i) db = Inr ts" for ts
    using o(2) [OF that graph_query_reads [OF assms(3)]] construct_graph [OF i] by simp
  have many: "set (List.map_filter row_graph rows) = {g \<in> set gs. present_triple g \<in> sabs db (sys_graph_iri g)}"
    if "list_all plain_iri gs \<and> store_query_solutions ox (present_query_text gs) db = Inr rows" for gs rows
    using that select_present o(3) present_many_reads by blast
  have lists: "set (List.map_filter row_triple rows) = {(g, t). g \<in> set gs \<and> t \<in> sabs db g}"
    if "list_all plain_iri gs \<and> store_query_solutions ox (graphs_query_text gs) db = Inr rows" for gs rows
    using that select_graphs o(3) graphs_many_reads by blast
  show ?thesis
    by (intro conjI) ((intro allI impI, rule presence binary ground whole objects many lists, assumption)
      | (intro allI impI, elim conjE, rule matches, assumption+))+
qed

theorem query_text_exact_witness:
  "store_ask mem_oxigraph (ask_present_text ''http://h/a'') [(sys_graph_iri ''http://h/a'', present_triple ''http://h/a'')] = Inr True \<and>
   (\<exists>ts. store_query_triples mem_oxigraph (graph_text ''http://h/a'') [(''http://h/a'', present_triple ''http://h/a'')] = Inr ts \<and>
      set ts = {present_triple ''http://h/a''})"
proof -
  let ?i = "''http://h/a''" and ?db = "[(sys_graph_iri ''http://h/a'', present_triple ''http://h/a'')]"
    and ?g = "[(''http://h/a'', present_triple ''http://h/a'')]"
  have i: "plain_iri ?i" by code_simp
  note exact = query_text_exact [OF nt.sparql_display_axioms mem_ox.oxigraph_store_axioms i]
  obtain b where b: "store_ask mem_oxigraph (ask_present_text ?i) ?db = Inr b"
    using present_query_reads(1) [OF i]
    by (simp add: store_ask_def evaluate_def blocking_def mem_oxigraph_def)
  have "present_triple ?i \<in> mem_abs ?db (sys_graph_iri ?i)" by (simp add: mem_abs_def)
  with exact [of ?db, THEN conjunct1, rule_format, OF b] b
  have ask: "store_ask mem_oxigraph (ask_present_text ?i) ?db = Inr True" by simp
  obtain ts where ts: "store_query_triples mem_oxigraph (graph_text ?i) ?g = Inr ts"
    using graph_query_reads [OF i]
    by (simp add: store_query_triples_def evaluate_def blocking_def mem_oxigraph_def collect_res_Inr)
  have "mem_abs ?g ?i = {present_triple ?i}" by (auto simp: mem_abs_def)
  with exact [of ?g, THEN conjunct2, THEN conjunct2, THEN conjunct2, THEN conjunct1, rule_format, OF ts] ts ask
  show ?thesis by simp
qed

section \<open>Names that stand in a statement\<close>

text \<open>The URLs the program mints: those \<open>resolve\<close> answers with, the root, and what the derivations make of them.\<close>

inductive minted :: "(string \<Rightarrow> bool) \<Rightarrow> storage_space \<Rightarrow> resource_url \<Rightarrow> bool" for valid_iri sp where
  resolved: "resolve valid_iri sp p = Inr t \<Longrightarrow> minted valid_iri sp (target_subject t)"
| root: "minted valid_iri sp (as_resource (space_root sp))"
| container: "minted valid_iri sp u \<Longrightarrow> parent u = Some c \<Longrightarrow> minted valid_iri sp (as_resource c)"
| counterpart: "minted valid_iri sp u \<Longrightarrow> slash_counterpart u = Some w \<Longrightarrow> minted valid_iri sp w"

definition nameable :: "storage_space \<Rightarrow> resource_url \<Rightarrow> bool" where
  "nameable sp u \<longleftrightarrow> in_space sp u \<and> list_all iri_char (r_path u)"

lemma nameable_resource: "in_space sp u \<Longrightarrow> list_all iri_char (r_iri u) \<Longrightarrow> nameable sp u"
  by (auto simp: nameable_def in_space_def prefix_def iri_char_def)

lemma nameable_minted:
  assumes "wf_space sp" and "\<And>i. valid_iri i \<Longrightarrow> list_all iri_char i" and "minted valid_iri sp u"
  shows "nameable sp u"
  using assms(3)
proof (induction rule: minted.induct)
  case (resolved p t)
  then show ?case
  proof (cases rule: resolve_Inr_cases)
    case (plain v)
    with assms(2) [of "r_iri v"] show ?thesis
      by (intro nameable_resource) (auto simp: in_space_def)
  next
    case (aux sub k v)
    with assms(2) [of "r_iri v"] show ?thesis
      by (intro nameable_resource) (auto simp: in_space_def url_aux_def)
  qed
next
  case root
  show ?case by (simp add: nameable_def in_space_def space_root_def iri_char_def)
next
  case (container u c)
  then have "in_space sp (as_resource c)" "parent_path (r_path u) = Some (r_path (as_resource c))"
    using parent_in_space [OF _ assms(1)] by (auto simp: nameable_def container_path_def)
  moreover from parent_path_split [OF this(2)] obtain x where "r_path u = r_path (as_resource c) @ x" by metis
  ultimately show ?case using container by (simp add: nameable_def)
next
  case (counterpart u w)
  then have u: "in_space sp u" "list_all iri_char (r_path u)" by (simp_all add: nameable_def)
  have w: "w = \<lparr>r_path = r_path w, r_iri = url_base u @ r_path w\<rparr>" "prefix ''/'' (r_path w)" "list_all iri_char (r_path w)"
    using counterpart(2) u by (auto simp: slash_counterpart_def in_space_def str_simps prefix_def iri_char_def split: option.splits list.splits)
  with in_space_mint [OF u(1) assms(1) w(2)] show ?case by (simp add: nameable_def)
qed

lemma nameable_plain:
  assumes "nameable sp u" "wf_space sp" "list_all iri_char (s_base sp)"
  shows "plain_iri (r_iri u)" and "plain_iri (a_iri (url_aux u k))"
proof -
  obtain b where b: "s_base sp = b @ ''/''" using assms(2) by (rule wf_spaceE)
  with assms(1) have base: "url_base u = b" "r_iri u = b @ r_path u"
    using in_space_base [of sp u b] url_base_eq [of u b] by (simp_all add: nameable_def)
  with assms b show "plain_iri (r_iri u)" by (auto simp: plain_iri_def nameable_def in_space_def)
  have "list_all iri_char (''/'' @ AUX_SEGMENT)" by code_simp
  moreover have "list_all iri_char (kind_suffix Acl)" by code_simp
  ultimately show "plain_iri (a_iri (url_aux u k))" using assms b base by (cases k) (simp add: plain_iri_def nameable_def url_aux_def)
qed

text \<open>C18: no name the program mints can break out of the statement it is interpolated into. Where the IRI
  library accepts no IRI with a character SPARQL forbids between angle brackets, the graph of every URL that
  \<open>resolve\<close>, the root or a derivation from them gives, of its auxiliaries, and the system graph of each,
  is scanned as one IRI token, whatever text follows it.\<close>

theorem minted_names_embed:
  assumes "new_space valid_iri base = Inr sp" and "\<And>i. valid_iri i \<Longrightarrow> list_all iri_char i" and "minted valid_iri sp u"
    and "g = r_iri u \<or> g = a_iri (url_aux u k)"
  shows "lex (''<'' @ g @ ''>'' @ rest) = emits [TIri g] (lex rest) \<and>
    lex (''<'' @ sys_graph_iri g @ ''>'' @ rest) = emits [TIri (sys_graph_iri g)] (lex rest)"
proof -
  from wf_space_new [OF assms(1)] have sp: "wf_space sp" "list_all iri_char (s_base sp)" using assms(2) by auto
  from nameable_plain [OF nameable_minted [OF sp(1) assms(2,3)] sp] assms(4) have "plain_iri g" by auto
  then show ?thesis using lex_iri [of g rest] lex_iri [OF plain_sys, of g rest] by simp
qed

theorem minted_names_embed_witness:
  "lex (''<'' @ a_iri (url_aux \<lparr>r_path = ''/a/b'', r_iri = ''http://h/a/b''\<rparr> Acl) @ ''>'' @ '' }'') =
     emits [TIri ''http://h/.aux/a/b.acl''] (lex '' }'')"
proof -
  let ?v = "list_all iri_char" and ?u = "\<lparr>r_path = ''/a/b'', r_iri = ''http://h/a/b''\<rparr>"
  have sp: "new_space ?v ''http://h/'' = Inr \<lparr>s_base = ''http://h/''\<rparr>" by code_simp
  have "resolve ?v \<lparr>s_base = ''http://h/''\<rparr> ''/a/b'' = Inr (Resource ?u)" by code_simp
  from minted.resolved [OF this] have "minted ?v \<lparr>s_base = ''http://h/''\<rparr> ?u" by simp
  from minted_names_embed [OF sp _ this disjI2 [OF refl], THEN conjunct1]
  have "lex (''<'' @ a_iri (url_aux ?u Acl) @ ''>'' @ '' }'') = emits [TIri (a_iri (url_aux ?u Acl))] (lex '' }'')" .
  moreover have "a_iri (url_aux ?u Acl) = ''http://h/.aux/a/b.acl''" by code_simp
  ultimately show ?thesis by (simp only:)
qed

end
