(* ===== verification/Spec2Isabelle.thy ===== *)
theory Spec2Isabelle
  imports Startup Endpoint
begin

text \<open>
  \<^bold>\<open>A verified model of quadpod\<close>, a Solid pod: an HTTP server that stores RDF datasets and binary
  resources in a tree of containers, guards every access by Web Access Control lists, authenticates
  requests by DPoP-bound OIDC tokens, validates writes against SHACL shapes and notifies
  subscribers of changes.

  \<^bold>\<open>Parts and theories.\<close> File names are under \<^verbatim>\<open>src/src\<close>.

  \<^item> \<open>Prelude\<close>: byte strings and their Rust operations (\<open>split\<close>, \<open>strip_prefix\<close>, \<open>trim\<close>), results
    (\<open>res_bind\<close>, \<open>map_err\<close>) and operations on a world, \<open>('w, 'e, 'a) op\<close>, with their reasoning rules.
  \<^item> \<open>Space\<close> (\<^verbatim>\<open>space.rs\<close>): request paths, resources, containers, auxiliaries; \<open>resolve\<close>, \<open>parent\<close>,
    \<open>ancestors\<close>, \<open>slash_counterpart\<close>.
  \<^item> \<open>Rdf\<close>, \<open>Datasets\<close> (\<^verbatim>\<open>dataset.rs\<close>): terms, quads, skolemization of blank nodes, projection to an
    RDF version, entity tags.
  \<^item> \<open>Media\<close>, \<open>Codec\<close> (\<^verbatim>\<open>rdf.rs\<close>): media types, content negotiation, parsing and serializing.
  \<^item> \<open>Pdp\<close> (\<^verbatim>\<open>wac/pdp.rs\<close>): what a list grants an agent. \<open>Guards\<close> (\<^verbatim>\<open>wac/guard.rs\<close>, \<^verbatim>\<open>wac/prp.rs\<close>,
    \<^verbatim>\<open>wac/provision.rs\<close>): the probe, the decisions, materialization of missing containers.
  \<^item> \<open>Patches\<close> (\<^verbatim>\<open>patch.rs\<close>): N3 Patch documents.
  \<^item> \<open>Sparql\<close> (the trait of \<^verbatim>\<open>store.rs\<close>): the update operations the program sends and their meaning
    on graphs. \<open>Grammar\<close>: the part of SPARQL the program uses, as a scanner, a parser and a meaning on
    graphs. \<open>Statements\<close> (the \<^verbatim>\<open>format!\<close> calls of \<^verbatim>\<open>resource.rs\<close>, \<^verbatim>\<open>aux.rs\<close>, \<^verbatim>\<open>container.rs\<close> and
    \<^verbatim>\<open>wac/prp.rs\<close>, with \<^verbatim>\<open>sparql.rs\<close>): the text of every update and query. \<open>Endpoint\<close>
    (\<open>OxigraphStore\<close> of \<^verbatim>\<open>store.rs\<close>): sending those texts and reading the results.
  \<^item> \<open>Shelves\<close> (\<^verbatim>\<open>shelf.rs\<close>, \<^verbatim>\<open>blob.rs\<close>), \<open>Resources\<close> (\<^verbatim>\<open>resource.rs\<close>), \<open>Containers\<close>
    (\<^verbatim>\<open>container.rs\<close>), \<open>Auxiliaries\<close> (\<^verbatim>\<open>aux.rs\<close>): storage.
  \<^item> \<open>Fetch\<close> (\<^verbatim>\<open>auth/safe_fetch.rs\<close>), \<open>Replay\<close>, \<open>Discovery\<close>, \<open>Credentials\<close> (the rest of \<^verbatim>\<open>auth/\<close>):
    guarded outbound requests, the replay store, issuer discovery with its caches, tokens, proofs
    and the authentication layer. \<open>Provider\<close> (\<^verbatim>\<open>op/\<close>): the pod's own signing keys, key set,
    discovery document and tokens.
  \<^item> \<open>Edge\<close>, \<open>Shapes\<close> (\<^verbatim>\<open>shapes.rs\<close>), \<open>Notify\<close> (\<^verbatim>\<open>notify.rs\<close>), \<open>Writes\<close>, \<open>Reads\<close>, \<open>Router\<close>
    (\<^verbatim>\<open>http.rs\<close>): replies, conditional requests, shape constraints, the notification bus, and the
    handlers behind their route table and layers (\<open>serve\<close>). \<open>Lifecycle\<close>: what one request leaves
    for the next. \<open>Invariants\<close>: what every handler keeps of the tree of containers.
  \<^item> \<open>Configuration\<close> (\<^verbatim>\<open>config.rs\<close>): command line, environment and file, and what the settings build.
    \<open>Startup\<close> (\<^verbatim>\<open>main.rs\<close>): from a loaded configuration to a provisioned pod (\<open>start_server\<close>) and the
    states it reaches by serving requests (\<open>running\<close>).

  \<^bold>\<open>State.\<close> The \<open>world\<close> of storage is the RDF store, the object store and the number of UUIDs drawn;
  a handler's state adds the bus. Fallible code returns \<open>Inl\<close> of the error, a panic is the error
  \<open>Panicked\<close> (as a reply, \<open>panicked\<close>), so that reaching one is visible in every statement.

  \<^bold>\<open>Interfaces.\<close> Third-party code is a parameter: records of functions (\<open>env\<close>, \<open>server\<close>,
  \<open>jose_scheme\<close>) and locales for what it promises. \<open>sparql_backend\<close> and the object-store locale give
  \<open>pod\<close>, under which the storage, guard and handler lemmas are proved; they are interpreted on the
  in-memory stores (\<open>mem_pod\<close>), and properties take the interface as their hypothesis.
  \<open>reliable_pod\<close> adds that no store operation fails, for the statement that a granted \<open>DELETE\<close>
  succeeds.
  \<open>tree_pod\<close> is the tree invariant with the storage contract, and \<open>clap_rules\<close> the precedence that
  \<open>clap\<close> documents. \<open>sparql_display\<close> says that \<open>oxrdf\<close> writes a term as tokens of SPARQL, and
  \<open>oxigraph_store\<close> that \<open>oxigraph\<close> reads and runs a text as \<open>Grammar\<close> does; they are interpreted on a writer
  of N-Triples and on an executable in-memory engine.
  \<open>jti_replay_store\<close>, \<open>issuer_source\<close>, \<open>webid_issuer_verifier\<close> and \<open>auth_backend\<close> are interpreted on
  the program's own replay store, resolvers, verifiers and wiring; \<open>op_backend\<close>, what \<open>josekit\<close>
  promises of its keys and signers, on a small concrete scheme. Injectivity of SHA-256, where
  assumed, idealises collision resistance.

  \<^bold>\<open>What is shown.\<close> Names cannot collide or escape their pod (\<open>Space\<close>, \<open>Shelves\<close>, \<open>Media\<close>). Stored
  data is read back up to blank node renaming, writes are atomic, and no interleaving of updates
  leaves an auxiliary without its subject (\<open>Datasets\<close>, \<open>Resources\<close>, \<open>Auxiliaries\<close>). A verdict is that of
  the nearest list alone and leaks nothing else; materialization touches only what the agent may
  append to (\<open>Pdp\<close>, \<open>Guards\<close>). A WebID is believed only after every check, and no proof twice
  (\<open>Credentials\<close>); fetches stay within the operator's policy, caches within their bounds (\<open>Fetch\<close>,
  \<open>Discovery\<close>). At the edge, nothing happens without a grant (\<open>Router\<close>), a successful \<open>DELETE\<close> had all
  the grants it needs and removed exactly its subject (\<open>Writes\<close>), entity tags revalidate what they
  were served with (\<open>Reads\<close>), and subscribers hear exactly what changed (\<open>Notify\<close>). A served request
  that changes anything had the grant and the identity for it (\<open>serve\<close>), and the
  tokens the pod mints are those its own verifier accepts (\<open>Provider\<close>). From its first start on, a
  pod keeps its tree in order: every resource is listed by its parent and none coexists with its slash
  counterpart (\<open>Invariants\<close>, \<open>Startup\<close>). The operations the storage theories reason about
  are what the texts the program sends mean, whatever a client puts into a literal or a path
  (\<open>Statements\<close>, \<open>Endpoint\<close>), and what is given explicitly overrides a configuration file
  (\<open>Configuration\<close>).

  \<^bold>\<open>Bounds.\<close> Times are 64-bit words with the saturating operations of the source; addresses are
  words; cache, body and channel limits are the source's constants. Every recursion is proved
  terminating, so no fuel is used. The clock is read once per network state, and caches are
  used by one request at a time; updates of the store interleave as a step relation.

  \<^bold>\<open>Not modelled.\<close> Binding the socket, the signal handler and tracing in \<^verbatim>\<open>main.rs\<close>; \<^verbatim>\<open>lib.rs\<close>, which
  declares modules; log lines; the headers axum adds to the replies it makes itself; the text of error
  messages that print a foreign error; test support.
\<close>

end
